(* ===== verification/KS_Prelude.thy ===== *)
theory KS_Prelude
  imports Main "HOL-Library.AList" "HOL-Library.Char_ord" "HOL-Library.List_Lexorder"
    "HOL-Library.Product_Lexorder" "HOL-Library.Word"
begin

text \<open>
  Prelude of the kubesim development: the conventions of Go that every component shares.

  \<^item> \<open>gerr\<close> is a Go \<open>error\<close> value, kept structured: an error of the API machinery, a message,
    or a message wrapped around another error by \<open>fmt.Errorf("...: %v", err)\<close>.
  \<^item> \<open>res\<close> is how a call ends: it returns a value, it returns an error, the goroutine panics,
    or it does not return (it stays blocked or keeps looping).
  \<^item> \<open>gomap\<close> is a Go \<open>map\<close> that may be nil: reading a nil map finds nothing, writing one panics.
  \<^item> \<open>chan\<close> is the life cycle of an unbuffered Go channel, with the panics of \<open>close\<close>.
  \<^item> \<open>quot\<close> is Go's integer division, which truncates towards zero.
  \<^item> \<open>string_of_int\<close> is the \<open>%v\<close> rendering of an integer.
\<close>

named_theorems go_simps \<open>evaluation rules of the Go conventions\<close>

section \<open>Errors, panics and results\<close>

datatype api_error = AlreadyExists string | NotFound string | BadRequest string

datatype gerr =
    ApiErr api_error
  | Msg string
  | Wrap string gerr

datatype go_panic =
    NilDereference
  | NilMapWrite
  | SliceBounds
  | DivideByZero
  | CloseOfNilChannel
  | CloseOfClosedChannel
  | SendOnClosedChannel
  | PanicMessage string

datatype 'a res = Ok 'a | Err gerr | Panic go_panic | Hang

fun map_res :: "('a \<Rightarrow> 'b) \<Rightarrow> 'a res \<Rightarrow> 'b res" where
  "map_res f (Ok x) = Ok (f x)"
| "map_res f (Err e) = Err e"
| "map_res f (Panic p) = Panic p"
| "map_res f Hang = Hang"

text \<open>
  A statement that may change the state: the state it leaves is kept in every outcome, also
  when it returns an error. \<open>seq\<close> continues after a normal return and propagates the rest.
\<close>

type_synonym ('s, 'a) outcome = "'a res \<times> 's"

fun seq :: "('s, 'a) outcome \<Rightarrow> ('a \<Rightarrow> 's \<Rightarrow> ('t, 'b) outcome) \<Rightarrow> ('s \<Rightarrow> 't) \<Rightarrow> ('t, 'b) outcome"
  where
  "seq (Ok x, s) f k = f x s"
| "seq (Err e, s) f k = (Err e, k s)"
| "seq (Panic p, s) f k = (Panic p, k s)"
| "seq (Hang, s) f k = (Hang, k s)"

lemma seq_Ok: "seq m f k = (Ok x, s) \<longleftrightarrow> (\<exists>y s1. m = (Ok y, s1) \<and> f y s1 = (Ok x, s))"
proof -
  obtain r s0 where "m = (r, s0)" by fastforce
  then show ?thesis by (cases r) auto
qed

section \<open>Go maps\<close>

type_synonym ('k, 'v) gomap = "('k \<rightharpoonup> 'v) option"

type_synonym smap = "(string, string) gomap"

definition nil_map :: "('k, 'v) gomap" where
  "nil_map = None"

definition make_map :: "('k, 'v) gomap" where
  "make_map = Some Map.empty"

fun gm_get :: "('k, 'v) gomap \<Rightarrow> 'k \<Rightarrow> 'v option" where
  "gm_get None k = None"
| "gm_get (Some m) k = m k"

fun gm_put :: "('k, 'v) gomap \<Rightarrow> 'k \<Rightarrow> 'v \<Rightarrow> ('k, 'v) gomap res" where
  "gm_put None k v = Panic NilMapWrite"
| "gm_put (Some m) k v = Ok (Some (m(k \<mapsto> v)))"

text \<open>The idiom \<open>if m == nil { m = map[...]{} }; m[k] = v\<close>.\<close>

fun gm_put_alloc :: "('k, 'v) gomap \<Rightarrow> 'k \<Rightarrow> 'v \<Rightarrow> ('k, 'v) gomap" where
  "gm_put_alloc None k v = Some [k \<mapsto> v]"
| "gm_put_alloc (Some m) k v = Some (m(k \<mapsto> v))"

lemma gm_get_put_alloc [simp]:
  "gm_get (gm_put_alloc m k v) k' = (if k' = k then Some v else gm_get m k')"
  by (cases m) auto

lemma gm_put_alloc_not_nil [simp]: "gm_put_alloc m k v \<noteq> None"
  by (cases m) auto

lemma gm_put_ok_iff: "(\<exists>m'. gm_put m k v = Ok m') \<longleftrightarrow> m \<noteq> None"
  by (cases m) auto

section \<open>Channels\<close>

datatype chan = ChanNil | ChanOpen | ChanClosed

fun close_chan :: "chan \<Rightarrow> chan res" where
  "close_chan ChanNil = Panic CloseOfNilChannel"
| "close_chan ChanOpen = Ok ChanClosed"
| "close_chan ChanClosed = Panic CloseOfClosedChannel"

lemma close_chan_ok_iff: "close_chan c = Ok c' \<longleftrightarrow> c = ChanOpen \<and> c' = ChanClosed"
  by (cases c) auto

section \<open>Integers\<close>

text \<open>Go's \<open>/\<close> and \<open>%\<close> on signed integers.\<close>

definition quot :: "int \<Rightarrow> int \<Rightarrow> int" where
  "quot a b = sgn a * sgn b * (\<bar>a\<bar> div \<bar>b\<bar>)"

definition rem :: "int \<Rightarrow> int \<Rightarrow> int" where
  "rem a b = a - b * quot a b"

lemma quot_nonneg: "0 \<le> a \<Longrightarrow> 0 < b \<Longrightarrow> quot a b = a div b"
  by (cases "a = 0") (auto simp: quot_def)

lemma rem_nonneg: "0 \<le> a \<Longrightarrow> 0 < b \<Longrightarrow> rem a b = a mod b"
  by (simp add: rem_def quot_nonneg minus_mult_div_eq_mod)

lemma quot_two_neg: "a < 0 \<Longrightarrow> quot a 2 = - ((- a) div 2)"
  by (simp add: quot_def)

fun digits_of_nat :: "nat \<Rightarrow> string" where
  "digits_of_nat n =
     (if n < 10 then [char_of (48 + n)] else digits_of_nat (n div 10) @ [char_of (48 + n mod 10)])"

declare digits_of_nat.simps [simp del]

definition string_of_int :: "int \<Rightarrow> string" where
  "string_of_int i =
     (if i < 0 then CHR ''-'' # digits_of_nat (nat (- i)) else digits_of_nat (nat i))"

text \<open>The rendering holds digits and a sign only; in particular no colon and no newline.\<close>

lemma digits_of_nat_range: "c \<in> set (digits_of_nat n) \<Longrightarrow> (48 :: nat) \<le> of_char c \<and> of_char c \<le> (57 :: nat)"
proof (induction n rule: digits_of_nat.induct)
  case (1 n)
  show ?case
  proof (cases "n < 10")
    case True
    with "1.prems" show ?thesis
      by (subst (asm) digits_of_nat.simps) (auto simp: of_char_of)
  next
    case False
    from "1.prems" False
    have "c \<in> set (digits_of_nat (n div 10)) \<or> c = char_of (48 + n mod 10)"
      by (subst (asm) digits_of_nat.simps) auto
    then show ?thesis
    proof
      assume "c \<in> set (digits_of_nat (n div 10))"
      with "1.IH" False show ?thesis by blast
    next
      assume c: "c = char_of (48 + n mod 10)"
      have "n mod 10 < 10" by simp
      then have "(48 + n mod 10) mod 256 = 48 + n mod 10" by simp
      with c \<open>n mod 10 < 10\<close> show ?thesis
        by (simp add: of_char_of)
    qed
  qed
qed

lemma string_of_int_clean:
  assumes "c \<in> set (string_of_int i)"
  shows "c \<noteq> CHR '':'' \<and> c \<noteq> CHR 0x0A \<and> c \<noteq> CHR '' ''"
proof (cases "c = CHR ''-''")
  case True
  then show ?thesis by simp
next
  case False
  with assms have "\<exists>n. c \<in> set (digits_of_nat n)"
    by (auto simp: string_of_int_def split: if_splits)
  then have r: "(48 :: nat) \<le> of_char c \<and> of_char c \<le> (57 :: nat)"
    using digits_of_nat_range by blast
  have "c \<noteq> CHR '':''" using r by (rule contrapos_pn) simp
  moreover have "c \<noteq> CHR 0x0A" using r by (rule contrapos_pn) simp
  moreover have "c \<noteq> CHR '' ''" using r by (rule contrapos_pn) simp
  ultimately show ?thesis by blast
qed

section \<open>Association lists\<close>

text \<open>The cluster store keeps its maps as association lists with distinct keys.\<close>

lemmas alist_simps [simp] =
  AList.distinct_update AList.distinct_delete AList.update_conv' AList.delete_conv'

lemma update_fresh: "k \<notin> fst ` set xs \<Longrightarrow> AList.update k v xs = xs @ [(k, v)]"
  by (induction xs) auto

lemma length_delete_mem:
  "distinct (map fst xs) \<Longrightarrow> k \<in> fst ` set xs \<Longrightarrow> Suc (length (AList.delete k xs)) = length xs"
proof (induction xs)
  case Nil
  then show ?case by simp
next
  case (Cons x xs)
  show ?case
  proof (cases "fst x = k")
    case True
    with Cons.prems have "k \<notin> fst ` set xs" by auto
    with True show ?thesis by (cases x) simp
  next
    case False
    with Cons show ?thesis by auto
  qed
qed

end
