(* ===== verification/Node_Search.thy ===== *)
theory Node_Search
  imports KS_Prelude
begin

text \<open>
  The search loop of \<open>PredictionEmulator\<close> in \<open>simulator.go\<close>, with \<open>generateMaxNode\<close>.

  The loop variables are the record \<open>search\<close>; \<open>search_update\<close> and \<open>search_next\<close> are the assignments
  and the branches at the end of the loop body. They need the emulation only for one bit, whether
  all applications were scheduled, so the search is studied here against an oracle for that bit
  (\<open>search_run\<close>): where it finds the least sufficient number, and where it never ends. The theory
  \<open>Prediction\<close> composes it with the emulation.

  Node counts are unbounded integers here; the theory \<open>Search_Int64\<close> runs the search on 64-bit words
  and shows that the two agree. The products of \<open>generateMaxNode\<close> are computed in float64; \<open>round53\<close> is the rounding of an integer to 53
  significant bits, to nearest with ties to even.
\<close>

section \<open>The first upper bound\<close>

fun bit_length :: "nat \<Rightarrow> nat" where
  "bit_length n = (if n = 0 then 0 else Suc (bit_length (n div 2)))"

declare bit_length.simps [simp del]

definition round_even :: "int \<Rightarrow> nat \<Rightarrow> int" where
  "round_even x e =
     (let q = x div 2 ^ e; r = x mod 2 ^ e in
      (if 2 * r < 2 ^ e \<or> (2 * r = 2 ^ e \<and> even q) then q else q + 1) * 2 ^ e)"

definition round53 :: "int \<Rightarrow> int" where
  "round53 x = round_even x (bit_length (nat x) - 53)"

text \<open>The constants 1.2, 1.3 and 1.4 as float64: these integers over \<open>2 ^ 52\<close>.\<close>

definition float_1_2 :: int where "float_1_2 = 5404319552844595"
definition float_1_3 :: int where "float_1_3 = 5854679515581645"
definition float_1_4 :: int where "float_1_4 = 6305039478318694"

definition int_of_product :: "int \<Rightarrow> int \<Rightarrow> int" where
  "int_of_product c n = round53 (c * round53 n) div 2 ^ 52"

definition generateMaxNode :: "int \<Rightarrow> int" where
  "generateMaxNode minNode =
     (if minNode \<le> 1 then 10
      else if minNode > 1 \<and> minNode \<le> 100 then 2 * minNode
      else if minNode > 100 \<and> minNode \<le> 1000 then int_of_product float_1_2 minNode
      else if minNode > 1000 \<and> minNode \<le> 3000 then int_of_product float_1_3 minNode
      else if minNode > 4000 then int_of_product float_1_4 minNode
      else 0)"

lemma bit_length_bounds: "0 < n \<Longrightarrow> 2 ^ (bit_length n - 1) \<le> n \<and> n < 2 ^ bit_length n"
proof (induction n rule: bit_length.induct)
  case (1 n)
  show ?case
  proof (cases "n div 2 = 0")
    case True
    then have "n = 1" using "1.prems" by auto
    then show ?thesis by (simp add: bit_length.simps)
  next
    case False
    then have b: "bit_length n = Suc (bit_length (n div 2))" "0 < bit_length (n div 2)"
      using "1.prems" by (subst bit_length.simps, simp)+
    from "1.IH" False "1.prems" have "2 ^ (bit_length (n div 2) - 1) \<le> n div 2" "n div 2 < 2 ^ bit_length (n div 2)"
      by simp_all
    moreover have "2 ^ bit_length (n div 2) = 2 * (2 :: nat) ^ (bit_length (n div 2) - 1)"
      using b(2) by (cases "bit_length (n div 2)") simp_all
    moreover define p where "p = (2 :: nat) ^ (bit_length (n div 2) - 1)"
    ultimately have "p \<le> n div 2" "n div 2 < 2 * p" and e: "2 ^ bit_length (n div 2) = 2 * p" by simp_all
    then have "2 * p \<le> n" "n < 4 * p" by linarith+
    with e show ?thesis by (simp add: b(1))
  qed
qed

lemma round_even_lower: "0 \<le> x \<Longrightarrow> x - 2 ^ e < round_even x e"
proof -
  have "x div 2 ^ e * 2 ^ e = x - x mod 2 ^ e" by (simp add: minus_mod_eq_div_mult)
  moreover have "x mod 2 ^ e < 2 ^ e" by simp
  ultimately have "x - 2 ^ e < x div 2 ^ e * 2 ^ e" by linarith
  moreover have "x div 2 ^ e * 2 ^ e \<le> round_even x e"
    by (auto simp: round_even_def Let_def distrib_right)
  ultimately show ?thesis by linarith
qed

lemma round_even_upper: "0 \<le> x \<Longrightarrow> round_even x e \<le> x + 2 ^ e"
proof -
  have "x div 2 ^ e * 2 ^ e = x - x mod 2 ^ e" by (simp add: minus_mod_eq_div_mult)
  moreover have "0 \<le> x mod 2 ^ e" by simp
  moreover have "round_even x e \<le> x div 2 ^ e * 2 ^ e + 2 ^ e"
    by (auto simp: round_even_def Let_def distrib_right)
  ultimately show ?thesis by linarith
qed

lemma round53_exact: "0 \<le> x \<Longrightarrow> x < 2 ^ 53 \<Longrightarrow> round53 x = x"
proof -
  assume a: "0 \<le> x" "x < 2 ^ 53"
  have "bit_length (nat x) \<le> 53"
  proof (rule ccontr)
    assume "\<not> bit_length (nat x) \<le> 53"
    then have l: "53 \<le> bit_length (nat x) - 1" by simp
    then have "0 < nat x" by (cases "nat x = 0") (simp_all add: bit_length.simps)
    then have "2 ^ (bit_length (nat x) - 1) \<le> nat x" using bit_length_bounds by blast
    moreover have "(2 :: nat) ^ 53 \<le> 2 ^ (bit_length (nat x) - 1)" using l by (intro power_increasing) auto
    ultimately have "2 ^ 53 \<le> nat x" by linarith
    with a show False by simp
  qed
  then show ?thesis by (simp add: round53_def round_even_def Let_def)
qed

text \<open>The rounding error is at most one part in \<open>2 ^ 52\<close>.\<close>

lemma round53_lower:
  assumes "0 \<le> x"
  shows "x * (2 ^ 52 - 1) \<le> round53 x * 2 ^ 52"
proof (cases "x < 2 ^ 53")
  case True
  then show ?thesis using assms by (simp add: round53_exact)
next
  case False
  define e where "e = bit_length (nat x) - 53"
  have pos: "0 < nat x" using False assms by simp
  have b: "2 ^ (bit_length (nat x) - 1) \<le> nat x" "nat x < 2 ^ bit_length (nat x)"
    using bit_length_bounds [OF pos] by auto
  have "53 < bit_length (nat x)"
  proof (rule ccontr)
    assume "\<not> 53 < bit_length (nat x)"
    then have "(2 :: nat) ^ bit_length (nat x) \<le> 2 ^ 53" by (intro power_increasing) auto
    then have "nat x < 2 ^ 53" using b(2) by linarith
    with False assms show False by (simp add: nat_less_iff)
  qed
  then have "bit_length (nat x) - 1 = e + 52" by (simp add: e_def)
  then have "2 ^ e * 2 ^ 52 \<le> nat x" using b(1) by (simp add: power_add)
  then have "int (2 ^ e * 2 ^ 52) \<le> x" using assms by linarith
  then have "(2 :: int) ^ e * 2 ^ 52 \<le> x" by simp
  moreover have "x - 2 ^ e \<le> round53 x"
    using round_even_lower [OF assms, of e] by (simp add: round53_def e_def)
  then have "(x - 2 ^ e) * 2 ^ 52 \<le> round53 x * 2 ^ 52" by (intro mult_right_mono) auto
  ultimately show ?thesis by (simp add: algebra_simps)
qed

lemma int_of_product_lower:
  assumes n: "0 \<le> n" "n \<le> 2 ^ 53" and c: "0 \<le> c"
    and big: "(n + 2) * 2 ^ 52 * 2 ^ 52 \<le> c * n * (2 ^ 52 - 1)"
  shows "n + 2 \<le> int_of_product c n"
proof -
  have r: "round53 n = n"
  proof (cases "n = 2 ^ 53")
    case True
    have "bit_length (nat n) = 54"
      unfolding True by (simp add: bit_length.simps)
    then show ?thesis by (simp add: round53_def round_even_def Let_def True)
  qed (use n round53_exact in simp)
  have "0 \<le> c * n" using c n by simp
  from round53_lower [OF this] big have "(n + 2) * 2 ^ 52 * 2 ^ 52 \<le> round53 (c * n) * 2 ^ 52"
    by (rule order_trans [rotated])
  then have "(n + 2) * 2 ^ 52 \<le> round53 (c * n)" by simp
  then have "(n + 2) * 2 ^ 52 div 2 ^ 52 \<le> round53 (c * n) div 2 ^ 52" by (rule zdiv_mono1) simp
  then show ?thesis by (simp add: int_of_product_def r)
qed

text \<open>The sizes for which there is an upper bound, and the gap for which there is none.\<close>

definition in_gap :: "int \<Rightarrow> bool" where
  "in_gap n \<longleftrightarrow> 3000 < n \<and> n \<le> 4000"

lemma generateMaxNode_gap: "in_gap n \<Longrightarrow> generateMaxNode n = 0"
  by (simp add: generateMaxNode_def in_gap_def)

lemma generateMaxNode_above:
  assumes "n \<le> 2 ^ 53" and "\<not> in_gap n"
  shows "n + 2 \<le> generateMaxNode n"
proof -
  consider "n \<le> 1" | "1 < n" "n \<le> 100" | "100 < n" "n \<le> 1000" | "1000 < n" "n \<le> 3000" | "4000 < n"
    using assms(2) by (fastforce simp: in_gap_def)
  then show ?thesis
  proof cases
    case 3
    then have "n + 2 \<le> int_of_product float_1_2 n"
      by (intro int_of_product_lower) (simp_all add: float_1_2_def)
    with 3 show ?thesis by (simp add: generateMaxNode_def)
  next
    case 4
    then have "n + 2 \<le> int_of_product float_1_3 n"
      by (intro int_of_product_lower) (simp_all add: float_1_3_def)
    with 4 show ?thesis by (simp add: generateMaxNode_def)
  next
    case 5
    then have "n + 2 \<le> int_of_product float_1_4 n"
      using assms(1) by (intro int_of_product_lower) (simp_all add: float_1_4_def)
    with 5 show ?thesis by (simp add: generateMaxNode_def)
  qed (simp_all add: generateMaxNode_def)
qed

section \<open>The search\<close>

record search =
  minNode :: int
  maxNode :: int
  FminNode :: int
  FmaxNode :: int
  predictionNodeCount :: int

definition search_start :: "int \<Rightarrow> search" where
  "search_start n =
     \<lparr>minNode = n, maxNode = generateMaxNode n, FminNode = n, FmaxNode = generateMaxNode n,
      predictionNodeCount = quot (n + generateMaxNode n) 2\<rparr>"

definition search_update :: "bool \<Rightarrow> search \<Rightarrow> search" where
  "search_update go s0 =
     (let s = (if go then s0\<lparr>maxNode := predictionNodeCount s0\<rparr>
               else s0\<lparr>minNode := predictionNodeCount s0\<rparr>)
      in s\<lparr>predictionNodeCount := quot (minNode s + maxNode s) 2\<rparr>)"

text \<open>How the loop body ends: with the answer, with a last try on no nodes, or with another round.\<close>

datatype 's search_end = Found 's | AtZero 's | Again 's

definition search_next :: "search \<Rightarrow> search search_end" where
  "search_next s =
     (if maxNode s - minNode s = 1 \<and> FmaxNode s \<noteq> maxNode s \<and> FminNode s \<noteq> minNode s
      then Found (s\<lparr>predictionNodeCount := maxNode s\<rparr>)
      else if maxNode s - minNode s = 1 \<and> FmaxNode s = maxNode s
      then (let s1 = s\<lparr>FmaxNode := FmaxNode s + 100\<rparr>; s2 = s1\<lparr>maxNode := FmaxNode s1\<rparr>
            in Again (s2\<lparr>predictionNodeCount := quot (minNode s2 + maxNode s2) 2\<rparr>))
      else if maxNode s - minNode s = 1 \<and> FminNode s = minNode s \<and> quot (maxNode s + minNode s) 2 \<noteq> 0
      then (let s1 = s\<lparr>FminNode := quot (FminNode s) 2\<rparr>; s2 = s1\<lparr>minNode := FminNode s1\<rparr>
            in Again (s2\<lparr>predictionNodeCount := quot (minNode s2 + maxNode s2) 2\<rparr>))
      else if maxNode s - minNode s = 1 \<and> FminNode s = minNode s \<and> quot (maxNode s + minNode s) 2 = 0
      then AtZero s
      else Again s)"

text \<open>
  The search against an oracle: \<open>fits n\<close> says whether a run on \<open>n\<close> nodes schedules everything. The
  result is the number of nodes it reports, or \<open>None\<close> when the fuel does not suffice.
\<close>

fun search_run :: "nat \<Rightarrow> (int \<Rightarrow> bool) \<Rightarrow> search \<Rightarrow> int option" where
  "search_run 0 fits s = None"
| "search_run (Suc fuel) fits s =
     (case search_next (search_update (fits (predictionNodeCount s)) s) of
        Found s' \<Rightarrow> Some (predictionNodeCount s')
      | AtZero s' \<Rightarrow> Some (if fits 0 then 0 else 1)
      | Again s' \<Rightarrow> search_run fuel fits s')"

text \<open>
  The invariant at the head of the loop for applications that fit exactly from \<open>T\<close> nodes on: the
  bounds lie between the outer bounds with room for a count in between, and a bound that moved
  away from its outer bound has been tried.
\<close>

definition search_inv :: "int \<Rightarrow> search \<Rightarrow> bool" where
  "search_inv T s \<longleftrightarrow> 0 \<le> FminNode s \<and> FminNode s \<le> minNode s \<and> minNode s + 2 \<le> maxNode s \<and>
     maxNode s \<le> FmaxNode s \<and> predictionNodeCount s = (minNode s + maxNode s) div 2 \<and>
     (minNode s \<noteq> FminNode s \<longrightarrow> minNode s < T) \<and> (maxNode s \<noteq> FmaxNode s \<longrightarrow> T \<le> maxNode s)"

definition search_rank :: "int \<Rightarrow> search \<Rightarrow> nat \<times> nat \<times> nat" where
  "search_rank T s =
     (if maxNode s = FmaxNode s then nat (T - maxNode s + 1) + 1 else 0,
      nat (FminNode s), nat (maxNode s - minNode s))"

lemma search_step:
  assumes inv: "search_inv T s"
  shows "case search_next (search_update (T \<le> predictionNodeCount s) s) of
      Found s' \<Rightarrow> predictionNodeCount s' = T
    | AtZero s' \<Rightarrow> T \<le> 1
    | Again s' \<Rightarrow> search_inv T s' \<and>
        (search_rank T s', search_rank T s) \<in> less_than <*lex*> less_than <*lex*> less_than"
proof -
  obtain mn mx fmn fmx p where s: "s = \<lparr>minNode = mn, maxNode = mx, FminNode = fmn, FmaxNode = fmx,
      predictionNodeCount = p\<rparr>"
    by (cases s)
  have i: "0 \<le> fmn" "fmn \<le> mn" "mn + 2 \<le> mx" "mx \<le> fmx" "p = (mn + mx) div 2"
    "mn \<noteq> fmn \<Longrightarrow> mn < T" "mx \<noteq> fmx \<Longrightarrow> T \<le> mx"
    using inv by (auto simp: search_inv_def s)
  have p: "mn < p" "p < mx" using i(3,5) by linarith+
  have r: "search_rank T s =
      (if mx = fmx then nat (T - mx + 1) + 1 else 0, nat fmn, nat (mx - mn))"
    by (simp add: search_rank_def s)
  have n: "predictionNodeCount s = p" by (simp add: s)
  show ?thesis
  proof (cases "T \<le> p")
    case True
    have q: "quot (mn + p) 2 = (mn + p) div 2" "quot fmn 2 = fmn div 2"
      "quot (fmn div 2 + p) 2 = (fmn div 2 + p) div 2" "quot (p + mn) 2 = (mn + p) div 2"
      using i p by (simp_all add: quot_nonneg add.commute)
    have u: "search_update (T \<le> predictionNodeCount s) s =
        \<lparr>minNode = mn, maxNode = p, FminNode = fmn, FmaxNode = fmx,
         predictionNodeCount = (mn + p) div 2\<rparr>"
      using True by (simp add: search_update_def s q)
    have ne: "fmx \<noteq> p" "p \<noteq> fmx" using p(2) i(4) by simp_all
    consider "p - mn \<noteq> 1" | "p - mn = 1" "fmn \<noteq> mn" | "p - mn = 1" "fmn = mn" "fmn = 0"
      | "p - mn = 1" "fmn = mn" "fmn > 0"
      using i(1) by linarith
    then show ?thesis
    proof cases
      case 1
      have h: "mn + 2 \<le> p" "p \<le> fmx" "nat (p - mn) < nat (mx - mn)" using 1 p i(4) by linarith+
      show ?thesis
        unfolding u r using True i(1,2,6) h ne 1
        by (simp add: search_next_def search_inv_def search_rank_def)
    next
      case 2
      then have "mn < T" using i(6) by simp
      with 2 True show ?thesis unfolding u using ne by (simp add: search_next_def)
    next
      case 3
      then show ?thesis unfolding u using True ne by (simp add: search_next_def quot_def)
    next
      case 4
      then have half: "fmn div 2 + 2 \<le> p" "fmn div 2 < fmn" "0 \<le> fmn div 2" by linarith+
      have z: "(fmn + p) div 2 \<noteq> 0" using 4 by linarith
      have w: "search_next \<lparr>minNode = fmn, maxNode = p, FminNode = fmn, FmaxNode = fmx,
           predictionNodeCount = (fmn + p) div 2\<rparr> =
          Again \<lparr>minNode = fmn div 2, maxNode = p, FminNode = fmn div 2, FmaxNode = fmx,
            predictionNodeCount = (fmn div 2 + p) div 2\<rparr>"
        using 4 z q ne by (simp add: search_next_def Let_def add.commute)
      show ?thesis
        unfolding u r 4(2)[symmetric] w
        unfolding search_inv_def search_rank_def using True half i(4) p(2) ne 4(3)
        by simp
    qed
  next
    case False
    have q: "quot (p + mx) 2 = (p + mx) div 2" "quot fmn 2 = fmn div 2"
      "quot (p + (fmx + 100)) 2 = (p + (fmx + 100)) div 2"
      using i p by (simp_all add: quot_nonneg)
    have u: "search_update (T \<le> predictionNodeCount s) s =
        \<lparr>minNode = p, maxNode = mx, FminNode = fmn, FmaxNode = fmx,
         predictionNodeCount = (p + mx) div 2\<rparr>"
      using False by (simp add: search_update_def s q)
    have ne: "fmn \<noteq> p" "p \<noteq> fmn" using p(1) i(2) by simp_all
    consider "mx - p \<noteq> 1" | "mx - p = 1" "fmx \<noteq> mx" | "mx - p = 1" "fmx = mx" by blast
    then show ?thesis
    proof cases
      case 1
      have h: "p + 2 \<le> mx" "fmn \<le> p" "nat (mx - p) < nat (mx - mn)" using 1 p i(2) by linarith+
      show ?thesis
        unfolding u r using False i(1,4,7) h ne 1
        by (simp add: search_next_def search_inv_def search_rank_def)
    next
      case 2
      then have "T \<le> mx" using i(7) by simp
      with 2 False show ?thesis unfolding u using ne by (simp add: search_next_def)
    next
      case 3
      have w: "search_next \<lparr>minNode = p, maxNode = fmx, FminNode = fmn, FmaxNode = fmx,
           predictionNodeCount = (p + fmx) div 2\<rparr> =
          Again \<lparr>minNode = p, maxNode = fmx + 100, FminNode = fmn, FmaxNode = fmx + 100,
            predictionNodeCount = (p + (fmx + 100)) div 2\<rparr>"
        using 3 q(3) ne by (simp add: search_next_def Let_def)
      have h: "fmn \<le> p" "p + 2 \<le> fmx + 100" "p < T" "nat (T - (fmx + 100) + 1) < nat (T - fmx + 1)"
        using 3 False p i(2) by linarith+
      show ?thesis
        unfolding u r 3(2)[symmetric] w
        unfolding search_inv_def search_rank_def using h i(1) by simp
    qed
  qed
qed

text \<open>The search ends with the threshold, whatever the threshold.\<close>

lemma search_wf: "wf (inv_image (less_than <*lex*> less_than <*lex*> less_than) (search_rank T))"
  by (intro wf_inv_image wf_lex_prod wf_less_than)

lemma search_run_finds:
  assumes "search_inv T s" and "0 \<le> T"
  shows "\<exists>fuel. search_run fuel (\<lambda>n. T \<le> n) s = Some T"
  using search_wf [of T] assms(1)
proof (induction s rule: wf_induct_rule)
  case (less s)
  note st = search_step [OF less.prems]
  show ?case
  proof (cases "search_next (search_update (T \<le> predictionNodeCount s) s)")
    case (Found s')
    with st have "search_run 1 (\<lambda>n. T \<le> n) s = Some T" by simp
    then show ?thesis ..
  next
    case (AtZero s')
    with st have "T = 0 \<or> T = 1" using assms(2) by auto
    then have "search_run 1 (\<lambda>n. T \<le> n) s = Some T" using AtZero by auto
    then show ?thesis ..
  next
    case (Again s')
    with st have i: "search_inv T s'" and "(s', s) \<in> inv_image (less_than <*lex*> less_than <*lex*> less_than) (search_rank T)"
      by simp_all
    then obtain fuel where "search_run fuel (\<lambda>n. T \<le> n) s' = Some T" using less.IH by blast
    then have "search_run (Suc fuel) (\<lambda>n. T \<le> n) s = Some T" using Again by simp
    then show ?thesis ..
  qed
qed

lemma search_start_inv:
  assumes "0 \<le> n" "n \<le> 2 ^ 53" "\<not> in_gap n"
  shows "search_inv T (search_start n)"
proof -
  have "n + 2 \<le> generateMaxNode n" using generateMaxNode_above assms by blast
  then show ?thesis using assms(1)
    by (simp add: search_inv_def search_start_def quot_nonneg)
qed

text \<open>More fuel gives the same answer, so the answer is unique.\<close>

lemma search_run_more: "search_run fuel fits s = Some m \<Longrightarrow> fuel \<le> fuel' \<Longrightarrow> search_run fuel' fits s = Some m"
proof (induction fuel fits s arbitrary: fuel' rule: search_run.induct)
  case (2 fuel fits s)
  then obtain f where f: "fuel' = Suc f" "fuel \<le> f" by (cases fuel') auto
  show ?case
  proof (cases "search_next (search_update (fits (predictionNodeCount s)) s)")
    case (Again s')
    then have "search_run fuel fits s' = Some m" using "2.prems"(1) by simp
    from "2.IH" [OF Again this f(2)] Again f(1) show ?thesis by simp
  qed (use "2.prems"(1) f(1) in simp_all)
qed simp

lemma search_finds_least:
  assumes "0 \<le> n" "n \<le> 2 ^ 53" "\<not> in_gap n" and "0 \<le> T"
  shows "\<exists>fuel. \<forall>fuel' \<ge> fuel. search_run fuel' (\<lambda>m. T \<le> m) (search_start n) = Some T"
proof -
  obtain fuel where "search_run fuel (\<lambda>m. T \<le> m) (search_start n) = Some T"
    using search_run_finds [OF search_start_inv [OF assms(1-3)] assms(4)] ..
  then have "\<forall>fuel' \<ge> fuel. search_run fuel' (\<lambda>m. T \<le> m) (search_start n) = Some T"
    using search_run_more by blast
  then show ?thesis ..
qed

text \<open>From a count that is not negative no count becomes negative.\<close>

lemma round53_nonneg: "0 \<le> x \<Longrightarrow> 0 \<le> round53 x"
  by (simp add: round53_def round_even_def Let_def pos_imp_zdiv_nonneg_iff)

lemma generateMaxNode_nonneg: "0 \<le> generateMaxNode n"
  by (simp add: generateMaxNode_def int_of_product_def pos_imp_zdiv_nonneg_iff round53_nonneg
      float_1_2_def float_1_3_def float_1_4_def)

definition search_nonneg :: "search \<Rightarrow> bool" where
  "search_nonneg s \<longleftrightarrow> 0 \<le> minNode s \<and> 0 \<le> maxNode s \<and> 0 \<le> FminNode s \<and> 0 \<le> FmaxNode s \<and>
     0 \<le> predictionNodeCount s"

lemma search_nonneg_start: "0 \<le> n \<Longrightarrow> search_nonneg (search_start n)"
  using generateMaxNode_nonneg [of n] by (simp add: search_nonneg_def search_start_def quot_nonneg)

lemma search_nonneg_update: "search_nonneg s \<Longrightarrow> search_nonneg (search_update go s)"
  by (simp add: search_nonneg_def search_update_def Let_def quot_nonneg)

lemma search_nonneg_next: "search_nonneg s \<Longrightarrow> search_next s = Again s' \<Longrightarrow> search_nonneg s'"
  by (auto simp: search_nonneg_def search_next_def Let_def quot_nonneg split: if_splits)

section \<open>Searches that never end\<close>

lemma gap_update:
  assumes "maxNode s \<le> minNode s" "0 \<le> maxNode s" "predictionNodeCount s = (minNode s + maxNode s) div 2"
  shows "\<exists>s'. search_next (search_update go s) = Again s' \<and> maxNode s' \<le> minNode s' \<and> 0 \<le> maxNode s' \<and>
    predictionNodeCount s' = (minNode s' + maxNode s') div 2"
proof -
  define s' where "s' = search_update go s"
  have p: "maxNode s \<le> predictionNodeCount s" "predictionNodeCount s \<le> minNode s"
    using assms by simp_all
  have u: "maxNode s' \<le> minNode s'" "0 \<le> maxNode s'"
    "predictionNodeCount s' = (minNode s' + maxNode s') div 2"
    using p assms(1,2) unfolding s'_def search_update_def Let_def
    by (simp_all add: quot_nonneg split: if_splits)
  have "search_next s' = Again s'" using u(1) by (simp add: search_next_def)
  with u show ?thesis unfolding s'_def by blast
qed

lemma gap_run:
  assumes "maxNode s \<le> minNode s" "0 \<le> maxNode s" "predictionNodeCount s = (minNode s + maxNode s) div 2"
  shows "search_run fuel fits s = None"
  using assms
proof (induction fuel arbitrary: s)
  case (Suc fuel)
  obtain s' where s': "search_next (search_update (fits (predictionNodeCount s)) s) = Again s'"
      "maxNode s' \<le> minNode s'" "0 \<le> maxNode s'" "predictionNodeCount s' = (minNode s' + maxNode s') div 2"
    using gap_update [OF Suc.prems, of "fits (predictionNodeCount s)"] by blast
  from Suc.IH [OF s'(2-4)] s'(1) show ?case by simp
qed simp

lemma never_update:
  assumes "0 \<le> minNode s" "minNode s < maxNode s" "maxNode s = FmaxNode s"
    "predictionNodeCount s = (minNode s + maxNode s) div 2"
  shows "\<exists>s'. search_next (search_update False s) = Again s' \<and> 0 \<le> minNode s' \<and> minNode s' < maxNode s' \<and>
    maxNode s' = FmaxNode s' \<and> predictionNodeCount s' = (minNode s' + maxNode s') div 2"
proof -
  define p where "p = predictionNodeCount s"
  have p: "0 \<le> p" "p < maxNode s" using assms by (simp_all add: p_def)
  have u: "search_update False s = s\<lparr>minNode := p, predictionNodeCount := (p + maxNode s) div 2\<rparr>"
    using p by (simp add: search_update_def p_def [symmetric] quot_nonneg)
  show ?thesis unfolding u using p assms(3) by (simp add: search_next_def Let_def quot_nonneg)
qed

lemma never_run:
  assumes "0 \<le> minNode s" "minNode s < maxNode s" "maxNode s = FmaxNode s"
    "predictionNodeCount s = (minNode s + maxNode s) div 2"
  shows "search_run fuel (\<lambda>_. False) s = None"
  using assms
proof (induction fuel arbitrary: s)
  case (Suc fuel)
  obtain s' where s': "search_next (search_update False s) = Again s'" "0 \<le> minNode s'"
      "minNode s' < maxNode s'" "maxNode s' = FmaxNode s'"
      "predictionNodeCount s' = (minNode s' + maxNode s') div 2"
    using never_update [OF Suc.prems] by blast
  from Suc.IH [OF s'(2-5)] s'(1) show ?case by simp
qed simp

lemma gap_start: "in_gap n \<Longrightarrow> search_run fuel fits (search_start n) = None"
  by (intro gap_run) (simp_all add: search_start_def generateMaxNode_gap quot_nonneg in_gap_def)

lemma search_never_fitting:
  assumes "0 \<le> n" "n \<le> 2 ^ 53"
  shows "search_run fuel (\<lambda>_. False) (search_start n) = None"
proof (cases "in_gap n")
  case False
  then have "n + 2 \<le> generateMaxNode n" using generateMaxNode_above assms by blast
  then show ?thesis using assms(1)
    by (intro never_run) (simp_all add: search_start_def quot_nonneg)
qed (use gap_start in blast)

end
