(* ===== verification/K8s_Objects.thy ===== *)
theory K8s_Objects
  imports KS_Prelude
begin

text \<open>
  The API objects kubesim handles, with the fields its code reads or writes: pods, nodes, and for
  the kinds it only copies (services, volumes, controllers, storage objects) name, namespace and
  an opaque body. The Go types are those of \<open>k8s.io/api/core/v1\<close>.

  A \<open>resource.Quantity\<close> is an exact decimal with at most nine fractional digits; it is modelled as
  the integer number of its billionths, so \<open>Add\<close> is addition and \<open>Value\<close> rounds up to units.
  A pointer to a struct is an \<open>option\<close> where the code can meet nil.
\<close>

section \<open>Quantities\<close>

type_synonym quantity = int

definition NewQuantity :: "64 word \<Rightarrow> quantity" where
  "NewQuantity v = sint v * 1000000000"

definition NewMilliQuantity :: "64 word \<Rightarrow> quantity" where
  "NewMilliQuantity v = sint v * 1000000"

definition Quantity_Value :: "quantity \<Rightarrow> int" where
  "Quantity_Value q = - ((- q) div 1000000000)"

lemma Quantity_Value_New [simp]: "Quantity_Value (NewQuantity v) = sint v"
proof -
  have "- (sint v * 1000000000) = (- sint v) * 1000000000" by simp
  then show ?thesis
    unfolding Quantity_Value_def NewQuantity_def by simp
qed

lemma Quantity_Value_ceil:
  "(Quantity_Value q - 1) * 1000000000 < q \<and> q \<le> Quantity_Value q * 1000000000"
proof -
  define d m where "d = (- q) div 1000000000" and "m = (- q) mod 1000000000"
  have "m < 1000000000" and "0 \<le> m" by (simp_all add: m_def)
  moreover have "d * 1000000000 + m = - q"
    unfolding d_def m_def by (rule div_mult_mod_eq)
  ultimately have "(- d - 1) * 1000000000 < q \<and> q \<le> - d * 1000000000" by simp
  then show ?thesis by (simp add: Quantity_Value_def d_def)
qed

type_synonym resource_list = "(string \<times> quantity) list"

section \<open>Pods\<close>

record container =
  c_Name :: string
  c_Requests :: resource_list

record pod_condition =
  cond_Type :: string
  cond_Status :: string
  cond_Reason :: string
  cond_Message :: string

record pod_spec =
  NodeName :: string
  SchedulerName :: string
  Containers :: "container list"
  NodeSelector :: smap

record pod_status =
  Phase :: string
  NominatedNodeName :: string
  Conditions :: "pod_condition list"

record pod =
  pod_Name :: string
  pod_Namespace :: string
  pod_UID :: string
  pod_Annotations :: smap
  pod_Labels :: smap
  pod_Spec :: pod_spec
  pod_Status :: pod_status

definition PodRunning :: string where "PodRunning = ''Running''"
definition PodPending :: string where "PodPending = ''Pending''"
definition PodScheduled :: string where "PodScheduled = ''PodScheduled''"
definition ConditionTrue :: string where "ConditionTrue = ''True''"
definition ConditionFalse :: string where "ConditionFalse = ''False''"

definition empty_spec :: pod_spec where
  "empty_spec = \<lparr>NodeName = [], SchedulerName = [], Containers = [], NodeSelector = None\<rparr>"

definition empty_status :: pod_status where
  "empty_status = \<lparr>Phase = [], NominatedNodeName = [], Conditions = []\<rparr>"

section \<open>Nodes\<close>

record node_condition =
  nc_Type :: string
  nc_Status :: string
  nc_Reason :: string
  nc_Message :: string

record node_system_info =
  MachineID :: string
  SystemUUID :: string
  BootID :: string
  KernelVersion :: string
  OSImage :: string
  ContainerRuntimeVersion :: string
  KubeletVersion :: string
  KubeProxyVersion :: string

record node =
  node_Name :: string
  node_Labels :: smap
  node_Capacity :: resource_list
  node_Allocatable :: resource_list
  node_Info :: "node_system_info option"
  node_Conditions :: "node_condition list"
  node_Addresses :: "(string \<times> string) list"

section \<open>Any object\<close>

record other_object =
  other_Name :: string
  other_Namespace :: string
  other_Labels :: smap
  other_Body :: string

datatype kobj = PodObj pod | NodeObj node | OtherObj other_object

fun obj_name :: "kobj \<Rightarrow> string" where
  "obj_name (PodObj p) = pod_Name p"
| "obj_name (NodeObj n) = node_Name n"
| "obj_name (OtherObj m) = other_Name m"

text \<open>Nodes are cluster scoped: their namespace is empty.\<close>

fun obj_namespace :: "kobj \<Rightarrow> string" where
  "obj_namespace (PodObj p) = pod_Namespace p"
| "obj_namespace (NodeObj n) = []"
| "obj_namespace (OtherObj m) = other_Namespace m"

fun set_namespace :: "string \<Rightarrow> kobj \<Rightarrow> kobj" where
  "set_namespace ns (PodObj p) = PodObj (p\<lparr>pod_Namespace := ns\<rparr>)"
| "set_namespace ns (NodeObj n) = NodeObj n"
| "set_namespace ns (OtherObj m) = OtherObj (m\<lparr>other_Namespace := ns\<rparr>)"

fun obj_labels :: "kobj \<Rightarrow> smap" where
  "obj_labels (PodObj p) = pod_Labels p"
| "obj_labels (NodeObj n) = node_Labels n"
| "obj_labels (OtherObj m) = other_Labels m"

fun the_pod :: "kobj \<Rightarrow> pod option" where
  "the_pod (PodObj p) = Some p"
| "the_pod _ = None"

fun the_node :: "kobj \<Rightarrow> node option" where
  "the_node (NodeObj n) = Some n"
| "the_node _ = None"

definition obj_key :: "kobj \<Rightarrow> string \<times> string" where
  "obj_key x = (obj_namespace x, obj_name x)"

lemma obj_name_set_namespace [simp]: "obj_name (set_namespace ns x) = obj_name x"
  by (cases x) auto

lemma obj_labels_set_namespace [simp]: "obj_labels (set_namespace ns x) = obj_labels x"
  by (cases x) auto

text \<open>The label selectors the code passes: none, or one equality \<open>key=value\<close>.\<close>

datatype selector = Everything | LabelEq string string

fun sel_matches :: "selector \<Rightarrow> smap \<Rightarrow> bool" where
  "sel_matches Everything ls = True"
| "sel_matches (LabelEq k v) ls = (gm_get ls k = Some v)"

definition kubesim_selector :: selector where
  "kubesim_selector = LabelEq ''provisioner'' ''kubesim''"

end
