(* ===== verification/Tracker.thy ===== *)
theory Tracker
  imports K8s_Objects "HOL-Library.Multiset"
begin

text \<open>
  The simulated cluster. kubesim runs against \<open>fake.NewSimpleClientset()\<close>, whose state is the
  object tracker of \<open>vendor/k8s.io/client-go/testing/fixture.go\<close>; the typed clients of
  \<open>client-go/kubernetes/typed/core/v1/fake\<close> add the label filter of \<open>List\<close>.

  For each resource the tracker holds a map from namespaced names to objects, here an association
  list with distinct keys (\<open>tracker_wf\<close>). \<open>List\<close> sorts by namespace and name, so its order does not
  depend on the map's iteration order. Every operation holds the tracker's lock: one atomic step.
  The broadcast to watchers is not part of the store; the handlers it runs are modelled where they
  are declared.

  The locale \<open>object_store\<close> is the interface of a client of the store: what a lookup returns
  after a create, an update and a delete. \<open>ts\<close> is its interpretation on the tracker.
\<close>

section \<open>The tracker\<close>

datatype gvr =
    Pods | Nodes | Services | PersistentVolumeClaims | PersistentVolumes | ReplicationControllers
  | PodDisruptionBudgets | ReplicaSets | StatefulSets | StorageClasses | CSINodes | CSIDrivers
  | VolumeAttachments | Deployments

type_synonym key = "string \<times> string"

type_synonym tracker = "gvr \<Rightarrow> (key \<times> kobj) list"

definition empty_tracker :: tracker where
  "empty_tracker = (\<lambda>_. [])"

definition objs :: "tracker \<Rightarrow> gvr \<Rightarrow> key \<rightharpoonup> kobj" where
  "objs t g = map_of (t g)"

text \<open>\<open>tracker.add\<close>: the namespace is propagated, then checked; \<open>replace\<close> is \<open>Update\<close>.\<close>

definition tracker_add :: "gvr \<Rightarrow> kobj \<Rightarrow> string \<Rightarrow> bool \<Rightarrow> tracker \<Rightarrow> api_error + tracker" where
  "tracker_add g x ns replace t =
     (let x = (if obj_namespace x = [] then set_namespace ns x else x) in
      if ns \<noteq> obj_namespace x
      then Inl (BadRequest ''request namespace does not match object namespace'')
      else
        (case objs t g (obj_key x) of
           Some _ \<Rightarrow>
             if replace then Inr (t(g := AList.update (obj_key x) x (t g)))
             else Inl (AlreadyExists (obj_name x))
         | None \<Rightarrow>
             if replace then Inl (NotFound (obj_name x))
             else Inr (t(g := AList.update (obj_key x) x (t g)))))"

definition tracker_Create :: "gvr \<Rightarrow> kobj \<Rightarrow> string \<Rightarrow> tracker \<Rightarrow> api_error + tracker" where
  "tracker_Create g x ns t = tracker_add g x ns False t"

definition tracker_Update :: "gvr \<Rightarrow> kobj \<Rightarrow> string \<Rightarrow> tracker \<Rightarrow> api_error + tracker" where
  "tracker_Update g x ns t = tracker_add g x ns True t"

definition tracker_Get :: "gvr \<Rightarrow> string \<Rightarrow> string \<Rightarrow> tracker \<Rightarrow> api_error + kobj" where
  "tracker_Get g ns name t =
     (case objs t g (ns, name) of None \<Rightarrow> Inl (NotFound name) | Some x \<Rightarrow> Inr x)"

definition tracker_Delete :: "gvr \<Rightarrow> string \<Rightarrow> string \<Rightarrow> tracker \<Rightarrow> api_error + tracker" where
  "tracker_Delete g ns name t =
     (case objs t g (ns, name) of
        None \<Rightarrow> Inl (NotFound name)
      | Some _ \<Rightarrow> Inr (t(g := AList.delete (ns, name) (t g))))"

text \<open>\<open>filterByNamespace\<close>, with its final sort by namespace and name.\<close>

definition filterByNamespace :: "(key \<times> kobj) list \<Rightarrow> string \<Rightarrow> kobj list" where
  "filterByNamespace xs ns =
     sort_key obj_key (map snd (filter (\<lambda>(k, x). \<not> (ns \<noteq> [] \<and> obj_namespace x \<noteq> ns)) xs))"

definition tracker_List :: "gvr \<Rightarrow> string \<Rightarrow> tracker \<Rightarrow> kobj list" where
  "tracker_List g ns t = filterByNamespace (t g) ns"

text \<open>\<open>List\<close> of a typed client: the tracker's list, filtered by the label selector.\<close>

definition client_List :: "gvr \<Rightarrow> string \<Rightarrow> selector \<Rightarrow> tracker \<Rightarrow> kobj list" where
  "client_List g ns sel t = filter (\<lambda>x. sel_matches sel (obj_labels x)) (tracker_List g ns t)"

definition list_pods :: "string \<Rightarrow> selector \<Rightarrow> tracker \<Rightarrow> pod list" where
  "list_pods ns sel t = List.map_filter the_pod (client_List Pods ns sel t)"

definition list_nodes :: "selector \<Rightarrow> tracker \<Rightarrow> node list" where
  "list_nodes sel t = List.map_filter the_node (client_List Nodes [] sel t)"

section \<open>Well-formed trackers\<close>

text \<open>
  Each resource's map has distinct keys, an object is stored under its own key, and the typed
  resources hold objects of their type.
\<close>

fun kind_ok :: "gvr \<Rightarrow> kobj \<Rightarrow> bool" where
  "kind_ok Pods x = (the_pod x \<noteq> None)"
| "kind_ok Nodes x = (the_node x \<noteq> None)"
| "kind_ok _ x = (the_pod x = None \<and> the_node x = None)"

definition tracker_wf :: "tracker \<Rightarrow> bool" where
  "tracker_wf t \<longleftrightarrow>
     (\<forall>g. distinct (map fst (t g)) \<and> (\<forall>(k, x) \<in> set (t g). k = obj_key x \<and> kind_ok g x))"

lemma kind_ok_set_namespace [simp]: "kind_ok g (set_namespace ns x) = kind_ok g x"
  by (cases g; cases x) auto

lemma tracker_wf_empty: "tracker_wf empty_tracker"
  by (simp add: tracker_wf_def empty_tracker_def)

lemma tracker_wf_mem: "tracker_wf t \<Longrightarrow> (k, x) \<in> set (t g) \<Longrightarrow> k = obj_key x \<and> kind_ok g x"
  by (fastforce simp: tracker_wf_def)

lemma tracker_wf_objs: "tracker_wf t \<Longrightarrow> objs t g k = Some x \<Longrightarrow> k = obj_key x \<and> kind_ok g x"
  by (auto simp: tracker_wf_def objs_def dest: map_of_SomeD)

lemma tracker_wf_distinct: "tracker_wf t \<Longrightarrow> distinct (map fst (t g))"
  by (simp add: tracker_wf_def)

lemma tracker_wf_update:
  assumes "tracker_wf t" and "kind_ok g x"
  shows "tracker_wf (t(g := AList.update (obj_key x) x (t g)))"
proof -
  have "k = obj_key y \<and> kind_ok g y" if "(k, y) \<in> set (AList.update (obj_key x) x (t g))" for k y
  proof -
    have "distinct (map fst (AList.update (obj_key x) x (t g)))"
      using assms(1) by (simp add: tracker_wf_def)
    with that have "map_of (AList.update (obj_key x) x (t g)) k = Some y"
      by (simp del: alist_simps)
    then show ?thesis
      using assms by (auto simp: tracker_wf_def split: if_splits dest: map_of_SomeD)
  qed
  with assms(1) show ?thesis by (auto simp: tracker_wf_def)
qed

lemma tracker_wf_delete:
  assumes "tracker_wf t"
  shows "tracker_wf (t(g := AList.delete k (t g)))"
proof -
  have "set (AList.delete k (t g)) \<subseteq> set (t g)"
    by (auto simp: AList.delete_eq)
  with assms show ?thesis
    unfolding tracker_wf_def by auto
qed

lemma tracker_add_wf:
  "tracker_add g x ns b t = Inr t' \<Longrightarrow> tracker_wf t \<Longrightarrow> kind_ok g x \<Longrightarrow> tracker_wf t'"
  by (auto simp: tracker_add_def Let_def split: if_splits option.splits intro: tracker_wf_update)

lemma tracker_Delete_wf: "tracker_Delete g ns name t = Inr t' \<Longrightarrow> tracker_wf t \<Longrightarrow> tracker_wf t'"
  by (auto simp: tracker_Delete_def split: option.splits intro: tracker_wf_delete)

section \<open>Single operations\<close>

text \<open>The typed clients are always called with the namespace of the object itself.\<close>

definition create_obj :: "gvr \<Rightarrow> kobj \<Rightarrow> tracker \<Rightarrow> api_error + tracker" where
  "create_obj g x t = tracker_Create g x (obj_namespace x) t"

definition update_obj :: "gvr \<Rightarrow> kobj \<Rightarrow> tracker \<Rightarrow> api_error + tracker" where
  "update_obj g x t = tracker_Update g x (obj_namespace x) t"

definition delete_key :: "gvr \<Rightarrow> key \<Rightarrow> tracker \<Rightarrow> api_error + tracker" where
  "delete_key g k t = tracker_Delete g (fst k) (snd k) t"

definition all_objs :: "gvr \<Rightarrow> tracker \<Rightarrow> kobj list" where
  "all_objs g t = client_List g [] Everything t"

lemma set_namespace_same [simp]: "set_namespace (obj_namespace x) x = x"
  by (cases x) auto

lemma set_namespace_empty [simp]: "obj_namespace x = [] \<Longrightarrow> set_namespace [] x = x"
  by (cases x) auto

lemma objs_update:
  "objs (t(g := AList.update k x (t g))) = (objs t)(g := (objs t g)(k \<mapsto> x))"
  by (rule ext) (auto simp: objs_def)

lemma objs_delete:
  "objs (t(g := AList.delete k (t g))) = (objs t)(g := (objs t g)(k := None))"
  by (rule ext) (auto simp: objs_def)

lemma create_obj_eq:
  "create_obj g x t =
     (case objs t g (obj_key x) of
        Some _ \<Rightarrow> Inl (AlreadyExists (obj_name x))
      | None \<Rightarrow> Inr (t(g := AList.update (obj_key x) x (t g))))"
  by (simp add: create_obj_def tracker_Create_def tracker_add_def Let_def split: option.splits)

lemma update_obj_eq:
  "update_obj g x t =
     (case objs t g (obj_key x) of
        Some _ \<Rightarrow> Inr (t(g := AList.update (obj_key x) x (t g)))
      | None \<Rightarrow> Inl (NotFound (obj_name x)))"
  by (simp add: update_obj_def tracker_Update_def tracker_add_def Let_def split: option.splits)

lemma delete_key_eq:
  "delete_key g k t =
     (case objs t g k of
        Some _ \<Rightarrow> Inr (t(g := AList.delete k (t g)))
      | None \<Rightarrow> Inl (NotFound (snd k)))"
  by (simp add: delete_key_def tracker_Delete_def split: option.splits)

lemma set_filterByNamespace:
  "set (filterByNamespace xs ns) = {x \<in> snd ` set xs. ns = [] \<or> obj_namespace x = ns}"
  by (force simp: filterByNamespace_def image_iff)

lemma set_client_List:
  assumes "tracker_wf t"
  shows "x \<in> set (client_List g ns sel t) \<longleftrightarrow>
    objs t g (obj_key x) = Some x \<and> (ns = [] \<or> obj_namespace x = ns) \<and> sel_matches sel (obj_labels x)"
proof -
  have "x \<in> snd ` set (t g) \<longleftrightarrow> (obj_key x, x) \<in> set (t g)"
    using tracker_wf_mem [OF assms] by (force simp: image_iff)
  also have "\<dots> \<longleftrightarrow> objs t g (obj_key x) = Some x"
    using tracker_wf_distinct [OF assms] by (simp add: objs_def map_of_eq_Some_iff)
  finally show ?thesis
    by (auto simp: client_List_def tracker_List_def set_filterByNamespace)
qed

lemma distinct_client_List:
  assumes "tracker_wf t"
  shows "distinct (map obj_key (client_List g ns sel t))"
proof -
  let ?P = "\<lambda>(k, x :: kobj). \<not> (ns \<noteq> [] \<and> obj_namespace x \<noteq> ns)"
  have "map obj_key (map snd (filter ?P (t g))) = map fst (filter ?P (t g))"
    using tracker_wf_mem [OF assms] by (auto simp: fun_eq_iff)
  then have "distinct (map obj_key (map snd (filter ?P (t g))))"
    using tracker_wf_distinct [OF assms, of g] by (simp only: distinct_map_filter)
  moreover have "mset (map obj_key (tracker_List g ns t)) = mset (map obj_key (map snd (filter ?P (t g))))"
    unfolding tracker_List_def filterByNamespace_def mset_map by simp
  ultimately have "distinct (map obj_key (tracker_List g ns t))"
    using mset_eq_imp_distinct_iff by blast
  then show ?thesis
    unfolding client_List_def by (rule distinct_map_filter)
qed

text \<open>The typed lists hold every object of the untyped list.\<close>

lemma map_filter_total:
  "(\<And>x. x \<in> set xs \<Longrightarrow> \<exists>y. f x = Some y \<and> c y = x) \<Longrightarrow> map c (List.map_filter f xs) = xs"
proof (induction xs)
  case (Cons x xs)
  then obtain y where "f x = Some y" "c y = x" by fastforce
  with Cons show ?case by (simp add: map_filter_simps)
qed (simp add: map_filter_simps)

lemma client_List_kind: "tracker_wf t \<Longrightarrow> x \<in> set (client_List g ns sel t) \<Longrightarrow> kind_ok g x"
  by (auto simp: set_client_List dest: tracker_wf_objs)

lemma list_pods_objs: "tracker_wf t \<Longrightarrow> map PodObj (list_pods ns sel t) = client_List Pods ns sel t"
  unfolding list_pods_def
  by (rule map_filter_total) (auto dest!: client_List_kind elim!: the_pod.elims)

lemma list_nodes_objs: "tracker_wf t \<Longrightarrow> map NodeObj (list_nodes sel t) = client_List Nodes [] sel t"
  unfolding list_nodes_def
  by (rule map_filter_total) (auto dest!: client_List_kind elim!: the_node.elims)

definition pod_key :: "pod \<Rightarrow> key" where
  "pod_key p = (pod_Namespace p, pod_Name p)"

definition node_key :: "node \<Rightarrow> key" where
  "node_key n = ([], node_Name n)"

lemma obj_key_simps [simp]: "obj_key (PodObj p) = pod_key p" "obj_key (NodeObj n) = node_key n"
  by (simp_all add: obj_key_def pod_key_def node_key_def)

lemma in_list_pods:
  assumes "tracker_wf t"
  shows "p \<in> set (list_pods ns sel t) \<longleftrightarrow> objs t Pods (pod_key p) = Some (PodObj p) \<and>
    (ns = [] \<or> pod_Namespace p = ns) \<and> sel_matches sel (pod_Labels p)"
proof -
  have "p \<in> set (list_pods ns sel t) \<longleftrightarrow> PodObj p \<in> set (map PodObj (list_pods ns sel t))"
    by auto
  then show ?thesis
    using assms by (simp add: list_pods_objs set_client_List)
qed

lemma in_list_nodes:
  assumes "tracker_wf t"
  shows "n \<in> set (list_nodes sel t) \<longleftrightarrow>
    objs t Nodes (node_key n) = Some (NodeObj n) \<and> sel_matches sel (node_Labels n)"
proof -
  have "n \<in> set (list_nodes sel t) \<longleftrightarrow> NodeObj n \<in> set (map NodeObj (list_nodes sel t))"
    by auto
  then show ?thesis
    using assms by (simp add: list_nodes_objs set_client_List)
qed

lemma distinct_list_pods: "tracker_wf t \<Longrightarrow> distinct (map pod_key (list_pods ns sel t))"
  using distinct_client_List [of t Pods ns sel] by (simp add: list_pods_objs [symmetric] comp_def)

lemma distinct_list_nodes: "tracker_wf t \<Longrightarrow> distinct (map node_key (list_nodes sel t))"
  using distinct_client_List [of t Nodes "[]" sel] by (simp add: list_nodes_objs [symmetric] comp_def)

lemma pod_stored:
  assumes "tracker_wf t" and "objs t Pods k = Some x"
  obtains p where "x = PodObj p" and "k = pod_key p"
  using tracker_wf_objs [OF assms] that by (cases x) auto

lemma node_stored:
  assumes "tracker_wf t" and "objs t Nodes k = Some x"
  obtains n where "x = NodeObj n" and "k = node_key n"
  using tracker_wf_objs [OF assms] that by (cases x) auto

section \<open>The interface of the store\<close>

text \<open>
  Loops over the store: \<open>create_each\<close> and \<open>delete_each\<close> stop at the first error, as the loops that
  return it do; \<open>delete_logged\<close> goes on, as the loops that only log it do.
\<close>

fun create_each :: "(kobj \<Rightarrow> 's \<Rightarrow> api_error + 's) \<Rightarrow> kobj list \<Rightarrow> 's \<Rightarrow> api_error option \<times> 's" where
  "create_each c [] s = (None, s)"
| "create_each c (x # xs) s =
     (case c x s of Inl e \<Rightarrow> (Some e, s) | Inr s' \<Rightarrow> create_each c xs s')"

fun delete_each :: "(key \<Rightarrow> 's \<Rightarrow> api_error + 's) \<Rightarrow> key list \<Rightarrow> 's \<Rightarrow> api_error option \<times> 's" where
  "delete_each d [] s = (None, s)"
| "delete_each d (k # ks) s =
     (case d k s of Inl e \<Rightarrow> (Some e, s) | Inr s' \<Rightarrow> delete_each d ks s')"

fun delete_logged :: "(key \<Rightarrow> 's \<Rightarrow> api_error + 's) \<Rightarrow> key list \<Rightarrow> 's \<Rightarrow> 's" where
  "delete_logged d [] s = s"
| "delete_logged d (k # ks) s =
     (case d k s of Inl e \<Rightarrow> delete_logged d ks s | Inr s' \<Rightarrow> delete_logged d ks s')"

locale object_store =
  fixes look :: "'s \<Rightarrow> gvr \<Rightarrow> key \<rightharpoonup> kobj"
    and crt :: "gvr \<Rightarrow> kobj \<Rightarrow> 's \<Rightarrow> api_error + 's"
    and upd :: "gvr \<Rightarrow> kobj \<Rightarrow> 's \<Rightarrow> api_error + 's"
    and del :: "gvr \<Rightarrow> key \<Rightarrow> 's \<Rightarrow> api_error + 's"
    and every :: "gvr \<Rightarrow> 's \<Rightarrow> kobj list"
    and wf :: "'s \<Rightarrow> bool"
  assumes create_new: "wf s \<Longrightarrow> kind_ok g x \<Longrightarrow> look s g (obj_key x) = None \<Longrightarrow>
        \<exists>s'. crt g x s = Inr s' \<and> wf s' \<and> look s' = (look s)(g := (look s g)(obj_key x \<mapsto> x))"
    and create_old: "wf s \<Longrightarrow> look s g (obj_key x) \<noteq> None \<Longrightarrow>
        crt g x s = Inl (AlreadyExists (obj_name x))"
    and update_old: "wf s \<Longrightarrow> kind_ok g x \<Longrightarrow> look s g (obj_key x) \<noteq> None \<Longrightarrow>
        \<exists>s'. upd g x s = Inr s' \<and> wf s' \<and> look s' = (look s)(g := (look s g)(obj_key x \<mapsto> x))"
    and update_new: "wf s \<Longrightarrow> look s g (obj_key x) = None \<Longrightarrow> upd g x s = Inl (NotFound (obj_name x))"
    and delete_old: "wf s \<Longrightarrow> look s g k \<noteq> None \<Longrightarrow>
        \<exists>s'. del g k s = Inr s' \<and> wf s' \<and> look s' = (look s)(g := (look s g)(k := None))"
    and delete_new: "wf s \<Longrightarrow> look s g k = None \<Longrightarrow> del g k s = Inl (NotFound (snd k))"
    and every_set: "wf s \<Longrightarrow> set (every g s) = ran (look s g)"
    and every_distinct: "wf s \<Longrightarrow> distinct (map obj_key (every g s))"
    and stored_key: "wf s \<Longrightarrow> look s g k = Some x \<Longrightarrow> k = obj_key x \<and> kind_ok g x"
begin

text \<open>A loop of creates of new, pairwise different objects never fails and adds them all.\<close>

lemma create_each_new:
  "wf s \<Longrightarrow> distinct (map obj_key xs) \<Longrightarrow> (\<And>x. x \<in> set xs \<Longrightarrow> kind_ok g x \<and> look s g (obj_key x) = None) \<Longrightarrow>
   \<exists>s'. create_each (crt g) xs s = (None, s') \<and> wf s' \<and>
     look s' = (look s)(g := look s g ++ map_of (map (\<lambda>x. (obj_key x, x)) xs))"
proof (induction xs arbitrary: s)
  case Nil
  then show ?case by simp
next
  case (Cons x xs)
  obtain s1 where s1: "crt g x s = Inr s1" "wf s1"
    "look s1 = (look s)(g := (look s g)(obj_key x \<mapsto> x))"
    using create_new [of s g x] Cons.prems by auto
  have d: "distinct (map obj_key xs)" using Cons.prems(2) by simp
  have new: "kind_ok g y \<and> look s1 g (obj_key y) = None" if "y \<in> set xs" for y
    using that Cons.prems(2) Cons.prems(3) [of y] s1(3) by (auto simp: image_iff)
  then obtain s' where s': "create_each (crt g) xs s1 = (None, s')" "wf s'"
    and look': "look s' = (look s1)(g := look s1 g ++ map_of (map (\<lambda>x. (obj_key x, x)) xs))"
    using Cons.IH [OF s1(2) d new] by blast
  moreover have "(look s g)(obj_key x \<mapsto> x) ++ map_of (map (\<lambda>x. (obj_key x, x)) xs) =
      look s g ++ (map_of (map (\<lambda>x. (obj_key x, x)) xs))(obj_key x \<mapsto> x)"
  proof -
    have "obj_key x \<notin> fst ` set (map (\<lambda>x. (obj_key x, x)) xs)"
      using Cons.prems(2) by auto
    then have "obj_key x \<notin> dom (map_of (map (\<lambda>x. (obj_key x, x)) xs))"
      by (simp add: dom_map_of_conv_image_fst)
    then show ?thesis
      by (auto simp: map_add_def fun_eq_iff split: option.splits)
  qed
  ultimately have "look s' = (look s)(g := look s g ++ map_of (map (\<lambda>x. (obj_key x, x)) (x # xs)))"
    using look' s1(3) by (intro ext) simp
  moreover have "create_each (crt g) (x # xs) s = (None, s')"
    using s' s1(1) by simp
  ultimately show ?case using s' by blast
qed

text \<open>A loop of deletes of stored, pairwise different keys never fails and removes them all.\<close>

lemma delete_each_old:
  "wf s \<Longrightarrow> distinct ks \<Longrightarrow> (\<And>k. k \<in> set ks \<Longrightarrow> look s g k \<noteq> None) \<Longrightarrow>
   \<exists>s'. delete_each (del g) ks s = (None, s') \<and> delete_logged (del g) ks s = s' \<and> wf s' \<and>
     look s' = (look s)(g := look s g |` (- set ks))"
proof (induction ks arbitrary: s)
  case Nil
  then show ?case by simp
next
  case (Cons k ks)
  obtain s1 where s1: "del g k s = Inr s1" "wf s1" "look s1 = (look s)(g := (look s g)(k := None))"
    using delete_old [of s g k] Cons.prems by auto
  have d: "distinct ks" using Cons.prems(2) by simp
  have old: "look s1 g j \<noteq> None" if "j \<in> set ks" for j
    using that Cons.prems(2,3) s1(3) by auto
  then obtain s' where s': "delete_each (del g) ks s1 = (None, s')"
    "delete_logged (del g) ks s1 = s'" "wf s'"
    and look': "look s' = (look s1)(g := look s1 g |` (- set ks))"
    using Cons.IH [OF s1(2) d old] by blast
  have "(look s g)(k := None) |` (- set ks) = look s g |` (- set (k # ks))"
    by (auto simp: restrict_map_def fun_eq_iff)
  then have "look s' = (look s)(g := look s g |` (- set (k # ks)))"
    using look' s1(3) by (intro ext) (simp del: fun_upd_restrict restrict_fun_upd)
  moreover have "delete_each (del g) (k # ks) s = (None, s')"
    and "delete_logged (del g) (k # ks) s = s'"
    using s' s1(1) by simp_all
  ultimately show ?case using s' by blast
qed

text \<open>Creating an object and deleting it again gives the store back.\<close>

lemma create_delete:
  assumes "wf s" and "kind_ok g x" and "look s g (obj_key x) = None"
  shows "\<exists>s1 s2. crt g x s = Inr s1 \<and> del g (obj_key x) s1 = Inr s2 \<and> look s2 = look s"
proof -
  obtain s1 where s1: "crt g x s = Inr s1" "wf s1"
    "look s1 = (look s)(g := (look s g)(obj_key x \<mapsto> x))"
    using create_new [OF assms] by blast
  moreover obtain s2 where "del g (obj_key x) s1 = Inr s2"
    "look s2 = (look s1)(g := (look s1 g)(obj_key x := None))"
    using delete_old [of s1 g "obj_key x"] s1 by auto
  ultimately show ?thesis
    using assms(3) by (auto simp: fun_eq_iff)
qed

end

interpretation ts: object_store objs create_obj update_obj delete_key all_objs tracker_wf
proof
  fix t :: tracker and g x k
  assume wf: "tracker_wf t"
  show "kind_ok g x \<Longrightarrow> objs t g (obj_key x) = None \<Longrightarrow>
      \<exists>t'. create_obj g x t = Inr t' \<and> tracker_wf t' \<and> objs t' = (objs t)(g := (objs t g)(obj_key x \<mapsto> x))"
    using wf by (simp add: create_obj_eq objs_update tracker_wf_update)
  show "objs t g (obj_key x) \<noteq> None \<Longrightarrow> create_obj g x t = Inl (AlreadyExists (obj_name x))"
    by (auto simp: create_obj_eq)
  show "kind_ok g x \<Longrightarrow> objs t g (obj_key x) \<noteq> None \<Longrightarrow>
      \<exists>t'. update_obj g x t = Inr t' \<and> tracker_wf t' \<and> objs t' = (objs t)(g := (objs t g)(obj_key x \<mapsto> x))"
    using wf by (auto simp: update_obj_eq objs_update tracker_wf_update)
  show "objs t g (obj_key x) = None \<Longrightarrow> update_obj g x t = Inl (NotFound (obj_name x))"
    by (simp add: update_obj_eq)
  show "objs t g k \<noteq> None \<Longrightarrow>
      \<exists>t'. delete_key g k t = Inr t' \<and> tracker_wf t' \<and> objs t' = (objs t)(g := (objs t g)(k := None))"
    using wf by (auto simp: delete_key_eq objs_delete tracker_wf_delete)
  show "objs t g k = None \<Longrightarrow> delete_key g k t = Inl (NotFound (snd k))"
    by (simp add: delete_key_eq)
  show "set (all_objs g t) = ran (objs t g)"
    using wf tracker_wf_objs [OF wf] unfolding all_objs_def ran_def
    by (auto simp: set_client_List simp del: split_paired_Ex)
  show "distinct (map obj_key (all_objs g t))"
    using wf unfolding all_objs_def by (rule distinct_client_List)
  show "objs t g k = Some x \<Longrightarrow> k = obj_key x \<and> kind_ok g x"
    using wf by (rule tracker_wf_objs)
qed

end
