(* ===== verification/Strategy.thy ===== *)
theory Strategy
  imports Tracker
begin

text \<open>
  The emulation strategy of \<open>pkg/strategy/strategy.go\<close>: what the simulator does to the cluster
  when the scheduler has chosen a node for a pod. The only strategy is \<open>predictiveStrategy\<close>; it
  marks the pod as running and updates it in the store.

  The locale \<open>placing_strategy\<close> is what \<open>Bind\<close> relies on: adding a pod that is in the store
  replaces exactly that object by its running version, and a pod that is not there is refused
  without changing the store. \<open>ps\<close> interprets it on the predictive strategy over the tracker.
\<close>

definition running :: "pod \<Rightarrow> pod" where
  "running p = p\<lparr>pod_Status := (pod_Status p)\<lparr>Phase := PodRunning\<rparr>\<rparr>"

definition addPod :: "pod \<Rightarrow> tracker \<Rightarrow> gerr + tracker" where
  "addPod p t =
     (case update_obj Pods (PodObj (running p)) t of
        Inl e \<Rightarrow> Inl (Wrap ''Unable to add new pod'' (ApiErr e))
      | Inr t' \<Rightarrow> Inr t')"

definition strategy_Add :: "kobj \<Rightarrow> tracker \<Rightarrow> gerr + tracker" where
  "strategy_Add obj t =
     (case obj of PodObj p \<Rightarrow> addPod p t | _ \<Rightarrow> Inl (Msg ''resource kind not recognized''))"

definition strategy_Update :: "kobj \<Rightarrow> tracker \<Rightarrow> gerr + tracker" where
  "strategy_Update obj t = Inl (Msg ''Not implemented yet'')"

definition strategy_Delete :: "kobj \<Rightarrow> tracker \<Rightarrow> gerr + tracker" where
  "strategy_Delete obj t = Inl (Msg ''Not implemented yet'')"

lemma running_simps [simp]:
  "pod_Name (running p) = pod_Name p" "pod_Namespace (running p) = pod_Namespace p"
  "pod_Labels (running p) = pod_Labels p" "pod_Annotations (running p) = pod_Annotations p"
  "pod_Spec (running p) = pod_Spec p" "Phase (pod_Status (running p)) = PodRunning"
  "running (running p) = running p" "pod_key (running p) = pod_key p"
  by (simp_all add: running_def pod_key_def)

locale placing_strategy =
  fixes add :: "kobj \<Rightarrow> 's \<Rightarrow> gerr + 's"
    and look :: "'s \<Rightarrow> gvr \<Rightarrow> key \<rightharpoonup> kobj"
    and wf :: "'s \<Rightarrow> bool"
  assumes add_stored: "wf s \<Longrightarrow> look s Pods (obj_key (PodObj p)) \<noteq> None \<Longrightarrow>
      \<exists>s'. add (PodObj p) s = Inr s' \<and> wf s' \<and>
        look s' = (look s)(Pods := (look s Pods)(obj_key (PodObj p) \<mapsto> PodObj (running p)))"
    and add_missing: "wf s \<Longrightarrow> look s Pods (obj_key (PodObj p)) = None \<Longrightarrow> \<exists>e. add (PodObj p) s = Inl e"
begin

text \<open>Adding a pod twice is adding it once.\<close>

lemma add_idem:
  assumes "wf s" and "add (PodObj p) s = Inr s1"
  shows "\<exists>s2. add (PodObj p) s1 = Inr s2 \<and> look s2 = look s1"
proof -
  have "look s Pods (obj_key (PodObj p)) \<noteq> None"
    using assms add_missing by fastforce
  then have s1: "wf s1"
    "look s1 = (look s)(Pods := (look s Pods)(obj_key (PodObj p) \<mapsto> PodObj (running p)))"
    using add_stored [OF assms(1)] assms(2) by fastforce+
  then obtain s2 where "add (PodObj p) s1 = Inr s2"
    "look s2 = (look s1)(Pods := (look s1 Pods)(obj_key (PodObj p) \<mapsto> PodObj (running p)))"
    using add_stored [of s1 p] by auto
  with s1 show ?thesis by auto
qed

text \<open>Nothing but the pod itself changes.\<close>

lemma add_frame:
  assumes "wf s" and "add (PodObj p) s = Inr s1" and "g \<noteq> Pods \<or> k \<noteq> obj_key (PodObj p)"
  shows "look s1 g k = look s g k"
proof -
  have "look s Pods (obj_key (PodObj p)) \<noteq> None"
    using assms add_missing by fastforce
  then show ?thesis
    using add_stored [OF assms(1)] assms(2,3) by fastforce
qed

end

interpretation ps: placing_strategy strategy_Add objs tracker_wf
proof
  fix t :: tracker and p
  assume wf: "tracker_wf t"
  have k: "kind_ok Pods (PodObj (running p))" by simp
  show "objs t Pods (obj_key (PodObj p)) \<noteq> None \<Longrightarrow>
      \<exists>t'. strategy_Add (PodObj p) t = Inr t' \<and> tracker_wf t' \<and>
        objs t' = (objs t)(Pods := (objs t Pods)(obj_key (PodObj p) \<mapsto> PodObj (running p)))"
    using ts.update_old [OF wf k] by (auto simp: strategy_Add_def addPod_def)
  show "objs t Pods (obj_key (PodObj p)) = None \<Longrightarrow> \<exists>e. strategy_Add (PodObj p) t = Inl e"
    using ts.update_new [OF wf, of Pods "PodObj (running p)"]
    by (auto simp: strategy_Add_def addPod_def)
qed

end
