(* ===== verification/Fifo_Queue.thy ===== *)
theory Fifo_Queue
  imports KS_Prelude
begin

text \<open>
  The job queue of \<open>pkg/queue/fifo.go\<close>, which implements the interface \<open>PodQueue\<close> of
  \<open>pkg/queue/queue.go\<close>.

  A \<open>fifo\<close> has the two fields of \<open>FIFOQueue\<close>: the map \<open>appGroup\<close> from keys to queued values and the
  slice \<open>queue\<close> of keys in order of arrival. A key pushed twice is in the slice twice and in the map
  once; \<open>Pop\<close> and \<open>Front\<close> skip the keys of the slice that the map no longer holds. Every
  operation runs under the queue's mutex, so each is one atomic step here.

  The specification of the queue is an association list (\<open>fifo_abs\<close>): pushing a new key appends,
  pushing a key that is still queued replaces its value in place, popping takes the head. The
  locale \<open>pod_queue\<close> states this contract for any implementation and derives what a client relies
  on; \<open>fq\<close> is its interpretation on the model of the code.
\<close>

section \<open>The queue\<close>

record 'a fifo =
  appGroup :: "string \<rightharpoonup> 'a"
  queue :: "string list"

text \<open>Only the first error is raised: the operations the others are for are commented out in \<open>fifo.go\<close>.\<close>

datatype queue_error = ErrEmptyQueue | ErrDifferentNames | ErrNoMatchingPod string

definition NewFIFOQueue :: "'a fifo" where
  "NewFIFOQueue = \<lparr>appGroup = Map.empty, queue = []\<rparr>"

definition fifo_Push :: "string \<Rightarrow> 'a \<Rightarrow> 'a fifo \<Rightarrow> 'a fifo" where
  "fifo_Push key v q = q\<lparr>appGroup := (appGroup q)(key \<mapsto> v), queue := queue q @ [key]\<rparr>"

text \<open>
  The loop of \<open>Pop\<close>: \<open>key\<close> is the variable declared before the loop, so that on failure the last
  key taken from the slice is returned beside the error.
\<close>

fun pop_loop :: "(string \<rightharpoonup> 'a) \<Rightarrow> string list \<Rightarrow> string \<Rightarrow> (queue_error + 'a) \<times> string \<times> 'a fifo" where
  "pop_loop m [] key = (Inl ErrEmptyQueue, key, \<lparr>appGroup = m, queue = []\<rparr>)"
| "pop_loop m (k # ks) key =
     (case m k of
        Some v \<Rightarrow> (Inr v, k, \<lparr>appGroup = m(k := None), queue = ks\<rparr>)
      | None \<Rightarrow> pop_loop m ks k)"

definition fifo_Pop :: "'a fifo \<Rightarrow> (queue_error + 'a) \<times> string \<times> 'a fifo" where
  "fifo_Pop q = pop_loop (appGroup q) (queue q) []"

fun front_loop :: "(string \<rightharpoonup> 'a) \<Rightarrow> string list \<Rightarrow> string \<Rightarrow> (queue_error + 'a) \<times> string \<times> 'a fifo" where
  "front_loop m [] key = (Inl ErrEmptyQueue, key, \<lparr>appGroup = m, queue = []\<rparr>)"
| "front_loop m (k # ks) key =
     (case m k of
        Some v \<Rightarrow> (Inr v, k, \<lparr>appGroup = m, queue = k # ks\<rparr>)
      | None \<Rightarrow> front_loop m ks k)"

definition fifo_Front :: "'a fifo \<Rightarrow> (queue_error + 'a) \<times> string \<times> 'a fifo" where
  "fifo_Front q = front_loop (appGroup q) (queue q) []"

lemma fifo_Pop_error: "fifo_Pop q = (Inl e, key, q') \<Longrightarrow> e = ErrEmptyQueue"
proof -
  have "pop_loop m ks k = (Inl e, key, q') \<Longrightarrow> e = ErrEmptyQueue" for m ks k
    by (induction m ks k rule: pop_loop.induct) (auto split: option.splits)
  then show "fifo_Pop q = (Inl e, key, q') \<Longrightarrow> e = ErrEmptyQueue" by (simp add: fifo_Pop_def)
qed

definition fifo_Get :: "'a fifo \<Rightarrow> (string \<rightharpoonup> 'a)" where
  "fifo_Get q = appGroup q"

section \<open>Specification\<close>

text \<open>\<open>live_keys m ks\<close>: the keys of the slice that are still in the map, each at its first place.\<close>

fun live_keys :: "(string \<rightharpoonup> 'a) \<Rightarrow> string list \<Rightarrow> string list" where
  "live_keys m [] = []"
| "live_keys m (k # ks) =
     (if m k = None then live_keys m ks else k # removeAll k (live_keys m ks))"

definition fifo_abs :: "'a fifo \<Rightarrow> (string \<times> 'a) list" where
  "fifo_abs q = map (\<lambda>k. (k, the (appGroup q k))) (live_keys (appGroup q) (queue q))"

text \<open>
  The state the server keeps the queue in: every key was pushed once (job ids are fresh UUIDs),
  so the slice and the map hold the same keys.
\<close>

definition fifo_inv :: "'a fifo \<Rightarrow> bool" where
  "fifo_inv q \<longleftrightarrow> distinct (queue q) \<and> set (queue q) = dom (appGroup q)"

lemma set_live_keys [simp]: "set (live_keys m ks) = set ks \<inter> dom m"
proof -
  have "j \<in> set (live_keys m ks) \<longleftrightarrow> j \<in> set ks \<and> m j \<noteq> None" for j
    by (induction ks) auto
  then show ?thesis by (simp add: set_eq_iff domIff)
qed

lemma distinct_live_keys [simp]: "distinct (live_keys m ks)"
  by (induction ks) (simp_all add: distinct_removeAll)

lemma live_keys_update: "m k \<noteq> None \<Longrightarrow> live_keys (m(k \<mapsto> v)) ks = live_keys m ks"
  by (induction ks) auto

lemma removeAll_commute: "removeAll x (removeAll y xs) = removeAll y (removeAll x xs)"
  by (induction xs) auto

lemma live_keys_append_removeAll:
  "removeAll k (live_keys m (ks @ [k])) = removeAll k (live_keys m ks)"
  by (induction ks) (auto simp: removeAll_commute [of k])

lemma live_keys_append_none: "m k = None \<Longrightarrow> live_keys m (ks @ [k]) = live_keys m ks"
  by (induction ks) auto

lemma live_keys_append_mem:
  "k \<in> set ks \<Longrightarrow> live_keys m (ks @ [k]) = live_keys m ks"
  by (induction ks) (auto simp: live_keys_append_removeAll live_keys_append_none)

lemma live_keys_append_new:
  "k \<notin> set ks \<Longrightarrow> m k \<noteq> None \<Longrightarrow> live_keys m (ks @ [k]) = live_keys m ks @ [k]"
  by (induction ks) auto

lemma live_keys_all:
  "distinct ks \<Longrightarrow> set ks \<subseteq> dom m \<Longrightarrow> live_keys m ks = ks"
  by (induction ks) (auto simp: removeAll_id)

lemma fifo_abs_keys: "map fst (fifo_abs q) = live_keys (appGroup q) (queue q)"
  by (simp add: fifo_abs_def comp_def)

lemma fifo_abs_distinct [simp]: "distinct (map fst (fifo_abs q))"
  by (simp add: fifo_abs_keys)

lemma fifo_inv_abs: "fifo_inv q \<Longrightarrow> fifo_abs q = map (\<lambda>k. (k, the (appGroup q k))) (queue q)"
  by (simp add: fifo_inv_def fifo_abs_def live_keys_all)

section \<open>The operations against the specification\<close>

named_theorems fifo_defs \<open>the definitions of the queue's operations\<close>

lemmas [fifo_defs] =
  NewFIFOQueue_def fifo_Push_def fifo_Pop_def fifo_Front_def fifo_Get_def

lemma fifo_new_inv: "fifo_inv NewFIFOQueue"
  by (simp add: fifo_inv_def fifo_defs)

lemma fifo_new_abs: "fifo_abs NewFIFOQueue = []"
  by (simp add: fifo_abs_def fifo_defs)

lemma fifo_push_inv: "fifo_inv q \<Longrightarrow> appGroup q k = None \<Longrightarrow> fifo_inv (fifo_Push k v q)"
  by (auto simp: fifo_inv_def fifo_defs)

lemma fifo_push_abs:
  assumes "fifo_inv q" and "appGroup q k = None"
  shows "fifo_abs (fifo_Push k v q) = fifo_abs q @ [(k, v)]"
proof -
  from assms have "k \<notin> set (queue q)" by (auto simp: fifo_inv_def)
  then show ?thesis
    using fifo_push_inv [OF assms] assms(1)
    by (simp add: fifo_inv_abs) (auto simp: fifo_Push_def)
qed

text \<open>Pushing a key that is still queued replaces its value and keeps its place.\<close>

lemma fifo_push_again_abs:
  assumes k: "k \<in> set (queue q)" and m: "appGroup q k \<noteq> None"
  shows "fifo_abs (fifo_Push k v q) =
    map (\<lambda>(k', w). (k', if k' = k then v else w)) (fifo_abs q)"
  using assms
  by (auto simp: fifo_abs_def fifo_Push_def live_keys_append_mem live_keys_update)

lemma pop_loop_live:
  "pop_loop m ks key =
     (case live_keys m ks of
        [] \<Rightarrow> (Inl ErrEmptyQueue, last (key # ks), \<lparr>appGroup = m, queue = []\<rparr>)
      | k # _ \<Rightarrow> (Inr (the (m k)), k,
          \<lparr>appGroup = m(k := None), queue = tl (dropWhile (\<lambda>j. m j = None) ks)\<rparr>))"
  by (induction ks arbitrary: key) (auto split: option.splits list.splits)

lemma front_loop_live:
  "front_loop m ks key =
     (case live_keys m ks of
        [] \<Rightarrow> (Inl ErrEmptyQueue, last (key # ks), \<lparr>appGroup = m, queue = []\<rparr>)
      | k # _ \<Rightarrow> (Inr (the (m k)), k, \<lparr>appGroup = m, queue = dropWhile (\<lambda>j. m j = None) ks\<rparr>))"
  by (induction ks arbitrary: key) (auto split: option.splits list.splits)

lemma live_keys_dropWhile: "live_keys m (dropWhile (\<lambda>j. m j = None) ks) = live_keys m ks"
  by (induction ks) auto

text \<open>The three reads of the queue, each against the head of the abstract list.\<close>

lemma fifo_abs_head:
  assumes inv: "fifo_inv q" and abs: "fifo_abs q = (k, v) # r"
  obtains ks where "queue q = k # ks" and "appGroup q k = Some v"
    and "r = map (\<lambda>j. (j, the (appGroup q j))) ks"
proof -
  from abs inv obtain ks where ks: "queue q = k # ks" and v: "v = the (appGroup q k)"
    and r: "r = map (\<lambda>j. (j, the (appGroup q j))) ks"
    by (auto simp: fifo_inv_abs)
  from inv ks have "k \<in> dom (appGroup q)" by (auto simp: fifo_inv_def)
  with v have "appGroup q k = Some v" by auto
  with ks r show thesis using that by blast
qed

lemma fifo_pop_some:
  assumes inv: "fifo_inv q" and abs: "fifo_abs q = (k, v) # r"
  shows "\<exists>q'. fifo_Pop q = (Inr v, k, q') \<and> fifo_inv q' \<and> fifo_abs q' = r"
proof -
  obtain ks where ks: "queue q = k # ks" and v: "appGroup q k = Some v"
    and r: "r = map (\<lambda>j. (j, the (appGroup q j))) ks"
    using inv abs by (rule fifo_abs_head)
  define q' where "q' = \<lparr>appGroup = (appGroup q)(k := None), queue = ks\<rparr>"
  have inv': "fifo_inv q'"
    using inv ks by (auto simp: fifo_inv_def q'_def)
  moreover have "fifo_abs q' = r"
    using inv ks r unfolding fifo_inv_abs [OF inv'] by (auto simp: q'_def fifo_inv_def)
  moreover have "fifo_Pop q = (Inr v, k, q')"
    using ks v by (simp add: fifo_Pop_def q'_def)
  ultimately show ?thesis by blast
qed

lemma fifo_pop_empty:
  "fifo_inv q \<Longrightarrow> fifo_abs q = [] \<Longrightarrow> fifo_Pop q = (Inl ErrEmptyQueue, [], q)"
  by (cases q) (auto simp: fifo_inv_abs fifo_Pop_def)

lemma fifo_front_some:
  assumes inv: "fifo_inv q" and abs: "fifo_abs q = (k, v) # r"
  shows "fifo_Front q = (Inr v, k, q)"
  using inv abs by (rule fifo_abs_head) (simp add: fifo_Front_def)

lemma fifo_front_empty:
  "fifo_inv q \<Longrightarrow> fifo_abs q = [] \<Longrightarrow> fifo_Front q = (Inl ErrEmptyQueue, [], q)"
  by (cases q) (auto simp: fifo_inv_abs fifo_Front_def)

lemma fifo_get_abs:
  assumes "fifo_inv q" shows "fifo_Get q = map_of (fifo_abs q)"
proof
  fix k
  have "appGroup q k = None \<longleftrightarrow> k \<notin> set (queue q)"
    using assms by (auto simp: fifo_inv_def)
  then show "fifo_Get q k = map_of (fifo_abs q) k"
    using assms by (auto simp: fifo_Get_def fifo_inv_abs map_of_map_restrict)
qed

section \<open>The interface \<open>PodQueue\<close>\<close>

text \<open>
  What a client can do with a queue, as data: a sequence of operations and what each of them
  answers. \<open>run_ops\<close> is a client over any implementation, \<open>spec_ops\<close> over the abstract list.
\<close>

datatype 'a qop = QPush string 'a | QPop | QFront

fun answer :: "(queue_error + 'a) \<times> string \<times> 'q \<Rightarrow> (string \<times> 'a) option" where
  "answer (Inr v, k, q) = Some (k, v)"
| "answer (Inl e, k, q) = None"

fun run_ops ::
  "(string \<Rightarrow> 'a \<Rightarrow> 'q \<Rightarrow> 'q) \<Rightarrow> ('q \<Rightarrow> (queue_error + 'a) \<times> string \<times> 'q) \<Rightarrow>
   ('q \<Rightarrow> (queue_error + 'a) \<times> string \<times> 'q) \<Rightarrow> 'a qop list \<Rightarrow> 'q \<Rightarrow> (string \<times> 'a) option list"
  where
  "run_ops psh pp frt [] q = []"
| "run_ops psh pp frt (QPush k v # ops) q = run_ops psh pp frt ops (psh k v q)"
| "run_ops psh pp frt (QPop # ops) q =
     answer (pp q) # run_ops psh pp frt ops (snd (snd (pp q)))"
| "run_ops psh pp frt (QFront # ops) q =
     answer (frt q) # run_ops psh pp frt ops (snd (snd (frt q)))"

fun spec_ops :: "'a qop list \<Rightarrow> (string \<times> 'a) list \<Rightarrow> (string \<times> 'a) option list" where
  "spec_ops [] l = []"
| "spec_ops (QPush k v # ops) l = spec_ops ops (l @ [(k, v)])"
| "spec_ops (QPop # ops) [] = None # spec_ops ops []"
| "spec_ops (QPop # ops) (x # l) = Some x # spec_ops ops l"
| "spec_ops (QFront # ops) [] = None # spec_ops ops []"
| "spec_ops (QFront # ops) (x # l) = Some x # spec_ops ops (x # l)"

fun pushed_keys :: "'a qop list \<Rightarrow> string list" where
  "pushed_keys [] = []"
| "pushed_keys (QPush k v # ops) = k # pushed_keys ops"
| "pushed_keys (QPop # ops) = pushed_keys ops"
| "pushed_keys (QFront # ops) = pushed_keys ops"

locale pod_queue =
  fixes new :: "'q"
    and psh :: "string \<Rightarrow> 'a \<Rightarrow> 'q \<Rightarrow> 'q"
    and pp :: "'q \<Rightarrow> (queue_error + 'a) \<times> string \<times> 'q"
    and frt :: "'q \<Rightarrow> (queue_error + 'a) \<times> string \<times> 'q"
    and gt :: "'q \<Rightarrow> (string \<rightharpoonup> 'a)"
    and abst :: "'q \<Rightarrow> (string \<times> 'a) list"
    and invar :: "'q \<Rightarrow> bool"
  assumes new_inv: "invar new"
    and new_abs: "abst new = []"
    and push_inv: "invar q \<Longrightarrow> k \<notin> fst ` set (abst q) \<Longrightarrow> invar (psh k v q)"
    and push_abs: "invar q \<Longrightarrow> k \<notin> fst ` set (abst q) \<Longrightarrow> abst (psh k v q) = abst q @ [(k, v)]"
    and pop_some: "invar q \<Longrightarrow> abst q = (k, v) # r \<Longrightarrow>
          \<exists>q'. pp q = (Inr v, k, q') \<and> invar q' \<and> abst q' = r"
    and pop_empty: "invar q \<Longrightarrow> abst q = [] \<Longrightarrow> pp q = (Inl ErrEmptyQueue, [], q)"
    and front_some: "invar q \<Longrightarrow> abst q = (k, v) # r \<Longrightarrow> frt q = (Inr v, k, q)"
    and front_empty: "invar q \<Longrightarrow> abst q = [] \<Longrightarrow> frt q = (Inl ErrEmptyQueue, [], q)"
    and get_abs: "invar q \<Longrightarrow> gt q = map_of (abst q)"
begin

lemma run_ops_spec:
  "invar q \<Longrightarrow> distinct (pushed_keys ops) \<Longrightarrow>
   set (pushed_keys ops) \<inter> fst ` set (abst q) = {} \<Longrightarrow>
   run_ops psh pp frt ops q = spec_ops ops (abst q)"
proof (induction ops arbitrary: q)
  case Nil
  then show ?case by simp
next
  case (Cons x ops)
  show ?case
  proof (cases x)
    case (QPush k v)
    with Cons.prems have "k \<notin> fst ` set (abst q)" by auto
    then have "invar (psh k v q)" and abs: "abst (psh k v q) = abst q @ [(k, v)]"
      using Cons.prems(1) by (auto intro: push_inv push_abs)
    moreover have "set (pushed_keys ops) \<inter> fst ` set (abst (psh k v q)) = {}"
      using Cons.prems QPush by (auto simp: abs)
    ultimately show ?thesis
      using Cons.IH [of "psh k v q"] Cons.prems(2) QPush by simp
  next
    case QPop
    show ?thesis
    proof (cases "abst q")
      case Nil
      then show ?thesis
        using Cons.IH [of q] Cons.prems QPop by (simp add: pop_empty)
    next
      case (Cons y r)
      obtain k v where y: "y = (k, v)" by (cases y)
      from pop_some [of q k v r] obtain q'
        where q': "pp q = (Inr v, k, q')" "invar q'" "abst q' = r"
        using Cons Cons.prems(1) y by blast
      moreover have "set (pushed_keys ops) \<inter> fst ` set r = {}"
        using Cons Cons.prems(3) QPop by auto
      ultimately show ?thesis
        using Cons.IH [of q'] Cons.prems(2) QPop Cons y by simp
    qed
  next
    case QFront
    show ?thesis
    proof (cases "abst q")
      case Nil
      then show ?thesis
        using Cons.IH [of q] Cons.prems QFront by (simp add: front_empty)
    next
      case (Cons y r)
      obtain k v where y: "y = (k, v)" by (cases y)
      then show ?thesis
        using Cons.IH [of q] Cons.prems QFront Cons front_some [of q k v r] by simp
    qed
  qed
qed

text \<open>A key is found in the map \<open>Get\<close> returns exactly while it waits in the queue.\<close>

lemma get_waiting: "invar q \<Longrightarrow> gt q k = None \<longleftrightarrow> k \<notin> fst ` set (abst q)"
  by (simp add: get_abs map_of_eq_None_iff)

end

interpretation fq: pod_queue NewFIFOQueue fifo_Push fifo_Pop fifo_Front fifo_Get fifo_abs fifo_inv
proof
  show "fifo_inv NewFIFOQueue" by (rule fifo_new_inv)
  show "fifo_abs NewFIFOQueue = []" by (rule fifo_new_abs)
  fix q :: "'a fifo" and k v r
  have key: "fifo_inv q \<Longrightarrow> k \<notin> fst ` set (fifo_abs q) \<Longrightarrow> appGroup q k = None"
    by (auto simp: fifo_inv_abs fifo_inv_def image_image)
  show "fifo_inv q \<Longrightarrow> k \<notin> fst ` set (fifo_abs q) \<Longrightarrow> fifo_inv (fifo_Push k v q)"
    using key by (blast intro: fifo_push_inv)
  show "fifo_inv q \<Longrightarrow> k \<notin> fst ` set (fifo_abs q) \<Longrightarrow>
      fifo_abs (fifo_Push k v q) = fifo_abs q @ [(k, v)]"
    using key by (blast intro: fifo_push_abs)
  show "fifo_inv q \<Longrightarrow> fifo_abs q = (k, v) # r \<Longrightarrow>
      \<exists>q'. fifo_Pop q = (Inr v, k, q') \<and> fifo_inv q' \<and> fifo_abs q' = r"
    by (rule fifo_pop_some)
  show "fifo_inv q \<Longrightarrow> fifo_abs q = [] \<Longrightarrow> fifo_Pop q = (Inl ErrEmptyQueue, [], q)"
    by (rule fifo_pop_empty)
  show "fifo_inv q \<Longrightarrow> fifo_abs q = (k, v) # r \<Longrightarrow> fifo_Front q = (Inr v, k, q)"
    by (rule fifo_front_some)
  show "fifo_inv q \<Longrightarrow> fifo_abs q = [] \<Longrightarrow> fifo_Front q = (Inl ErrEmptyQueue, [], q)"
    by (rule fifo_front_empty)
  show "fifo_inv q \<Longrightarrow> fifo_Get q = map_of (fifo_abs q)"
    by (rule fifo_get_abs)
qed

section \<open>Properties\<close>

text \<open>
  C40. The queue is first-in first-out. For every sequence of \<open>Push\<close>, \<open>Pop\<close> and \<open>Front\<close> on a new
  queue in which no key is pushed twice (job ids are fresh UUIDs), each \<open>Pop\<close> and \<open>Front\<close>
  answers what a plain list answers that appends at the end and takes at the front; on an empty
  queue both report \<open>ErrEmptyQueue\<close> at once.
\<close>

theorem fifo_refines_list:
  assumes "distinct (pushed_keys ops)"
  shows "run_ops fifo_Push fifo_Pop fifo_Front ops NewFIFOQueue = spec_ops ops []"
  using fq.run_ops_spec [OF fq.new_inv assms] by (simp add: fq.new_abs)

theorem fifo_refines_list_witness:
  "distinct (pushed_keys [QPush ''a'' (1 :: nat), QPush ''b'' 2, QFront, QPop, QPop, QPop]) \<and>
   run_ops fifo_Push fifo_Pop fifo_Front
     [QPush ''a'' (1 :: nat), QPush ''b'' 2, QFront, QPop, QPop, QPop] NewFIFOQueue =
   [Some (''a'', 1), Some (''a'', 1), Some (''b'', 2), None]"
  using fifo_refines_list [of "[QPush ''a'' (1 :: nat), QPush ''b'' 2, QFront, QPop, QPop, QPop]"]
  by simp

text \<open>
  The order is lost when a key is used again while an old entry of it is still in the slice:
  after \<open>Push k\<close>, \<open>Push k\<close>, \<open>Push j\<close>, \<open>Pop\<close> the slice still starts with \<open>k\<close>, so a further
  \<open>Push k\<close>, which should go to the end, is popped before \<open>j\<close>.
\<close>

lemma fifo_reused_key_overtakes:
  assumes "k \<noteq> j"
  shows "run_ops fifo_Push fifo_Pop fifo_Front
     [QPush k a, QPush k b, QPush j c, QPop, QPush k d, QPop, QPop] NewFIFOQueue =
     [Some (k, b), Some (k, d), Some (j, c)]"
  using assms by (simp add: fifo_defs)

lemma fifo_reused_key_overtakes_example:
  "''x'' \<noteq> (''y'' :: string) \<and>
   run_ops fifo_Push fifo_Pop fifo_Front
     [QPush ''x'' (1 :: nat), QPush ''x'' 2, QPush ''y'' 3, QPop, QPush ''x'' 4, QPop, QPop]
     NewFIFOQueue = [Some (''x'', 2), Some (''x'', 4), Some (''y'', 3)]"
  using fifo_reused_key_overtakes [of "''x''" "''y''" "1 :: nat" 2 3 4] by simp

end
