(* ===== verification/Report.thy ===== *)
theory Report
  imports K8s_Objects
begin

text \<open>
  The reports of \<open>pkg/scheduler/report.go\<close>: how the list of scheduled pods and the reason why the
  simulation stopped become a review. \<open>sim_status\<close> is the type \<open>Status\<close> of \<open>simulator.go\<close>, the
  input of a report.

  The wall-clock field \<open>CreationTimestamp\<close> is not modelled; the printers of a review are the theory
  \<open>Report_Print\<close>. The library call \<open>IsScalarResourceName\<close> is a parameter of \<open>getResourceRequest\<close>.
\<close>

section \<open>Data\<close>

record sim_status =
  st_Pods :: "pod list"
  st_StopReason :: string

record replicas_on_node =
  ron_NodeName :: string
  ron_Replicas :: int

record fail_summary =
  fs_Reason :: string
  fs_Count :: int

record review_result =
  UsName :: string
  ReplicasOnNodes :: "replicas_on_node list"
  FailSummary :: "fail_summary list"

record fail_reason =
  fr_Type :: string
  fr_Message :: string

record resources =
  PrimaryResources :: "string \<rightharpoonup> quantity"
  ScalarResources :: "(string, 64 word) gomap"

record requirements =
  req_PodName :: string
  req_Resources :: resources
  req_NodeSelectors :: smap

record review_spec =
  DesiredReplicas :: "32 word"
  PodRequirements :: "requirements list"

record review_status =
  rev_Replicas :: "32 word"
  rev_Reason :: "fail_reason option"
  rev_Pods :: "review_result list"

record review =
  rev_Spec :: review_spec
  rev_Status :: review_status

record scheduler_prediction =
  SuccessAppsName :: "string list"
  SuccessAppsCount :: "32 word"
  FailedAppsCount :: "32 word"
  FirstAppfailedReason :: string
  PredictionGo :: bool
  ReportList :: "review list option"

record access_switch =
  as_Name :: string
  as_NodeNumber :: "32 word"
  as_NodeNameList :: "string list"

record prediction_node_review =
  MinNode :: "32 word"
  MaxNode :: "32 word"
  PredictionNode :: "32 word"
  StatusPredictionNode :: "32 word"
  Access :: "access_switch list"

datatype job_status = JobNone | JobQueuing | JobProcessing | JobSucceed | JobFailed | JobStopped

record job_report =
  JobID :: string
  job_Status :: job_status
  job_Report :: "review list"
  PredictionNodeR :: "prediction_node_review option"

definition empty_review :: review where
  "empty_review =
     \<lparr>rev_Spec = \<lparr>DesiredReplicas = 0, PodRequirements = []\<rparr>,
      rev_Status = \<lparr>rev_Replicas = 0, rev_Reason = None, rev_Pods = []\<rparr>\<rparr>"

section \<open>The reason of a stop\<close>

text \<open>\<open>strings.Split\<close>, \<open>strings.Index\<close> and \<open>strings.Trim\<close>, for separators of one character.\<close>

fun strings_Split :: "char \<Rightarrow> string \<Rightarrow> string list" where
  "strings_Split sep [] = [[]]"
| "strings_Split sep (c # cs) =
     (if c = sep then [] # strings_Split sep cs
      else (case strings_Split sep cs of [] \<Rightarrow> [[c]] | l # ls \<Rightarrow> (c # l) # ls))"

fun strings_Index :: "char \<Rightarrow> string \<Rightarrow> nat option" where
  "strings_Index x [] = None"
| "strings_Index x (c # cs) = (if c = x then Some 0 else map_option Suc (strings_Index x cs))"

definition strings_Trim :: "char \<Rightarrow> string \<Rightarrow> string" where
  "strings_Trim x s = rev (dropWhile ((=) x) (rev (dropWhile ((=) x) s)))"

text \<open>A missing colon makes \<open>Index\<close> -1, and the slice expression \<open>[:colon]\<close> panics.\<close>

definition getMainFailReason :: "string \<Rightarrow> fail_reason res" where
  "getMainFailReason message =
     (let first = hd (strings_Split CHR 0x0A message) in
      case strings_Index CHR '':'' first of
        None \<Rightarrow> Panic SliceBounds
      | Some colon \<Rightarrow>
          Ok \<lparr>fr_Type = take colon first,
              fr_Message = strings_Trim CHR '' '' (drop (Suc colon) first)\<rparr>)"

lemma strings_Split_ne [simp]: "strings_Split sep s \<noteq> []"
  by (cases s) (auto split: list.splits)

lemma hd_strings_Split: "hd (strings_Split sep s) = takeWhile (\<lambda>c. c \<noteq> sep) s"
proof (induction s)
  case (Cons c cs)
  then show ?case
    by (cases "strings_Split sep cs") simp_all
qed simp

lemma strings_Index_None: "strings_Index x s = None \<longleftrightarrow> x \<notin> set s"
  by (induction s) auto

lemma strings_Index_Some: "strings_Index x s = Some i \<Longrightarrow> x \<in> set s"
  by (induction s arbitrary: i) (auto split: if_splits)

lemma strings_Index_append: "x \<notin> set s \<Longrightarrow> strings_Index x (s @ x # t) = Some (length s)"
  by (induction s) auto

text \<open>
  The reasons the simulator sets have the form \<open>Type: Message\<close>, with a type free of colons and
  newlines. Then the type is read back, and the message is the rest of the first line.
\<close>

lemma getMainFailReason_form:
  assumes "CHR '':'' \<notin> set ty" and "CHR 0x0A \<notin> set ty"
  shows "getMainFailReason (ty @ '': '' @ msg) =
    Ok \<lparr>fr_Type = ty, fr_Message = strings_Trim CHR '' '' (takeWhile (\<lambda>c. c \<noteq> CHR 0x0A) msg)\<rparr>"
proof -
  have "takeWhile (\<lambda>c. c \<noteq> CHR 0x0A) (ty @ '': '' @ msg) =
      ty @ CHR '':'' # CHR '' '' # takeWhile (\<lambda>c. c \<noteq> CHR 0x0A) msg"
    using assms(2) by (subst takeWhile_append2) auto
  then have "hd (strings_Split CHR 0x0A (ty @ '': '' @ msg)) =
      ty @ CHR '':'' # CHR '' '' # takeWhile (\<lambda>c. c \<noteq> CHR 0x0A) msg"
    by (simp add: hd_strings_Split)
  moreover have "strings_Trim CHR '' '' (CHR '' '' # s) = strings_Trim CHR '' '' s" for s
    by (simp add: strings_Trim_def)
  ultimately show ?thesis
    using strings_Index_append [OF assms(1)] by (simp add: getMainFailReason_def Let_def)
qed

lemma getMainFailReason_panics:
  "(\<exists>p. getMainFailReason s = Panic p) \<longleftrightarrow> CHR '':'' \<notin> set (takeWhile (\<lambda>c. c \<noteq> CHR 0x0A) s)"
  by (auto simp: getMainFailReason_def Let_def hd_strings_Split strings_Index_None
    split: option.splits dest!: strings_Index_Some)

section \<open>Replicas per node\<close>

text \<open>The inner loop of \<open>parsePodsReview\<close>: count one more replica on \<open>nodeName\<close>.\<close>

definition bump_node :: "string \<Rightarrow> replicas_on_node list \<Rightarrow> replicas_on_node list" where
  "bump_node nodeName rons =
     (if \<exists>r \<in> set rons. ron_NodeName r = nodeName
      then map (\<lambda>r. if ron_NodeName r = nodeName then r\<lparr>ron_Replicas := ron_Replicas r + 1\<rparr> else r) rons
      else rons @ [\<lparr>ron_NodeName = nodeName, ron_Replicas = 1\<rparr>])"

fun review_loop :: "nat \<Rightarrow> pod list \<Rightarrow> review_result list \<Rightarrow> review_result list res" where
  "review_loop i [] result = Ok result"
| "review_loop i (p # ps) result =
     (if result = [] then Panic DivideByZero
      else
        (let j = i mod length result; r = result ! j in
         review_loop (Suc i) ps
           (result[j := r\<lparr>ReplicasOnNodes := bump_node (NodeName (pod_Spec p)) (ReplicasOnNodes r)\<rparr>])))"

definition parsePodsReview :: "pod list \<Rightarrow> sim_status \<Rightarrow> review_result list res" where
  "parsePodsReview templatePods status =
     review_loop 0 (st_Pods status)
       (map (\<lambda>t. \<lparr>UsName = pod_Name t, ReplicasOnNodes = [], FailSummary = []\<rparr>) templatePods)"

definition instancesSum :: "replicas_on_node list \<Rightarrow> int" where
  "instancesSum rons = fold (\<lambda>v result. result + ron_Replicas v) rons 0"

text \<open>The nodes of the pods whose position is \<open>j\<close> modulo \<open>k\<close>, counting from \<open>i\<close>.\<close>

fun assigned :: "nat \<Rightarrow> nat \<Rightarrow> nat \<Rightarrow> pod list \<Rightarrow> string list" where
  "assigned i k j [] = []"
| "assigned i k j (p # ps) =
     (if i mod k = j then NodeName (pod_Spec p) # assigned (Suc i) k j ps
      else assigned (Suc i) k j ps)"

definition ron_map :: "replicas_on_node list \<Rightarrow> string \<rightharpoonup> int" where
  "ron_map rons = map_of (map (\<lambda>r. (ron_NodeName r, ron_Replicas r)) rons)"

lemma ron_map_dom: "ron_map rons n = None \<longleftrightarrow> n \<notin> ron_NodeName ` set rons"
  by (simp add: ron_map_def map_of_eq_None_iff image_image)

lemma ron_map_bump:
  "ron_map (bump_node n rons) = (ron_map rons)(n \<mapsto> (case ron_map rons n of None \<Rightarrow> 1 | Some c \<Rightarrow> c + 1))"
proof (cases "\<exists>r \<in> set rons. ron_NodeName r = n")
  case True
  let ?f = "\<lambda>r. if ron_NodeName r = n then r\<lparr>ron_Replicas := ron_Replicas r + 1\<rparr> else r"
  have "ron_map (map ?f xs) m =
      (if m = n then map_option (\<lambda>c. c + 1) (ron_map xs n) else ron_map xs m)" for xs m
    by (induction xs) (auto simp: ron_map_def)
  moreover obtain c where "ron_map rons n = Some c"
    using True ron_map_dom [of rons n] by (cases "ron_map rons n") auto
  ultimately show ?thesis
    using True by (auto simp: bump_node_def fun_eq_iff)
next
  case False
  then have "ron_map rons n = None" by (auto simp: ron_map_dom)
  with False show ?thesis
    by (auto simp: bump_node_def ron_map_def map_add_def fun_eq_iff split: option.splits)
qed

lemma bump_node_names:
  "map ron_NodeName (bump_node n rons) =
     (if n \<in> ron_NodeName ` set rons then map ron_NodeName rons else map ron_NodeName rons @ [n])"
  by (auto simp: bump_node_def image_iff)

lemma bump_nodes_count:
  assumes "distinct (map ron_NodeName rons)"
  shows "distinct (map ron_NodeName (fold bump_node ns rons)) \<and>
    ron_map (fold bump_node ns rons) m =
      (if m \<in> set ns then Some (int (count_list ns m) + (case ron_map rons m of None \<Rightarrow> 0 | Some c \<Rightarrow> c))
       else ron_map rons m)"
  using assms
proof (induction ns arbitrary: rons)
  case Nil
  then show ?case by simp
next
  case (Cons n ns)
  have "distinct (map ron_NodeName (bump_node n rons))"
    using Cons.prems by (simp add: bump_node_names)
  from Cons.IH [OF this] show ?case
    by (auto simp: ron_map_bump split: option.splits)
qed

lemma fold_plus: "fold (\<lambda>v a. a + f v) xs (a :: int) = a + sum_list (map f xs)"
  by (induction xs arbitrary: a) (simp_all add: add.assoc)

lemma instancesSum_list: "instancesSum rons = sum_list (map ron_Replicas rons)"
  by (simp add: instancesSum_def fold_plus)

lemma instancesSum_bump:
  "distinct (map ron_NodeName rons) \<Longrightarrow> instancesSum (bump_node n rons) = instancesSum rons + 1"
proof -
  let ?f = "\<lambda>r. if ron_NodeName r = n then r\<lparr>ron_Replicas := ron_Replicas r + 1\<rparr> else r"
  have skip: "m \<notin> ron_NodeName ` set xs \<Longrightarrow>
      map (\<lambda>r. if ron_NodeName r = m then r\<lparr>ron_Replicas := ron_Replicas r + 1\<rparr> else r) xs = xs" for m xs
    by (rule map_idI) auto
  have "distinct (map ron_NodeName xs) \<Longrightarrow> n \<in> ron_NodeName ` set xs \<Longrightarrow>
      sum_list (map ron_Replicas (map ?f xs)) = sum_list (map ron_Replicas xs) + 1" for xs
    by (induction xs) (auto simp: skip simp del: map_map)
  then show "distinct (map ron_NodeName rons) \<Longrightarrow> ?thesis"
    by (auto simp: instancesSum_list bump_node_def image_iff simp del: map_map)
qed

lemma instancesSum_bumps:
  "distinct (map ron_NodeName rons) \<Longrightarrow>
   instancesSum (fold bump_node ns rons) = instancesSum rons + int (length ns)"
  by (induction ns arbitrary: rons) (simp_all add: instancesSum_bump bump_node_names)

lemma review_loop_Ok:
  "rs \<noteq> [] \<Longrightarrow> \<exists>rs'. review_loop i ps rs = Ok rs' \<and> map UsName rs' = map UsName rs \<and>
     (\<forall>j < length rs. ReplicasOnNodes (rs' ! j) =
        fold bump_node (assigned i (length rs) j ps) (ReplicasOnNodes (rs ! j)))"
proof (induction ps arbitrary: i rs)
  case Nil
  then show ?case by simp
next
  case (Cons p ps)
  define j where "j = i mod length rs"
  define r where "r = rs ! j"
  define r' where
    "r' = r\<lparr>ReplicasOnNodes := bump_node (NodeName (pod_Spec p)) (ReplicasOnNodes r)\<rparr>"
  have j: "j < length rs" using Cons.prems by (simp add: j_def)
  have ne: "rs[j := r'] \<noteq> []" using Cons.prems by simp
  obtain rs' where rs': "review_loop (Suc i) ps (rs[j := r']) = Ok rs'"
    "map UsName rs' = map UsName (rs[j := r'])"
    "\<forall>l < length (rs[j := r']). ReplicasOnNodes (rs' ! l) =
       fold bump_node (assigned (Suc i) (length (rs[j := r'])) l ps) (ReplicasOnNodes (rs[j := r'] ! l))"
    using Cons.IH [OF ne, of "Suc i"] by blast
  have "map UsName (rs[j := r']) = map UsName rs"
    using j by (intro nth_equalityI) (auto simp: nth_list_update r'_def r_def)
  moreover have "review_loop i (p # ps) rs = Ok rs'"
    using Cons.prems rs'(1) by (simp add: Let_def j_def r_def r'_def)
  moreover have "ReplicasOnNodes (rs' ! l) =
      fold bump_node (assigned i (length rs) l (p # ps)) (ReplicasOnNodes (rs ! l))"
    if "l < length rs" for l
    using rs'(3) that j by (auto simp: nth_list_update r'_def r_def j_def [symmetric])
  ultimately show ?case using rs'(2) by auto
qed

lemma parsePodsReview_Ok:
  assumes "templates \<noteq> []"
  shows "\<exists>rs. parsePodsReview templates status = Ok rs \<and> map UsName rs = map pod_Name templates \<and>
    (\<forall>j < length templates. ReplicasOnNodes (rs ! j) =
       fold bump_node (assigned 0 (length templates) j (st_Pods status)) [])"
  using review_loop_Ok [of "map (\<lambda>t. \<lparr>UsName = pod_Name t, ReplicasOnNodes = [], FailSummary = []\<rparr>) templates"
      0 "st_Pods status"] assms
  by (auto simp: parsePodsReview_def comp_def)

section \<open>Resource requests\<close>

text \<open>The key kubesim uses for GPUs in a report; the nodes it builds use ''nvidia.com/gpu''.\<close>

definition ResourceNvidiaGPU :: string where
  "ResourceNvidiaGPU = ''nvdia.com/gpu''"

definition ResourceCPU :: string where "ResourceCPU = ''cpu''"
definition ResourceMemory :: string where "ResourceMemory = ''memory''"

definition primary_get :: "(string \<rightharpoonup> quantity) \<Rightarrow> string \<Rightarrow> quantity" where
  "primary_get m r = (case m r of None \<Rightarrow> 0 | Some q \<Rightarrow> q)"

definition add_request :: "(string \<Rightarrow> bool) \<Rightarrow> string \<times> quantity \<Rightarrow> resources \<Rightarrow> resources" where
  "add_request isScalar rq result =
     (let rName = fst rq; rQuantity = snd rq in
      if rName = ResourceMemory then
        result\<lparr>PrimaryResources := (PrimaryResources result)
          (ResourceMemory \<mapsto> rQuantity + primary_get (PrimaryResources result) ResourceMemory)\<rparr>
      else if rName = ResourceCPU then
        result\<lparr>PrimaryResources := (PrimaryResources result)
          (ResourceCPU \<mapsto> rQuantity + primary_get (PrimaryResources result) ResourceCPU)\<rparr>
      else if isScalar rName then
        result\<lparr>ScalarResources := gm_put_alloc (ScalarResources result) rName
          ((case gm_get (ScalarResources result) rName of None \<Rightarrow> 0 | Some w \<Rightarrow> w) +
           word_of_int (Quantity_Value rQuantity))\<rparr>
      else result)"

definition getResourceRequest :: "(string \<Rightarrow> bool) \<Rightarrow> pod \<Rightarrow> resources" where
  "getResourceRequest isScalar p =
     fold (\<lambda>c result. fold (add_request isScalar) (c_Requests c) result) (Containers (pod_Spec p))
       \<lparr>PrimaryResources = [ResourceCPU \<mapsto> 0, ResourceMemory \<mapsto> 0, ResourceNvidiaGPU \<mapsto> 0],
        ScalarResources = None\<rparr>"

text \<open>The specification: sums over all requests of the pod, in no particular order.\<close>

definition pod_requests :: "pod \<Rightarrow> (string \<times> quantity) list" where
  "pod_requests p = concat (map c_Requests (Containers (pod_Spec p)))"

definition requested :: "string \<Rightarrow> (string \<times> quantity) list \<Rightarrow> quantity" where
  "requested r rqs = sum_list (map snd (filter (\<lambda>rq. fst rq = r) rqs))"

definition requested_units :: "string \<Rightarrow> (string \<times> quantity) list \<Rightarrow> int" where
  "requested_units r rqs = sum_list (map (Quantity_Value \<circ> snd) (filter (\<lambda>rq. fst rq = r) rqs))"

definition scalar_name :: "(string \<Rightarrow> bool) \<Rightarrow> string \<Rightarrow> bool" where
  "scalar_name isScalar r \<longleftrightarrow> isScalar r \<and> r \<noteq> ResourceCPU \<and> r \<noteq> ResourceMemory"

lemma getResourceRequest_flat:
  "getResourceRequest isScalar p = fold (add_request isScalar) (pod_requests p)
     \<lparr>PrimaryResources = [ResourceCPU \<mapsto> 0, ResourceMemory \<mapsto> 0, ResourceNvidiaGPU \<mapsto> 0],
      ScalarResources = None\<rparr>"
proof -
  have "fold (\<lambda>c result. fold f (c_Requests c) result) cs r = fold f (concat (map c_Requests cs)) r"
    for cs and r :: resources and f
    by (induction cs arbitrary: r) simp_all
  then show ?thesis by (simp add: getResourceRequest_def pod_requests_def)
qed

lemma add_request_primary:
  "PrimaryResources (add_request isScalar rq result) r =
     (if fst rq = r \<and> (r = ResourceMemory \<or> r = ResourceCPU)
      then Some (snd rq + primary_get (PrimaryResources result) r) else PrimaryResources result r)"
  by (auto simp: add_request_def Let_def)

lemma add_request_scalar:
  "gm_get (ScalarResources (add_request isScalar rq result)) r =
     (if fst rq = r \<and> scalar_name isScalar r
      then Some ((case gm_get (ScalarResources result) r of None \<Rightarrow> 0 | Some w \<Rightarrow> w) +
             word_of_int (Quantity_Value (snd rq)))
      else gm_get (ScalarResources result) r)"
  by (auto simp: add_request_def Let_def scalar_name_def)

lemma fold_requests_primary:
  assumes "r = ResourceMemory \<or> r = ResourceCPU"
  shows "primary_get (PrimaryResources (fold (add_request isScalar) rqs result)) r =
    primary_get (PrimaryResources result) r + requested r rqs"
proof (induction rqs arbitrary: result)
  case Nil
  then show ?case by (simp add: requested_def)
next
  case (Cons rq rqs)
  have "primary_get (PrimaryResources (add_request isScalar rq result)) r =
      primary_get (PrimaryResources result) r + (if fst rq = r then snd rq else 0)"
    using assms by (simp add: primary_get_def add_request_primary split: option.splits)
  with Cons show ?case by (simp add: requested_def)
qed

lemma fold_requests_other:
  "r \<noteq> ResourceMemory \<Longrightarrow> r \<noteq> ResourceCPU \<Longrightarrow>
   PrimaryResources (fold (add_request isScalar) rqs result) r = PrimaryResources result r"
  by (induction rqs arbitrary: result) (simp_all add: add_request_primary)

lemma fold_requests_scalar:
  "gm_get (ScalarResources (fold (add_request isScalar) rqs result)) r =
     (if scalar_name isScalar r \<and> r \<in> fst ` set rqs
      then Some ((case gm_get (ScalarResources result) r of None \<Rightarrow> 0 | Some w \<Rightarrow> w) +
             word_of_int (requested_units r rqs))
      else gm_get (ScalarResources result) r)"
proof (induction rqs arbitrary: result)
  case Nil
  then show ?case by simp
next
  case (Cons rq rqs)
  have none: "requested_units r rqs = 0" if "r \<notin> fst ` set rqs"
  proof -
    have "filter (\<lambda>rq. fst rq = r) rqs = []" using that by (auto simp: filter_empty_conv)
    then show ?thesis by (simp add: requested_units_def)
  qed
  show ?case
    using none
    by (auto simp: Cons.IH add_request_scalar requested_units_def add.assoc split: option.splits)
qed

section \<open>The report\<close>

definition getPodsRequirements :: "(string \<Rightarrow> bool) \<Rightarrow> pod list \<Rightarrow> requirements list" where
  "getPodsRequirements isScalar pods =
     map (\<lambda>p. \<lparr>req_PodName = pod_Name p, req_Resources = getResourceRequest isScalar p,
              req_NodeSelectors = NodeSelector (pod_Spec p)\<rparr>) pods"

definition getReviewSpec :: "(string \<Rightarrow> bool) \<Rightarrow> pod list \<Rightarrow> 32 word \<Rightarrow> review_spec" where
  "getReviewSpec isScalar podTemplates desiredReplicas =
     \<lparr>DesiredReplicas = desiredReplicas, PodRequirements = getPodsRequirements isScalar podTemplates\<rparr>"

definition getReviewStatus :: "pod list \<Rightarrow> sim_status \<Rightarrow> review_status res" where
  "getReviewStatus pods status =
     (case getMainFailReason (st_StopReason status) of
        Ok reason \<Rightarrow>
          map_res (\<lambda>rs. \<lparr>rev_Replicas = word_of_nat (length (st_Pods status)),
                        rev_Reason = Some reason, rev_Pods = rs\<rparr>) (parsePodsReview pods status)
      | Err e \<Rightarrow> Err e
      | Panic p \<Rightarrow> Panic p
      | Hang \<Rightarrow> Hang)"

definition GetReport :: "(string \<Rightarrow> bool) \<Rightarrow> pod list \<Rightarrow> sim_status \<Rightarrow> 32 word \<Rightarrow> review res" where
  "GetReport isScalar pods status desiredReplicas =
     map_res (\<lambda>st. \<lparr>rev_Spec = getReviewSpec isScalar pods desiredReplicas, rev_Status = st\<rparr>)
       (getReviewStatus pods status)"

text \<open>A report of one template on a well-formed reason never panics, and these are its fields.\<close>

lemma assigned_one: "assigned i (Suc 0) 0 ps = map (\<lambda>p. NodeName (pod_Spec p)) ps"
  by (induction ps arbitrary: i) auto

lemma GetReport_one:
  assumes "getMainFailReason (st_StopReason status) = Ok reason"
  shows "\<exists>rv rr. GetReport isScalar [p] status n = Ok rv \<and>
    rev_Spec rv = getReviewSpec isScalar [p] n \<and>
    rev_Replicas (rev_Status rv) = word_of_nat (length (st_Pods status)) \<and>
    rev_Reason (rev_Status rv) = Some reason \<and> rev_Pods (rev_Status rv) = [rr] \<and>
    UsName rr = pod_Name p \<and>
    ReplicasOnNodes rr = fold bump_node (map (\<lambda>q. NodeName (pod_Spec q)) (st_Pods status)) []"
proof -
  obtain rs where rs: "parsePodsReview [p] status = Ok rs" "map UsName rs = [pod_Name p]"
    "ReplicasOnNodes (rs ! 0) = fold bump_node (map (\<lambda>q. NodeName (pod_Spec q)) (st_Pods status)) []"
    using parsePodsReview_Ok [of "[p]" status] by (auto simp: assigned_one)
  then obtain rr where "rs = [rr]" by (cases rs) auto
  with rs assms show ?thesis
    by (auto simp: GetReport_def getReviewStatus_def)
qed

section \<open>Properties\<close>

text \<open>
  \<open>parsePodsReview\<close> distributes the scheduled pods over the templates round robin: pod \<open>i\<close>
  belongs to template \<open>i mod k\<close>. For every template the result lists each node that got one of
  its pods exactly once, with the number of those pods, and \<open>instancesSum\<close> of the list is the
  number of pods of the template. The call does not panic when there is a template.
\<close>

lemma parsePodsReview_counts:
  assumes "templates \<noteq> []"
  shows "\<exists>rs. parsePodsReview templates status = Ok rs \<and> map UsName rs = map pod_Name templates \<and>
    (\<forall>j < length templates.
       let rons = ReplicasOnNodes (rs ! j); a = assigned 0 (length templates) j (st_Pods status)
       in distinct (map ron_NodeName rons) \<and>
          (\<forall>n. ron_map rons n = (if n \<in> set a then Some (int (count_list a n)) else None)) \<and>
          instancesSum rons = int (length a))"
proof -
  obtain rs where rs: "parsePodsReview templates status = Ok rs" "map UsName rs = map pod_Name templates"
    "\<forall>j < length templates. ReplicasOnNodes (rs ! j) =
       fold bump_node (assigned 0 (length templates) j (st_Pods status)) []"
    using parsePodsReview_Ok [OF assms] by blast
  have e: "ron_map [] n = None" "instancesSum [] = 0" for n
    by (simp_all add: ron_map_def instancesSum_def)
  show ?thesis
    using rs bump_nodes_count [of "[]"] instancesSum_bumps [of "[]"]
    by (intro exI [of _ rs]) (simp add: Let_def e)
qed

definition example_pod :: "string \<Rightarrow> string \<Rightarrow> pod" where
  "example_pod name on =
     \<lparr>pod_Name = name, pod_Namespace = ''ns'', pod_UID = [], pod_Annotations = None, pod_Labels = None,
      pod_Spec = empty_spec\<lparr>NodeName := on\<rparr>, pod_Status = empty_status\<rparr>"

lemma parsePodsReview_counts_example:
  "\<exists>rs. parsePodsReview [example_pod ''web'' []]
       \<lparr>st_Pods = [example_pod ''a'' ''n1'', example_pod ''b'' ''n2'', example_pod ''c'' ''n1''],
        st_StopReason = []\<rparr> = Ok rs \<and>
     instancesSum (ReplicasOnNodes (rs ! 0)) = 3 \<and> ron_map (ReplicasOnNodes (rs ! 0)) ''n1'' = Some 2"
proof -
  let ?st = "\<lparr>st_Pods = [example_pod ''a'' ''n1'', example_pod ''b'' ''n2'', example_pod ''c'' ''n1''],
        st_StopReason = []\<rparr>"
  have "[example_pod ''web'' []] \<noteq> []" by simp
  from parsePodsReview_counts [OF this, of ?st] show ?thesis
    by (auto simp: Let_def example_pod_def)
qed

text \<open>
  \<open>getResourceRequest\<close> sums the requests of all containers: cpu and memory exactly, each other
  resource with a scalar name in whole units (rounded up per container) in 64-bit arithmetic, and
  nothing else. The result does not depend on the order in which Go walks the request maps. The
  entry under kubesim's GPU key always stays zero, whatever the pod requests.
\<close>

lemma getResourceRequest_sums:
  "primary_get (PrimaryResources (getResourceRequest isScalar p)) ResourceCPU =
     requested ResourceCPU (pod_requests p) \<and>
   primary_get (PrimaryResources (getResourceRequest isScalar p)) ResourceMemory =
     requested ResourceMemory (pod_requests p) \<and>
   PrimaryResources (getResourceRequest isScalar p) ResourceNvidiaGPU = Some 0 \<and>
   gm_get (ScalarResources (getResourceRequest isScalar p)) r =
     (if scalar_name isScalar r \<and> r \<in> fst ` set (pod_requests p)
      then Some (word_of_int (requested_units r (pod_requests p))) else None)"
proof -
  have gpu: "ResourceNvidiaGPU \<noteq> ResourceMemory" "ResourceNvidiaGPU \<noteq> ResourceCPU"
    by (simp_all add: ResourceNvidiaGPU_def ResourceMemory_def ResourceCPU_def)
  show ?thesis
    using gpu
    by (simp add: getResourceRequest_flat fold_requests_primary fold_requests_other
        fold_requests_scalar, simp add: primary_get_def ResourceMemory_def ResourceCPU_def)
qed

end
