(* ===== verification/Node_Config.thy ===== *)
theory Node_Config
  imports K8s_Objects
begin

text \<open>
  \<open>pkg/node/config.go\<close>: the simulated node built from a node configuration, and the types
  \<open>NodeCapacity\<close> and \<open>NodeConfig\<close> of \<open>pkg/utils/utils.go\<close>.

  \<open>NodeLabels\<close> is a Go map shared by the caller and by every node built from the configuration:
  \<open>BuildNode\<close> writes its five labels into it, so the model returns the configuration as it is left.
  A missing map or a missing capacity, which JSON input may leave nil, panics. Sizes are 64-bit
  and the conversion from mebibytes and gibibytes wraps around. The two fields of the system info
  that name the build platform, and the timestamps, are left out.
\<close>

section \<open>Configuration\<close>

record node_capacity =
  GPUNumber :: "64 word"
  CPU :: "64 word"
  Memory :: "64 word"
  Storage :: "64 word"

record node_config =
  NodeNumber :: int
  NodeCapacity :: "node_capacity option"
  NodeLabels :: smap

definition empty_node_config :: node_config where
  "empty_node_config = \<lparr>NodeNumber = 0, NodeCapacity = None, NodeLabels = nil_map\<rparr>"

section \<open>Building a node\<close>

definition nodeGPU :: string where
  "nodeGPU = ''nvidia.com/gpu''"

definition buildNodeCapacity :: "node_config \<Rightarrow> resource_list res" where
  "buildNodeCapacity cfg =
     (case NodeCapacity cfg of
        None \<Rightarrow> Panic NilDereference
      | Some c \<Rightarrow> Ok
          [(''cpu'', NewMilliQuantity (CPU c)),
           (''memory'', NewQuantity (Memory c * 1024 * 1024)),
           (''ephemeral-storage'', NewQuantity (Storage c * 1024 * 1024 * 1024)),
           (''pods'', NewQuantity 100),
           (nodeGPU, NewQuantity (GPUNumber c))])"

definition buildNodeAllocatable :: "node_config \<Rightarrow> resource_list res" where
  "buildNodeAllocatable cfg =
     (case NodeCapacity cfg of
        None \<Rightarrow> Panic NilDereference
      | Some c \<Rightarrow> Ok
          [(''cpu'', NewMilliQuantity (CPU c)),
           (''memory'', NewQuantity (Memory c * 1024 * 1024)),
           (''ephemeral-storage'', NewQuantity (Storage c * 1024 * 1024 * 1024)),
           (''pods'', NewQuantity 100),
           (nodeGPU, NewQuantity (GPUNumber c))])"

definition buildNodeCondition :: "node_condition list" where
  "buildNodeCondition =
     [\<lparr>nc_Type = ''Ready'', nc_Status = ConditionTrue, nc_Reason = ''KubeletReady'',
       nc_Message = ''kubelet is posting ready status''\<rparr>,
      \<lparr>nc_Type = ''NetworkUnavailable'', nc_Status = ConditionFalse, nc_Reason = ''NetworkIsNotCorrectly'',
       nc_Message = ''Node network is not correctl configured''\<rparr>,
      \<lparr>nc_Type = ''MemoryPressure'', nc_Status = ConditionFalse, nc_Reason = ''KubeletHasSufficientMemory'',
       nc_Message = ''kubelet has sufficient memory available''\<rparr>,
      \<lparr>nc_Type = ''DiskPressure'', nc_Status = ConditionFalse, nc_Reason = ''KubeletHasNoDiskPressure'',
       nc_Message = ''kubelet has no disk pressure''\<rparr>,
      \<lparr>nc_Type = ''PIDPressure'', nc_Status = ConditionFalse, nc_Reason = ''KubeletHasSufficientPID'',
       nc_Message = ''kubelet has sufficient PID available''\<rparr>]"

definition buildNodeSystemInfo :: node_system_info where
  "buildNodeSystemInfo =
     \<lparr>MachineID = ''123ff'', SystemUUID = ''abcff'', BootID = ''1bff3'',
      KernelVersion = ''4.18.0-0.bpo.4-amd64'', OSImage = ''Centos GNU/Linux 7'',
      ContainerRuntimeVersion = ''docker://1.19.0'', KubeletVersion = ''v1.20.4'',
      KubeProxyVersion = ''v1.20.4''\<rparr>"

text \<open>The five writes into the shared label map.\<close>

definition node_labels :: "string \<Rightarrow> (string \<rightharpoonup> string) \<Rightarrow> (string \<rightharpoonup> string)" where
  "node_labels nodeName ls = ls
     (''kubernetes.io/arch'' \<mapsto> ''amd64'',
      ''kubernetes.io/hostname'' \<mapsto> nodeName,
      ''kubernetes.io/os'' \<mapsto> ''linux'',
      ''node-role.kubernetes.io/node'' \<mapsto> [],
      ''provisioner'' \<mapsto> ''kubesim'')"

definition BuildNode :: "node_config \<Rightarrow> string \<Rightarrow> (node_config, node) outcome" where
  "BuildNode cfg nodeName =
     (case NodeLabels cfg of
        None \<Rightarrow> (Panic NilMapWrite, cfg)
      | Some ls \<Rightarrow>
          (let labels = Some (node_labels nodeName ls); cfg' = cfg\<lparr>NodeLabels := labels\<rparr> in
           case buildNodeCapacity cfg' of
             Ok capacity \<Rightarrow>
               (case buildNodeAllocatable cfg' of
                  Ok allocatable \<Rightarrow>
                    (Ok \<lparr>node_Name = nodeName, node_Labels = labels, node_Capacity = capacity,
                        node_Allocatable = allocatable, node_Info = Some buildNodeSystemInfo,
                        node_Conditions = buildNodeCondition,
                        node_Addresses = [(''ExternalIP'', ''127.0.0.1''), (''InternalIP'', ''127.0.0.1'')]\<rparr>,
                     cfg')
                | Err e \<Rightarrow> (Err e, cfg')
                | Panic p \<Rightarrow> (Panic p, cfg')
                | Hang \<Rightarrow> (Hang, cfg'))
           | Err e \<Rightarrow> (Err e, cfg')
           | Panic p \<Rightarrow> (Panic p, cfg')
           | Hang \<Rightarrow> (Hang, cfg')))"

text \<open>A configuration that a node can be built from.\<close>

definition cfg_ok :: "node_config \<Rightarrow> bool" where
  "cfg_ok cfg \<longleftrightarrow> NodeLabels cfg \<noteq> None \<and> NodeCapacity cfg \<noteq> None"

lemma BuildNode_ok:
  assumes "cfg_ok cfg"
  obtains n cfg' where "BuildNode cfg nm = (Ok n, cfg')" and "node_Name n = nm"
    and "node_Labels n = NodeLabels cfg'" and "cfg_ok cfg'" and "NodeNumber cfg' = NodeNumber cfg"
    and "NodeCapacity cfg' = NodeCapacity cfg" and "gm_get (node_Labels n) ''provisioner'' = Some ''kubesim''"
    and "gm_get (node_Labels n) ''kubernetes.io/hostname'' = Some nm"
    and "gm_get (node_Labels n) ''accessSwitch'' = gm_get (NodeLabels cfg) ''accessSwitch''"
proof -
  obtain ls c where "NodeLabels cfg = Some ls" "NodeCapacity cfg = Some c"
    using assms by (auto simp: cfg_ok_def)
  then show thesis
    using that
    by (fastforce simp: BuildNode_def buildNodeCapacity_def buildNodeAllocatable_def Let_def
        cfg_ok_def node_labels_def)
qed

lemma BuildNode_panics_iff: "(\<exists>p cfg'. BuildNode cfg nm = (Panic p, cfg')) \<longleftrightarrow> \<not> cfg_ok cfg"
  by (auto simp: BuildNode_def buildNodeCapacity_def buildNodeAllocatable_def Let_def cfg_ok_def
      split: option.splits)

section \<open>Properties\<close>

text \<open>A size in units of \<open>2 ^ k\<close> bytes that fits 64 bits is converted without wrap-around.\<close>

lemma sint_scaled:
  fixes w :: "64 word"
  assumes "0 \<le> sint w" and "sint w * 2 ^ k < 2 ^ 63"
  shows "sint (w * 2 ^ k) = sint w * 2 ^ k"
proof -
  have "sint (w * 2 ^ k) = signed_take_bit 63 (sint w * 2 ^ k)"
  proof -
    have "w * 2 ^ k = word_of_int (sint w * 2 ^ k)" by simp
    then show ?thesis by (simp only: sint_sbintrunc') simp
  qed
  moreover have "0 \<le> sint w * 2 ^ k" using assms(1) by simp
  ultimately show ?thesis
    using assms(2) by (simp add: signed_take_bit_int_eq_self)
qed

text \<open>
  C6. A node built from a complete configuration carries the requested name, the labels of the
  configuration and those that mark it as kubesim's, and as capacity and as allocatable the same five
  resources and no others: CPU in thousandths of a core, memory in MiB and storage in GiB of the
  configuration, exact when the byte count fits 63 bits, GPUs, and room for 100 pods. Quantities are counted in
  \<open>10 ^ -9\<close> of their unit. The node shares the label map of the configuration, which keeps what is written.
\<close>

theorem BuildNode_resources:
  assumes "NodeLabels cfg = Some ls" and "NodeCapacity cfg = Some c"
    and "0 \<le> sint (Memory c)" and "sint (Memory c) * 2 ^ 20 < 2 ^ 63"
    and "0 \<le> sint (Storage c)" and "sint (Storage c) * 2 ^ 30 < 2 ^ 63"
  shows "\<exists>n cfg'. BuildNode cfg nm = (Ok n, cfg') \<and> node_Name n = nm \<and>
    node_Capacity n = node_Allocatable n \<and>
    map_of (node_Capacity n) ''cpu'' = Some (sint (CPU c) * 10 ^ 6) \<and>
    map_of (node_Capacity n) ''memory'' = Some (sint (Memory c) * 2 ^ 20 * 10 ^ 9) \<and>
    map_of (node_Capacity n) ''ephemeral-storage'' = Some (sint (Storage c) * 2 ^ 30 * 10 ^ 9) \<and>
    map_of (node_Capacity n) ''pods'' = Some (100 * 10 ^ 9) \<and>
    map_of (node_Capacity n) ''nvidia.com/gpu'' = Some (sint (GPUNumber c) * 10 ^ 9) \<and>
    length (node_Capacity n) = 5 \<and>
    gm_get (node_Labels n) ''provisioner'' = Some ''kubesim'' \<and>
    gm_get (node_Labels n) ''kubernetes.io/hostname'' = Some nm \<and>
    (\<forall>l. l \<notin> {''kubernetes.io/arch'', ''kubernetes.io/hostname'', ''kubernetes.io/os'', ''node-role.kubernetes.io/node'',
        ''provisioner''} \<longrightarrow> gm_get (node_Labels n) l = ls l) \<and>
    NodeLabels cfg' = node_Labels n"
proof -
  have "sint (Memory c * 1024 * 1024) = sint (Memory c) * 2 ^ 20"
    using sint_scaled [OF assms(3,4)] by (simp add: mult.assoc)
  moreover have "sint (Storage c * 1024 * 1024 * 1024) = sint (Storage c) * 2 ^ 30"
    using sint_scaled [OF assms(5,6)] by (simp add: mult.assoc)
  ultimately show ?thesis
    using assms(1,2)
    by (simp add: BuildNode_def buildNodeCapacity_def buildNodeAllocatable_def Let_def node_labels_def
        NewQuantity_def NewMilliQuantity_def nodeGPU_def)
qed

definition example_config :: node_config where
  "example_config =
     \<lparr>NodeNumber = 3,
      NodeCapacity = Some \<lparr>GPUNumber = 0, CPU = 4000, Memory = 8192, Storage = 100\<rparr>,
      NodeLabels = make_map\<rparr>"

lemma example_config_ok: "cfg_ok example_config"
  by (simp add: cfg_ok_def example_config_def make_map_def)

theorem BuildNode_resources_witness:
  "\<exists>n cfg'. BuildNode example_config ''fake-1'' = (Ok n, cfg') \<and>
    map_of (node_Capacity n) ''memory'' = Some (8192 * 2 ^ 20 * 10 ^ 9) \<and>
    gm_get (node_Labels n) ''provisioner'' = Some ''kubesim''"
  using BuildNode_resources [of example_config Map.empty
      "\<lparr>GPUNumber = 0, CPU = 4000, Memory = 8192, Storage = 100\<rparr>" "''fake-1''"]
  by (auto simp: example_config_def make_map_def)

text \<open>
  Beyond 63 bits the conversion wraps silently: a configuration asking for \<open>2 ^ 34\<close> GiB of
  storage per node builds nodes whose storage is zero.
\<close>

lemma BuildNode_storage_wraps:
  assumes "NodeLabels cfg = Some ls" and "NodeCapacity cfg = Some c" and "Storage c = 2 ^ 34"
  shows "\<exists>n cfg'. BuildNode cfg nm = (Ok n, cfg') \<and>
    map_of (node_Capacity n) ''ephemeral-storage'' = Some 0"
  using assms
  by (simp add: BuildNode_def buildNodeCapacity_def buildNodeAllocatable_def Let_def NewQuantity_def)

lemma BuildNode_storage_wraps_example:
  "\<exists>n cfg'. BuildNode (example_config\<lparr>NodeCapacity :=
       Some \<lparr>GPUNumber = 0, CPU = 1, Memory = 1, Storage = 2 ^ 34\<rparr>\<rparr>) ''x'' = (Ok n, cfg') \<and>
    map_of (node_Capacity n) ''ephemeral-storage'' = Some 0"
  using BuildNode_storage_wraps [of "example_config\<lparr>NodeCapacity :=
       Some \<lparr>GPUNumber = 0, CPU = 1, Memory = 1, Storage = 2 ^ 34\<rparr>\<rparr>" Map.empty
      "\<lparr>GPUNumber = 0, CPU = 1, Memory = 1, Storage = 2 ^ 34\<rparr>" "''x''"]
  by (simp add: example_config_def make_map_def)

end
