(* ===== verification/Parse_Utils.thy ===== *)
theory Parse_Utils
  imports Node_Config
begin

text \<open>
  The request parsers of \<open>pkg/utils/utils.go\<close>: how the deployments and stateful sets of a request
  become the pods to simulate.

  JSON decoding is a parameter: a parser receives what \<open>json.Decoder.Decode\<close> gave, an error or the
  decoded value. Fresh UUIDs are the values of a supply \<open>uuid :: nat \<Rightarrow> string\<close>, read from a
  counter. A deployment and a stateful set have the same fields here (\<open>workload\<close>).
\<close>

section \<open>Requests\<close>

record workload =
  w_Kind :: string
  w_Name :: string
  w_Namespace :: string
  w_Annotations :: smap
  w_Replicas :: "32 word option"
  w_MatchLabels :: "smap option"
  w_TemplateLabels :: smap
  w_TemplateSpec :: pod_spec

record pod_request =
  pr_Pod :: "pod option"
  pr_Replicas :: "32 word"
  pr_Kind :: string

record pods_info =
  pi_Name :: string
  pi_NameSpace :: string
  pi_TargetNodeName :: string

record pods_config =
  pc_Op :: string
  pc_Pods :: "pods_info list"

record apps =
  a_Nodes :: "node_config list"
  a_DeployApps :: "workload option list"
  a_StatefulsetApps :: "workload option list"

record app_group =
  EmulatorType :: string
  ag_Nodes :: "node_config list"
  ag_Apps :: "pod_request list"
  ag_OldPods :: "pod list"
  ag_PodsConfig :: "pods_config option"

text \<open>The zero value of \<open>PodRequest\<close>: its pod is nil.\<close>

definition zero_request :: pod_request where
  "zero_request = \<lparr>pr_Pod = None, pr_Replicas = 0, pr_Kind = []\<rparr>"

definition zero_workload :: workload where
  "zero_workload =
     \<lparr>w_Kind = [], w_Name = [], w_Namespace = [], w_Annotations = None, w_Replicas = None,
      w_MatchLabels = None, w_TemplateLabels = None, w_TemplateSpec = empty_spec\<rparr>"

section \<open>Parsing\<close>

definition lower_char :: "char \<Rightarrow> char" where
  "lower_char c =
     (let n = (of_char c :: nat) in if 65 \<le> n \<and> n \<le> 90 then char_of (n + 32) else c)"

definition ToLower :: "string \<Rightarrow> string" where
  "ToLower s = map lower_char s"

definition DefaultSchedulerName :: string where
  "DefaultSchedulerName = ''default-scheduler''"

definition getDefaultSchedulerName :: "string \<Rightarrow> string" where
  "getDefaultSchedulerName dsn = (if length dsn = 0 then DefaultSchedulerName else dsn)"

definition GetUID :: "string \<Rightarrow> string \<Rightarrow> string" where
  "GetUID fresh uid = (if length uid = 0 then fresh else uid)"

definition default_scheduler :: "pod_spec \<Rightarrow> pod_spec" where
  "default_scheduler spec =
     (if length (SchedulerName spec) = 0
      then spec\<lparr>SchedulerName := getDefaultSchedulerName DefaultSchedulerName\<rparr> else spec)"

definition workload_pod :: "string \<Rightarrow> workload \<Rightarrow> pod" where
  "workload_pod fresh w =
     \<lparr>pod_Name = w_Name w, pod_Namespace = w_Namespace w, pod_UID = GetUID fresh [],
      pod_Annotations = w_Annotations w, pod_Labels = w_TemplateLabels w,
      pod_Spec = default_scheduler (w_TemplateSpec w), pod_Status = empty_status\<rparr>"

text \<open>
  The warning for a missing or zero replica count formats \<open>*deploy.Spec.Replicas\<close>, so a nil
  pointer is dereferenced before the default of one replica is taken.
\<close>

definition replicas_or_one :: "32 word option \<Rightarrow> 32 word res" where
  "replicas_or_one r =
     (case r of None \<Rightarrow> Panic NilDereference | Some n \<Rightarrow> if n = 0 then Ok 1 else Ok n)"

definition ParseDeployToPod :: "string \<Rightarrow> workload \<Rightarrow> (pod \<times> 32 word) res" where
  "ParseDeployToPod fresh deploy =
     (if ToLower (w_Kind deploy) \<noteq> ''deployment'' then Err (Msg ''invalid Deployment resource'')
      else map_res (\<lambda>n. (workload_pod fresh deploy, n)) (replicas_or_one (w_Replicas deploy)))"

definition ParseStatefulSetToPod :: "string \<Rightarrow> workload \<Rightarrow> (pod \<times> 32 word) res" where
  "ParseStatefulSetToPod fresh statefulset =
     (if ToLower (w_Kind statefulset) \<noteq> ''statefulset'' then Err (Msg ''invalid StatefulSet resource'')
      else map_res (\<lambda>n. (workload_pod fresh statefulset, n)) (replicas_or_one (w_Replicas statefulset)))"

text \<open>
  \<open>ParseToPod\<close> decodes into a local whose error it shadows, and ends in \<open>return v1Pod, replicas, nil\<close>.
  The arguments are what the decoder left in the local.
\<close>

definition ParseToPod :: "string \<Rightarrow> string \<Rightarrow> workload \<Rightarrow> (pod option \<times> 32 word) res" where
  "ParseToPod fresh rc dm =
     (let rc = ToLower rc;
          ignore = (\<lambda>r. case r of
             Ok (p, n) \<Rightarrow> Ok (Some p, n) | Err e \<Rightarrow> Ok (None, 0) | Panic q \<Rightarrow> Panic q | Hang \<Rightarrow> Hang)
      in if rc = ''deployment'' then ignore (ParseDeployToPod fresh dm)
         else if rc = ''statefulset'' then ignore (ParseStatefulSetToPod fresh dm)
         else Ok (None, 0))"

text \<open>The loop over the workloads; a JSON array may hold null pointers.\<close>

fun parse_each ::
  "(string \<Rightarrow> workload \<Rightarrow> (pod \<times> 32 word) res) \<Rightarrow> (nat \<Rightarrow> string) \<Rightarrow> nat \<Rightarrow> string \<Rightarrow>
   workload option list \<Rightarrow> pod_request list res" where
  "parse_each parse uuid i rc [] = Ok []"
| "parse_each parse uuid i rc (None # ws) = Panic NilDereference"
| "parse_each parse uuid i rc (Some w # ws) =
     (case parse (uuid i) w of
        Ok (p, n) \<Rightarrow>
          map_res (\<lambda>rs. \<lparr>pr_Pod = Some p, pr_Replicas = n, pr_Kind = rc\<rparr> # rs)
            (parse_each parse uuid (Suc i) rc ws)
      | Err e \<Rightarrow> Err (Wrap ''ParseToPod, json unmarshal err'' e)
      | Panic q \<Rightarrow> Panic q
      | Hang \<Rightarrow> Hang)"

definition AppsParseToPod ::
  "(nat \<Rightarrow> string) \<Rightarrow> nat \<Rightarrow> string \<Rightarrow> gerr + apps \<Rightarrow> (node_config list \<times> pod_request list) res" where
  "AppsParseToPod uuid i rc decoded =
     (let rc = ToLower rc in
      if rc = ''deployment'' then
        (case decoded of
           Inl e \<Rightarrow> Err (Wrap ''ParseToPod: json unmarshal err'' e)
         | Inr dm \<Rightarrow> map_res (\<lambda>rs. (a_Nodes dm, rs))
             (parse_each ParseDeployToPod uuid i rc (a_DeployApps dm)))
      else if rc = ''statefulset'' then
        (case decoded of
           Inl e \<Rightarrow> Err (Wrap ''ParseToPod: json unmarshal err'' e)
         | Inr dm \<Rightarrow> map_res (\<lambda>rs. (a_Nodes dm, rs))
             (parse_each ParseStatefulSetToPod uuid i rc (a_StatefulsetApps dm)))
      else Ok ([], []))"

definition PodsConfigParse :: "gerr + pods_config \<Rightarrow> pods_config res" where
  "PodsConfigParse decoded =
     (case decoded of Inl e \<Rightarrow> Err (Wrap ''Parse to PodsConfig, json unmarshal err'' e) | Inr c \<Rightarrow> Ok c)"

definition NodeConfigParse :: "gerr + node_config \<Rightarrow> node_config res" where
  "NodeConfigParse decoded =
     (case decoded of Inl e \<Rightarrow> Err (Wrap ''Parse to NodeConfig, json unmarshal err'' e) | Inr c \<Rightarrow> Ok c)"

section \<open>What the parsers give\<close>

lemma replicas_or_one_pos: "replicas_or_one r = Ok n \<Longrightarrow> n \<noteq> 0"
  by (auto simp: replicas_or_one_def split: option.splits if_splits)

lemma map_res_Ok: "map_res f r = Ok y \<longleftrightarrow> (\<exists>x. r = Ok x \<and> y = f x)"
  by (cases r) auto

text \<open>A request the simulation can run: it has a pod and a replica count other than zero.\<close>

definition runnable :: "pod_request \<Rightarrow> bool" where
  "runnable r \<longleftrightarrow> pr_Pod r \<noteq> None \<and> pr_Replicas r \<noteq> 0"

lemma parse_each_runnable:
  assumes "parse_each parse uuid i rc ws = Ok rs"
    and "\<And>u w p n. parse u w = Ok (p, n) \<Longrightarrow> n \<noteq> 0"
  shows "length rs = length ws \<and> (\<forall>r \<in> set rs. runnable r \<and> pr_Kind r = rc)"
  using assms
proof (induction parse uuid i rc ws arbitrary: rs rule: parse_each.induct)
  case (3 parse uuid i rc w ws)
  then obtain p n rs' where "parse (uuid i) w = Ok (p, n)"
    and "parse_each parse uuid (Suc i) rc ws = Ok rs'"
    and "rs = \<lparr>pr_Pod = Some p, pr_Replicas = n, pr_Kind = rc\<rparr> # rs'"
    by (auto simp: map_res_Ok split: res.splits)
  with "3.IH" [of "(p, n)" p n rs'] "3.prems" show ?case
    by (simp add: runnable_def)
qed simp_all

lemma ParseDeployToPod_pos: "ParseDeployToPod u w = Ok (p, n) \<Longrightarrow> n \<noteq> 0"
  by (auto simp: ParseDeployToPod_def map_res_Ok split: if_splits dest: replicas_or_one_pos)

lemma ParseStatefulSetToPod_pos: "ParseStatefulSetToPod u w = Ok (p, n) \<Longrightarrow> n \<noteq> 0"
  by (auto simp: ParseStatefulSetToPod_def map_res_Ok split: if_splits dest: replicas_or_one_pos)

section \<open>Properties\<close>

text \<open>
  What \<open>AppsParseToPod\<close> accepts can be simulated: every request it returns has a pod and a
  replica count other than zero, and carries the lower-cased kind of the URL. The result has one
  request per workload of that kind; any other kind gives no request and no error.
\<close>

lemma AppsParseToPod_runnable:
  assumes "AppsParseToPod uuid i rc (Inr dm) = Ok (nodes, rs)"
  shows "(\<forall>r \<in> set rs. runnable r \<and> pr_Kind r = ToLower rc) \<and>
    length rs = (if ToLower rc = ''deployment'' then length (a_DeployApps dm)
                 else if ToLower rc = ''statefulset'' then length (a_StatefulsetApps dm) else 0)"
proof -
  have "parse_each ParseDeployToPod uuid i rc' ws = Ok rs \<Longrightarrow>
      length rs = length ws \<and> (\<forall>r \<in> set rs. runnable r \<and> pr_Kind r = rc')" for rc' ws
    by (erule parse_each_runnable) (rule ParseDeployToPod_pos)
  moreover have "parse_each ParseStatefulSetToPod uuid i rc' ws = Ok rs \<Longrightarrow>
      length rs = length ws \<and> (\<forall>r \<in> set rs. runnable r \<and> pr_Kind r = rc')" for rc' ws
    by (erule parse_each_runnable) (rule ParseStatefulSetToPod_pos)
  ultimately show ?thesis
    using assms by (simp add: AppsParseToPod_def Let_def map_res_Ok split: if_splits) blast+
qed

lemma ToLower_examples:
  "ToLower ''DEPLOYMENT'' = ''deployment''" "ToLower ''Deployment'' = ''deployment''"
  "ToLower ''deployment'' = ''deployment''" "ToLower ''statefulset'' = ''statefulset''"
  "ToLower ''StatefulSet'' = ''statefulset''"
  by code_simp+

definition example_workload :: "string \<Rightarrow> 32 word option \<Rightarrow> workload" where
  "example_workload kind n = zero_workload\<lparr>w_Kind := kind, w_Name := ''nginx'', w_Replicas := n\<rparr>"

lemma AppsParseToPod_runnable_example:
  "\<exists>nodes rs. AppsParseToPod (\<lambda>i. ''u'') 0 ''DEPLOYMENT''
     (Inr \<lparr>a_Nodes = [], a_DeployApps = [Some (example_workload ''Deployment'' (Some 3)),
           Some (example_workload ''deployment'' (Some 0))], a_StatefulsetApps = []\<rparr>) = Ok (nodes, rs) \<and>
     length rs = 2 \<and> (\<forall>r \<in> set rs. runnable r \<and> pr_Kind r = ''deployment'')"
proof -
  let ?dm = "\<lparr>a_Nodes = [], a_DeployApps = [Some (example_workload ''Deployment'' (Some 3)),
           Some (example_workload ''deployment'' (Some 0))], a_StatefulsetApps = []\<rparr>"
  obtain rs where rs: "AppsParseToPod (\<lambda>i. ''u'') 0 ''DEPLOYMENT'' (Inr ?dm) = Ok ([], rs)"
    by (auto simp: AppsParseToPod_def Let_def ToLower_examples ParseDeployToPod_def example_workload_def
        replicas_or_one_def)
  from AppsParseToPod_runnable [OF this] show ?thesis
    using rs by (auto simp: ToLower_examples)
qed

text \<open>
  A workload of the right kind whose \<open>replicas\<close> is missing makes the parser panic on the nil
  pointer, where the code around it means to use one replica.
\<close>

lemma Parse_nil_replicas_panics:
  assumes "w_Replicas w = None"
  shows "(ToLower (w_Kind w) = ''deployment'' \<longrightarrow> ParseDeployToPod u w = Panic NilDereference) \<and>
    (ToLower (w_Kind w) = ''statefulset'' \<longrightarrow> ParseStatefulSetToPod u w = Panic NilDereference)"
  using assms by (simp add: ParseDeployToPod_def ParseStatefulSetToPod_def replicas_or_one_def)

lemma Parse_nil_replicas_panics_example:
  "ParseDeployToPod ''u'' (example_workload ''Deployment'' None) = Panic NilDereference"
  using Parse_nil_replicas_panics [of "example_workload ''Deployment'' None" "''u''"]
  by (simp add: example_workload_def ToLower_examples)

end
