(* ===== verification/Kubesim_State.thy ===== *)
theory Kubesim_State
  imports Strategy Fifo_Queue Report Parse_Utils
begin

text \<open>
  The simulator object \<open>Kubesim\<close> of \<open>pkg/scheduler/simulator.go\<close> and the operations that schedule
  one pod after another: \<open>UpdatePodRequest\<close>, \<open>nextPod\<close>, \<open>Bind\<close>, \<open>Update\<close>, \<open>Close\<close>, \<open>Report\<close>.

  \<open>kubesim\<close> has the fields of the struct that its operations read or write; \<open>externalkubeclient\<close> is
  the simulated cluster, \<open>draws\<close> counts the UUIDs drawn so far. \<open>env\<close> holds what kubesim gets from
  outside: fresh UUIDs, the kube-scheduler's decision for a pending pod, the dump of the
  scheduler's cache, the capacity the Go runtime gives to a slice grown by \<open>append\<close>, and the order
  in which Go ranges over a map.

  Two handlers end a round by sending on the unbuffered channel \<open>stop\<close>: they return \<open>BindStop\<close>, or
  a positive count of sends; the receive is in the theory \<open>Scheduling\<close>.
\<close>

section \<open>State\<close>

datatype decision = BindTo string | Unschedulable string | NotYet

text \<open>A node in the dump of the scheduler's cache: its pods, and the resources used and allocatable.\<close>

record cached_node =
  cn_Pods :: nat
  cn_UsedMilliCPU :: int
  cn_UsedMemory :: int
  cn_AllocMilliCPU :: int
  cn_AllocMemory :: int

record env =
  e_uuid :: "nat \<Rightarrow> string"
  e_isScalar :: "string \<Rightarrow> bool"
  e_schedule :: "nat \<Rightarrow> nat \<Rightarrow> tracker \<Rightarrow> pod \<Rightarrow> decision"
  e_cache :: "tracker \<Rightarrow> (string \<times> cached_node) list"
  e_cap :: "nat \<Rightarrow> nat"
  e_order :: "(string \<times> string list) list \<Rightarrow> (string \<times> string list) list"

record kubesim =
  addNodeStrategy :: string
  externalkubeclient :: tracker
  defaultSchedulerName :: string
  simulatedPod :: "pod option"
  lastSimulatedPod :: "pod option"
  maxSimulated :: "32 word"
  simulated :: "32 word"
  status :: sim_status
  ks_report :: "review option"
  emulatorResult :: "string \<rightharpoonup> review list option"
  predictionNode :: "string \<rightharpoonup> prediction_node_review"
  fifoQueue :: "app_group fifo"
  informerStopCh :: chan
  schedulerCh :: chan
  stop :: chan
  stopped :: bool
  closed :: bool
  draws :: nat

definition podProvisioner :: string where
  "podProvisioner = ''kubesim.kubernetes.io/provisioned''"

text \<open>\<open>New\<close>: the channels are not made; they stay nil until the first request.\<close>

definition New :: "string \<Rightarrow> tracker \<Rightarrow> kubesim" where
  "New addStrategy client =
     \<lparr>addNodeStrategy = addStrategy, externalkubeclient = client,
      defaultSchedulerName = DefaultSchedulerName, simulatedPod = None, lastSimulatedPod = None,
      maxSimulated = 0, simulated = 0, status = \<lparr>st_Pods = [], st_StopReason = []\<rparr>,
      ks_report = None, emulatorResult = Map.empty, predictionNode = Map.empty,
      fifoQueue = NewFIFOQueue, informerStopCh = ChanNil, schedulerCh = ChanNil, stop = ChanNil,
      stopped = False, closed = False, draws = 0\<rparr>"

section \<open>Reports and requests\<close>

definition Report :: "env \<Rightarrow> kubesim \<Rightarrow> (kubesim, review) outcome" where
  "Report env ks =
     (case simulatedPod ks of
        None \<Rightarrow> (Panic NilDereference, ks)
      | Some p \<Rightarrow>
          (case GetReport (e_isScalar env) [p] (status ks) (maxSimulated ks) of
             Ok r \<Rightarrow> (Ok r, ks\<lparr>ks_report := Some r\<rparr>)
           | Err e \<Rightarrow> (Err e, ks)
           | Panic q \<Rightarrow> (Panic q, ks)
           | Hang \<Rightarrow> (Hang, ks)))"

definition CleanStatusPods :: "kubesim \<Rightarrow> kubesim" where
  "CleanStatusPods ks =
     ks\<lparr>status := (status ks)\<lparr>st_Pods := []\<rparr>, ks_report := Some empty_review\<rparr>"

definition UpdatePodRequest :: "pod option \<Rightarrow> 32 word \<Rightarrow> kubesim \<Rightarrow> kubesim" where
  "UpdatePodRequest p replicas ks =
     ks\<lparr>simulatedPod := p, maxSimulated := replicas, simulated := 0,
        stop := ChanOpen, informerStopCh := ChanOpen, schedulerCh := ChanOpen\<rparr>"

section \<open>Closing\<close>

definition Close :: "kubesim \<Rightarrow> (kubesim, unit) outcome" where
  "Close ks =
     (if closed ks then (Ok (), ks)
      else
        (case close_chan (schedulerCh ks) of
           Ok c \<Rightarrow>
             (let ks1 = ks\<lparr>schedulerCh := c\<rparr> in
              case close_chan (informerStopCh ks1) of
                Ok d \<Rightarrow> (Ok (), ks1\<lparr>informerStopCh := d, closed := True\<rparr>)
              | Err e \<Rightarrow> (Err e, ks1)
              | Panic q \<Rightarrow> (Panic q, ks1)
              | Hang \<Rightarrow> (Hang, ks1))
         | Err e \<Rightarrow> (Err e, ks)
         | Panic q \<Rightarrow> (Panic q, ks)
         | Hang \<Rightarrow> (Hang, ks)))"

definition closeable :: "kubesim \<Rightarrow> bool" where
  "closeable ks \<longleftrightarrow> closed ks \<or> (schedulerCh ks = ChanOpen \<and> informerStopCh ks = ChanOpen)"

definition closing :: "kubesim \<Rightarrow> kubesim" where
  "closing ks = (if closed ks then ks
     else ks\<lparr>schedulerCh := ChanClosed, informerStopCh := ChanClosed, closed := True\<rparr>)"

lemma Close_closeable: "closeable ks \<Longrightarrow> Close ks = (Ok (), closing ks)"
  by (auto simp: Close_def closeable_def closing_def Let_def)

lemma closeable_UpdatePodRequest [simp]: "closeable (UpdatePodRequest p n ks)"
  by (simp add: closeable_def UpdatePodRequest_def)

text \<open>Once closed, \<open>Close\<close> does nothing, whatever happens to the channels.\<close>

lemma Close_idem: "Close ks = (Ok (), ks') \<Longrightarrow> Close ks' = (Ok (), ks')"
  by (auto simp: Close_def Let_def split: if_splits res.splits)

section \<open>The next pod\<close>

definition simulated_pod :: "env \<Rightarrow> kubesim \<Rightarrow> pod \<Rightarrow> pod" where
  "simulated_pod env ks sp =
     sp\<lparr>pod_Name := pod_Name sp @ ''-'' @ take 7 (e_uuid env (draws ks)),
        pod_UID := e_uuid env (Suc (draws ks)),
        pod_Spec := (pod_Spec sp)\<lparr>NodeName := [], SchedulerName := defaultSchedulerName ks\<rparr>,
        pod_Annotations := gm_put_alloc (pod_Annotations sp) podProvisioner (defaultSchedulerName ks),
        pod_Labels := gm_put_alloc (pod_Labels sp) ''provisioner'' ''kubesim''\<rparr>"

definition nextPod :: "env \<Rightarrow> kubesim \<Rightarrow> (kubesim, unit) outcome" where
  "nextPod env ks =
     (case simulatedPod ks of
        None \<Rightarrow> (Panic NilDereference, ks)
      | Some sp \<Rightarrow>
          (let p = simulated_pod env ks sp;
               ks1 = ks\<lparr>simulated := simulated ks + 1, lastSimulatedPod := Some p,
                        draws := draws ks + 2\<rparr>
           in case create_obj Pods (PodObj p) (externalkubeclient ks1) of
                Inl e \<Rightarrow> (Err (ApiErr e), ks1)
              | Inr t \<Rightarrow> (Ok (), ks1\<lparr>externalkubeclient := t\<rparr>)))"

section \<open>A pod is bound\<close>

datatype bind_end = BindDone | BindStop

definition bound_pod :: "pod \<Rightarrow> string \<Rightarrow> pod" where
  "bound_pod p nodeName = running (p\<lparr>pod_Spec := (pod_Spec p)\<lparr>NodeName := nodeName\<rparr>\<rparr>)"

definition Bind :: "env \<Rightarrow> pod \<Rightarrow> string \<Rightarrow> kubesim \<Rightarrow> (kubesim, bind_end) outcome" where
  "Bind env p nodeName ks =
     (case tracker_Get Pods (pod_Namespace p) (pod_Name p) (externalkubeclient ks) of
        Inl e \<Rightarrow> (Err (Wrap ''Unable to bind'' (ApiErr e)), ks)
      | Inr obj \<Rightarrow>
          (case the_pod obj of
             None \<Rightarrow> (Panic NilDereference, ks)
           | Some q \<Rightarrow>
               (let updatedPod = bound_pod q nodeName in
                case strategy_Add (PodObj updatedPod) (externalkubeclient ks) of
                  Inl e \<Rightarrow> (Err (Wrap ''Unable to recompute new cluster state'' e), ks)
                | Inr t \<Rightarrow>
                    (let ks1 = ks\<lparr>externalkubeclient := t,
                           status := (status ks)\<lparr>st_Pods := st_Pods (status ks) @ [updatedPod]\<rparr>\<rparr>
                     in if 0 <s maxSimulated ks1 \<and> maxSimulated ks1 \<le>s simulated ks1
                        then
                          (let ks2 = ks1\<lparr>status := (status ks1)\<lparr>st_StopReason :=
                                 ''Schedulable: Schedule the number of simulated pods: '' @
                                 string_of_int (sint (maxSimulated ks1))\<rparr>\<rparr>
                           in seq (Close ks2) (\<lambda>_ ks3. (Ok BindStop, ks3)) id)
                        else
                          (case nextPod env ks1 of
                             (Ok _, ks2) \<Rightarrow> (Ok BindDone, ks2)
                           | (Err e, ks2) \<Rightarrow> (Err (Wrap ''Unable to create next pod to schedule'' e), ks2)
                           | (Panic x, ks2) \<Rightarrow> (Panic x, ks2)
                           | (Hang, ks2) \<Rightarrow> (Hang, ks2))))))"

section \<open>A pod cannot be scheduled\<close>

definition CleanPendingPod :: "pod \<Rightarrow> kubesim \<Rightarrow> (kubesim, unit) outcome" where
  "CleanPendingPod p ks =
     (case tracker_Delete Pods (pod_Namespace p) (pod_Name p) (externalkubeclient ks) of
        Inl e \<Rightarrow> (Err (Wrap ''unable to delete pod'' (ApiErr e)), ks)
      | Inr t \<Rightarrow> (Ok (), ks\<lparr>externalkubeclient := t\<rparr>))"

definition is_unschedulable :: "pod_condition \<Rightarrow> bool" where
  "is_unschedulable c \<longleftrightarrow>
     cond_Type c = PodScheduled \<and> cond_Status c = ConditionFalse \<and> cond_Reason c = ''Unschedulable''"

text \<open>\<open>Update\<close> returns whether it sends on \<open>stop\<close>; the error of \<open>CleanPendingPod\<close> is dropped.\<close>

definition Update :: "pod \<Rightarrow> pod_condition \<Rightarrow> kubesim \<Rightarrow> (kubesim, bool) outcome" where
  "Update p c ks =
     (if is_unschedulable c \<and> gm_get (pod_Annotations p) podProvisioner \<noteq> None
      then
        (let ks1 = ks\<lparr>status := (status ks)\<lparr>st_StopReason := cond_Reason c @ '': '' @ cond_Message c\<rparr>\<rparr>
         in seq (Close ks1)
              (\<lambda>_ ks2. (Ok True, snd (CleanPendingPod p (ks2\<lparr>stopped := True\<rparr>)))) id)
      else (Ok False, ks))"

text \<open>The update handler of the pod informer, registered by \<open>createScheduler\<close>.\<close>

fun condition_loop :: "pod \<Rightarrow> pod_condition list \<Rightarrow> kubesim \<Rightarrow> (kubesim, nat) outcome" where
  "condition_loop p [] ks = (Ok 0, ks)"
| "condition_loop p (c # cs) ks =
     (if cond_Type c = PodScheduled
      then seq (Update p c ks)
             (\<lambda>sent ks1. seq (condition_loop p cs ks1)
                (\<lambda>n ks2. (Ok (n + (if sent then 1 else 0)), ks2)) id) id
      else condition_loop p cs ks)"

definition pod_update_handler :: "pod \<Rightarrow> kubesim \<Rightarrow> (kubesim, nat) outcome" where
  "pod_update_handler p ks =
     (if SchedulerName (pod_Spec p) = defaultSchedulerName ks
      then condition_loop p (Conditions (pod_Status p)) ks
      else (Ok 0, ks))"

text \<open>The handler does nothing on a pod without an unschedulable condition.\<close>

lemma condition_loop_idle:
  "\<forall>c \<in> set cs. \<not> is_unschedulable c \<Longrightarrow> condition_loop p cs ks = (Ok 0, ks)"
  by (induction cs) (auto simp: Update_def)

lemma pod_update_handler_idle:
  "\<forall>c \<in> set (Conditions (pod_Status p)). \<not> is_unschedulable c \<Longrightarrow> pod_update_handler p ks = (Ok 0, ks)"
  by (simp add: pod_update_handler_def condition_loop_idle)

section \<open>Cleaning the cluster\<close>

text \<open>
  \<open>CleanPod\<close> lists the pods with kubesim's label and deletes them, until a list is empty. Each
  round that does not fail removes a pod, so the loop ends.
\<close>

lemma delete_key_shrinks: "delete_key g k t = Inr t' \<Longrightarrow> length (t' g) < length (t g)"
proof -
  assume a: "delete_key g k t = Inr t'"
  then obtain x where "map_of (t g) k = Some x" and t': "t' g = AList.delete k (t g)"
    by (auto simp: delete_key_eq objs_def split: option.splits)
  then have "(k, x) \<in> set (t g)" by (simp add: map_of_SomeD)
  then have "length (filter (\<lambda>(k', _). k \<noteq> k') (t g)) < length (t g)"
    by (intro length_filter_less) auto
  with t' show ?thesis by (simp add: AList.delete_eq)
qed

lemma delete_each_shrinks:
  "delete_each (delete_key g) ks t = (None, t') \<Longrightarrow> length (t' g) \<le> length (t g) \<and>
   (ks \<noteq> [] \<longrightarrow> length (t' g) < length (t g))"
proof (induction ks arbitrary: t)
  case (Cons k ks)
  then obtain t1 where "delete_key g k t = Inr t1" "delete_each (delete_key g) ks t1 = (None, t')"
    by (auto split: sum.splits)
  with Cons.IH [of t1] delete_key_shrinks [of g k t t1] show ?case by simp
qed simp

function clean_loop :: "tracker \<Rightarrow> (tracker, unit) outcome" where
  "clean_loop t =
     (let items = list_pods [] kubesim_selector t in
      if items = [] then (Ok (), t)
      else
        (case delete_each (delete_key Pods) (map pod_key items) t of
           (Some e, t') \<Rightarrow> (Err (Wrap ''unable to delete pod'' (ApiErr e)), t')
         | (None, t') \<Rightarrow> clean_loop t'))"
  by pat_completeness auto
termination
  by (relation "measure (\<lambda>t. length (t Pods))") (auto dest: delete_each_shrinks [OF sym])

declare clean_loop.simps [simp del]

definition CleanPod :: "kubesim \<Rightarrow> (kubesim, unit) outcome" where
  "CleanPod ks =
     (case clean_loop (externalkubeclient ks) of (r, t) \<Rightarrow> (r, ks\<lparr>externalkubeclient := t\<rparr>))"

text \<open>The store without the objects a selector matches.\<close>

definition drop_matching :: "selector \<Rightarrow> (key \<rightharpoonup> kobj) \<Rightarrow> (key \<rightharpoonup> kobj)" where
  "drop_matching sel m = (\<lambda>k. case m k of
     None \<Rightarrow> None | Some x \<Rightarrow> if sel_matches sel (obj_labels x) then None else Some x)"

lemma drop_matching_add:
  "drop_matching sel (m ++ m') = (\<lambda>k. case m' k of
     None \<Rightarrow> drop_matching sel m k
   | Some x \<Rightarrow> if sel_matches sel (obj_labels x) then None else Some x)"
  by (auto simp: drop_matching_def map_add_def fun_eq_iff split: option.splits)

lemma drop_matching_idem [simp]: "drop_matching sel (drop_matching sel m) = drop_matching sel m"
  by (auto simp: drop_matching_def fun_eq_iff split: option.splits)

lemma restrict_listed_pods:
  assumes wf: "tracker_wf t"
  shows "objs t Pods |` (- set (map pod_key (list_pods [] sel t))) = drop_matching sel (objs t Pods)"
proof
  fix k
  show "(objs t Pods |` (- set (map pod_key (list_pods [] sel t)))) k = drop_matching sel (objs t Pods) k"
  proof (cases "objs t Pods k")
    case None
    then show ?thesis by (simp add: drop_matching_def restrict_map_def)
  next
    case (Some x)
    then obtain p where p: "x = PodObj p" "k = pod_key p" by (rule pod_stored [OF wf])
    have "k \<in> pod_key ` set (list_pods [] sel t) \<longleftrightarrow> p \<in> set (list_pods [] sel t)"
    proof
      assume "k \<in> pod_key ` set (list_pods [] sel t)"
      then obtain q where q: "q \<in> set (list_pods [] sel t)" and k: "k = pod_key q" by auto
      then have "objs t Pods k = Some (PodObj q)" using in_list_pods [OF wf] by blast
      with Some p(1) have "q = p" by simp
      with q show "p \<in> set (list_pods [] sel t)" by simp
    qed (use p in auto)
    then show ?thesis
      using Some p(1) in_list_pods [OF wf, of p "[]" sel] p(2) by (auto simp: drop_matching_def restrict_map_def)
  qed
qed

lemma clean_loop_result:
  assumes wf: "tracker_wf t"
  shows "\<exists>t'. clean_loop t = (Ok (), t') \<and> tracker_wf t' \<and>
    objs t' = (objs t)(Pods := drop_matching kubesim_selector (objs t Pods))"
proof -
  let ?ks = "map pod_key (list_pods [] kubesim_selector t)"
  have old: "objs t Pods k \<noteq> None" if "k \<in> set ?ks" for k
    using that in_list_pods [OF wf] by fastforce
  obtain t' where t': "delete_each (delete_key Pods) ?ks t = (None, t')" "tracker_wf t'"
    "objs t' = (objs t)(Pods := objs t Pods |` (- set ?ks))"
    using ts.delete_each_old [OF wf distinct_list_pods [OF wf] old] by blast
  then have o: "objs t' = (objs t)(Pods := drop_matching kubesim_selector (objs t Pods))"
    using restrict_listed_pods [OF wf] by simp
  have "list_pods [] kubesim_selector t' = []"
  proof (rule ccontr)
    assume "list_pods [] kubesim_selector t' \<noteq> []"
    then obtain p where "p \<in> set (list_pods [] kubesim_selector t')"
      by (cases "list_pods [] kubesim_selector t'") auto
    with t'(2) o show False
      by (auto simp: in_list_pods drop_matching_def split: option.splits if_splits)
  qed
  then have e: "clean_loop t' = (Ok (), t')" by (simp add: clean_loop.simps)
  show ?thesis
  proof (cases "list_pods [] kubesim_selector t = []")
    case True
    then have "clean_loop t = (Ok (), t)" by (simp add: clean_loop.simps)
    moreover have "t = t'" using t'(1) True by simp
    ultimately show ?thesis using t'(2) o by blast
  next
    case False
    then have "clean_loop t = (Ok (), t')"
      using t'(1) e by (subst clean_loop.simps) (simp add: Let_def)
    then show ?thesis using t'(2) o by blast
  qed
qed

lemma CleanPod_result:
  assumes "tracker_wf (externalkubeclient ks)"
  obtains t' where "CleanPod ks = (Ok (), ks\<lparr>externalkubeclient := t'\<rparr>)" and "tracker_wf t'"
    and "objs t' = (objs (externalkubeclient ks))
      (Pods := drop_matching kubesim_selector (objs (externalkubeclient ks) Pods))"
  using clean_loop_result [OF assms] by (auto simp: CleanPod_def)

section \<open>A concrete environment\<close>

definition example_env :: "(nat \<Rightarrow> decision) \<Rightarrow> env" where
  "example_env sched = \<lparr>e_uuid = string_of_int \<circ> int, e_isScalar = (\<lambda>_. False),
     e_schedule = (\<lambda>i d t p. sched i), e_cache = (\<lambda>_. []), e_cap = id, e_order = id\<rparr>"

lemma example_uuids:
  "e_uuid (example_env sched) 0 = ''0''" "e_uuid (example_env sched) (Suc 0) = ''1''"
  "e_uuid (example_env sched) 2 = ''2''" "e_uuid (example_env sched) 3 = ''3''"
  "e_uuid (example_env sched) 4 = ''4''" "e_uuid (example_env sched) 5 = ''5''"
proof -
  have "digits_of_nat 0 = ''0''" "digits_of_nat 1 = ''1''" "digits_of_nat 2 = ''2''"
    "digits_of_nat 3 = ''3''" "digits_of_nat 4 = ''4''" "digits_of_nat 5 = ''5''"
    by code_simp+
  then show "e_uuid (example_env sched) 0 = ''0''" "e_uuid (example_env sched) (Suc 0) = ''1''"
    "e_uuid (example_env sched) 2 = ''2''" "e_uuid (example_env sched) 3 = ''3''"
    "e_uuid (example_env sched) 4 = ''4''" "e_uuid (example_env sched) 5 = ''5''"
    by (simp_all add: example_env_def string_of_int_def)
qed

lemma New_simps [simp]:
  "externalkubeclient (New s c) = c" "addNodeStrategy (New s c) = s" "draws (New s c) = 0"
  "status (New s c) = \<lparr>st_Pods = [], st_StopReason = []\<rparr>" "stop (New s c) = ChanNil"
  "closed (New s c) = False" "schedulerCh (New s c) = ChanNil" "simulatedPod (New s c) = None"
  "emulatorResult (New s c) = Map.empty" "predictionNode (New s c) = Map.empty"
  "fifoQueue (New s c) = NewFIFOQueue"
  by (simp_all add: New_def)

end
