(* ===== verification/Scheduling.thy ===== *)
theory Scheduling
  imports Kubesim_State
begin

text \<open>
  One round of the simulation: \<open>SchedulerPod\<close> of \<open>simulator.go\<close> creates the first pod of a request
  and waits on the channel \<open>stop\<close>. Meanwhile the scheduler decides on the pending pod: it binds
  it through kubesim's bind plugin (\<open>Bind\<close>), which creates the next pod or ends the round, or it
  marks it unschedulable, which runs the update handler of the pod informer.

  The scheduler is the parameter \<open>e_schedule\<close>. After a failed \<open>Bind\<close> it keeps the pod and tries
  again. \<open>await\<close> follows at most as many decisions as its fuel; \<open>Hang\<close> is the result when the
  round has not ended by then. The main theorem shows that a request for \<open>n > 0\<close> replicas ends
  after at most \<open>n\<close> decisions, and describes the cluster it leaves.
\<close>

section \<open>The round\<close>

text \<open>The scheduler's own write before the informer sees the pod: \<open>UpdatePodCondition\<close>.\<close>

fun set_condition :: "pod_condition \<Rightarrow> pod_condition list \<Rightarrow> pod_condition list" where
  "set_condition c [] = [c]"
| "set_condition c (d # ds) =
     (if cond_Type d = cond_Type c then c # ds else d # set_condition c ds)"

definition unschedulable_condition :: "string \<Rightarrow> pod_condition" where
  "unschedulable_condition msg =
     \<lparr>cond_Type = PodScheduled, cond_Status = ConditionFalse, cond_Reason = ''Unschedulable'',
      cond_Message = msg\<rparr>"

definition mark_unschedulable :: "string \<Rightarrow> pod \<Rightarrow> pod" where
  "mark_unschedulable msg p = p\<lparr>pod_Status := (pod_Status p)
     \<lparr>Conditions := set_condition (unschedulable_condition msg) (Conditions (pod_Status p))\<rparr>\<rparr>"

text \<open>A condition that does not change is not written, so the informer sees no update.\<close>

definition schedule_failed :: "pod \<Rightarrow> string \<Rightarrow> kubesim \<Rightarrow> (kubesim, nat) outcome" where
  "schedule_failed p msg ks =
     (let q = mark_unschedulable msg p in
      if Conditions (pod_Status q) = Conditions (pod_Status p) then (Ok 0, ks)
      else
        (case update_obj Pods (PodObj q) (externalkubeclient ks) of
           Inl e \<Rightarrow> (Ok 0, ks)
         | Inr t \<Rightarrow> pod_update_handler q (ks\<lparr>externalkubeclient := t\<rparr>)))"

text \<open>A send on a channel that is not open does not arrive.\<close>

definition send_stop :: "kubesim \<Rightarrow> (kubesim, unit) outcome" where
  "send_stop ks =
     (case stop ks of
        ChanOpen \<Rightarrow> (Ok (), ks)
      | ChanNil \<Rightarrow> (Hang, ks)
      | ChanClosed \<Rightarrow> (Panic SendOnClosedChannel, ks))"

fun await :: "nat \<Rightarrow> nat \<Rightarrow> env \<Rightarrow> pod \<Rightarrow> kubesim \<Rightarrow> (kubesim, unit) outcome" where
  "await 0 i env p ks = (Hang, ks)"
| "await (Suc fuel) i env p ks =
     (case e_schedule env i (draws ks) (externalkubeclient ks) p of
        NotYet \<Rightarrow> await fuel (Suc i) env p ks
      | BindTo nodeName \<Rightarrow>
          (case Bind env p nodeName ks of
             (Ok BindStop, ks') \<Rightarrow> send_stop ks'
           | (Ok BindDone, ks') \<Rightarrow>
               (case lastSimulatedPod ks' of
                  None \<Rightarrow> (Hang, ks')
                | Some p' \<Rightarrow> await fuel (Suc i) env p' ks')
           | (Err e, ks') \<Rightarrow> await fuel (Suc i) env p ks'
           | (Panic q, ks') \<Rightarrow> (Panic q, ks')
           | (Hang, ks') \<Rightarrow> (Hang, ks'))
      | Unschedulable msg \<Rightarrow>
          (case schedule_failed p msg ks of
             (Ok n, ks') \<Rightarrow> if n = 0 then await fuel (Suc i) env p ks' else send_stop ks'
           | (Err e, ks') \<Rightarrow> await fuel (Suc i) env p ks'
           | (Panic q, ks') \<Rightarrow> (Panic q, ks')
           | (Hang, ks') \<Rightarrow> (Hang, ks')))"

definition close_stop :: "kubesim \<Rightarrow> (kubesim, unit) outcome" where
  "close_stop ks =
     (case close_chan (stop ks) of
        Ok c \<Rightarrow> (Ok (), ks\<lparr>stop := c\<rparr>)
      | Err e \<Rightarrow> (Err e, ks)
      | Panic q \<Rightarrow> (Panic q, ks)
      | Hang \<Rightarrow> (Hang, ks))"

definition SchedulerPod :: "nat \<Rightarrow> env \<Rightarrow> kubesim \<Rightarrow> (kubesim, unit) outcome" where
  "SchedulerPod fuel env ks =
     (case nextPod env ks of
        (Err e, ks1) \<Rightarrow>
          seq (Close ks1)
            (\<lambda>_ ks2. seq (close_stop ks2)
               (\<lambda>_ ks3. (Err (Wrap ''nable to create next pod to schedule'' e), ks3)) id) id
      | (Panic q, ks1) \<Rightarrow> (Panic q, ks1)
      | (Hang, ks1) \<Rightarrow> (Hang, ks1)
      | (Ok _, ks1) \<Rightarrow>
          (case lastSimulatedPod ks1 of
             None \<Rightarrow> (Hang, ks1)
           | Some p \<Rightarrow> seq (await fuel 0 env p ks1) (\<lambda>_ ks2. close_stop ks2) id))"

section \<open>Single steps on a pending pod\<close>

definition pods_map :: "pod list \<Rightarrow> key \<rightharpoonup> kobj" where
  "pods_map ps = map_of (map (\<lambda>p. (pod_key p, PodObj p)) ps)"

text \<open>What a round does not touch.\<close>

definition same_job :: "kubesim \<Rightarrow> kubesim \<Rightarrow> bool" where
  "same_job ks ks' \<longleftrightarrow>
     addNodeStrategy ks' = addNodeStrategy ks \<and> defaultSchedulerName ks' = defaultSchedulerName ks \<and>
     simulatedPod ks' = simulatedPod ks \<and> maxSimulated ks' = maxSimulated ks \<and>
     emulatorResult ks' = emulatorResult ks \<and> predictionNode ks' = predictionNode ks \<and>
     fifoQueue ks' = fifoQueue ks \<and> ks_report ks' = ks_report ks \<and> draws ks \<le> draws ks'"

lemma same_job_refl [simp]: "same_job ks ks"
  by (simp add: same_job_def)

lemma same_job_trans: "same_job a b \<Longrightarrow> same_job b c \<Longrightarrow> same_job a c"
  by (auto simp: same_job_def)

text \<open>The mark of kubesim on a pod, and the name the next pod gets.\<close>

definition ours :: "kubesim \<Rightarrow> pod \<Rightarrow> bool" where
  "ours ks p \<longleftrightarrow> gm_get (pod_Annotations p) podProvisioner \<noteq> None \<and>
     SchedulerName (pod_Spec p) = defaultSchedulerName ks \<and>
     gm_get (pod_Labels p) ''provisioner'' = Some ''kubesim''"

definition next_key :: "env \<Rightarrow> nat \<Rightarrow> pod \<Rightarrow> key" where
  "next_key env d sp = (pod_Namespace sp, pod_Name sp @ ''-'' @ take 7 (e_uuid env d))"

lemma simulated_pod_simps [simp]:
  "pod_key (simulated_pod env ks sp) = next_key env (draws ks) sp"
  "ours ks (simulated_pod env ks sp)"
  "NodeName (pod_Spec (simulated_pod env ks sp)) = []"
  "Containers (pod_Spec (simulated_pod env ks sp)) = Containers (pod_Spec sp)"
  "NodeSelector (pod_Spec (simulated_pod env ks sp)) = NodeSelector (pod_Spec sp)"
  "pod_Status (simulated_pod env ks sp) = pod_Status sp"
  by (simp_all add: simulated_pod_def pod_key_def next_key_def ours_def)

lemma nextPod_new:
  assumes "simulatedPod ks = Some sp" and "tracker_wf (externalkubeclient ks)"
    and "objs (externalkubeclient ks) Pods (next_key env (draws ks) sp) = None"
  obtains t where
    "nextPod env ks = (Ok (), ks\<lparr>simulated := simulated ks + 1,
       lastSimulatedPod := Some (simulated_pod env ks sp), draws := draws ks + 2,
       externalkubeclient := t\<rparr>)"
    and "tracker_wf t" and "objs t = (objs (externalkubeclient ks))(Pods :=
       (objs (externalkubeclient ks) Pods)
         (next_key env (draws ks) sp \<mapsto> PodObj (simulated_pod env ks sp)))"
proof -
  have "kind_ok Pods (PodObj (simulated_pod env ks sp))" by simp
  then obtain t where t: "create_obj Pods (PodObj (simulated_pod env ks sp)) (externalkubeclient ks) = Inr t"
    "tracker_wf t" "objs t = (objs (externalkubeclient ks))(Pods :=
       (objs (externalkubeclient ks) Pods)
         (next_key env (draws ks) sp \<mapsto> PodObj (simulated_pod env ks sp)))"
    using ts.create_new [OF assms(2), of Pods "PodObj (simulated_pod env ks sp)"] assms(3) by auto
  with assms(1) have "nextPod env ks = (Ok (), ks\<lparr>simulated := simulated ks + 1,
       lastSimulatedPod := Some (simulated_pod env ks sp), draws := draws ks + 2,
       externalkubeclient := t\<rparr>)"
    by (simp add: nextPod_def Let_def)
  with t that show thesis by blast
qed

lemma bound_pod_simps [simp]:
  "pod_key (bound_pod p n) = pod_key p" "NodeName (pod_Spec (bound_pod p n)) = n"
  "Phase (pod_Status (bound_pod p n)) = PodRunning" "ours ks (bound_pod p n) = ours ks p"
  "pod_Labels (bound_pod p n) = pod_Labels p"
  "Conditions (pod_Status (bound_pod p n)) = Conditions (pod_Status p)"
  "Containers (pod_Spec (bound_pod p n)) = Containers (pod_Spec p)"
  "NodeSelector (pod_Spec (bound_pod p n)) = NodeSelector (pod_Spec p)"
  by (simp_all add: bound_pod_def running_def ours_def pod_key_def)

text \<open>\<open>Bind\<close> on a stored pod: the store gets the bound pod, and the rest is one branch on the count.\<close>

definition after_bind :: "pod \<Rightarrow> string \<Rightarrow> tracker \<Rightarrow> kubesim \<Rightarrow> kubesim" where
  "after_bind p n t ks = ks\<lparr>externalkubeclient := t,
     status := (status ks)\<lparr>st_Pods := st_Pods (status ks) @ [bound_pod p n]\<rparr>\<rparr>"

definition schedulable_reason :: "32 word \<Rightarrow> string" where
  "schedulable_reason n =
     ''Schedulable: Schedule the number of simulated pods: '' @ string_of_int (sint n)"

lemma Bind_found:
  assumes "tracker_wf (externalkubeclient ks)"
    and "objs (externalkubeclient ks) Pods (pod_key p) = Some (PodObj q)"
  obtains t where "tracker_wf t"
    and "objs t = (objs (externalkubeclient ks))(Pods :=
       (objs (externalkubeclient ks) Pods)(pod_key p \<mapsto> PodObj (bound_pod q n)))"
    and "Bind env p n ks =
      (if 0 <s maxSimulated ks \<and> maxSimulated ks \<le>s simulated ks
       then seq (Close ((after_bind q n t ks)\<lparr>status :=
              (status (after_bind q n t ks))\<lparr>st_StopReason := schedulable_reason (maxSimulated ks)\<rparr>\<rparr>))
            (\<lambda>_ ks3. (Ok BindStop, ks3)) id
       else (case nextPod env (after_bind q n t ks) of
               (Ok _, ks2) \<Rightarrow> (Ok BindDone, ks2)
             | (Err e, ks2) \<Rightarrow> (Err (Wrap ''Unable to create next pod to schedule'' e), ks2)
             | (Panic x, ks2) \<Rightarrow> (Panic x, ks2)
             | (Hang, ks2) \<Rightarrow> (Hang, ks2)))"
proof -
  have key: "pod_key q = pod_key p"
    by (rule pod_stored [OF assms]) simp
  obtain t where t: "strategy_Add (PodObj (bound_pod q n)) (externalkubeclient ks) = Inr t" "tracker_wf t"
    "objs t = (objs (externalkubeclient ks))(Pods :=
       (objs (externalkubeclient ks) Pods)(pod_key p \<mapsto> PodObj (running (bound_pod q n))))"
    using ps.add_stored [OF assms(1), of "bound_pod q n"] assms(2) key by auto
  have r: "running (bound_pod q n) = bound_pod q n"
    by (simp add: bound_pod_def)
  have "tracker_Get Pods (pod_Namespace p) (pod_Name p) (externalkubeclient ks) = Inr (PodObj q)"
    using assms(2) by (simp add: tracker_Get_def pod_key_def)
  with t(1) show thesis
    using that [OF t(2)] t(3) r
    by (simp add: Bind_def Let_def after_bind_def schedulable_reason_def)
qed

lemmas Bind_stored = Bind_found [where q = p and p = p for p]

section \<open>A pod that cannot be scheduled\<close>

definition drop_pod :: "pod \<Rightarrow> tracker \<Rightarrow> tracker" where
  "drop_pod p t = (case delete_key Pods (pod_key p) t of Inl e \<Rightarrow> t | Inr t' \<Rightarrow> t')"

definition unschedulable_reason :: "string \<Rightarrow> string" where
  "unschedulable_reason msg = ''Unschedulable: '' @ msg"

definition given_up :: "pod \<Rightarrow> string \<Rightarrow> kubesim \<Rightarrow> kubesim" where
  "given_up p msg ks = (closing ks)\<lparr>status := (status ks)\<lparr>st_StopReason := unschedulable_reason msg\<rparr>,
     stopped := True, externalkubeclient := drop_pod p (externalkubeclient ks)\<rparr>"

lemma CleanPendingPod_drop: "snd (CleanPendingPod p ks) = ks\<lparr>externalkubeclient := drop_pod p (externalkubeclient ks)\<rparr>"
  by (auto simp: CleanPendingPod_def drop_pod_def delete_key_def pod_key_def split: sum.splits)

lemma drop_pod_objs: "objs (drop_pod p t) = (objs t)(Pods := (objs t Pods)(pod_key p := None))"
proof (cases "objs t Pods (pod_key p)")
  case None
  then have "(objs t Pods)(pod_key p := None) = objs t Pods" by auto
  with None show ?thesis by (simp add: drop_pod_def delete_key_eq)
next
  case (Some x)
  then show ?thesis by (simp add: drop_pod_def delete_key_eq objs_delete)
qed

lemma drop_pod_wf: "tracker_wf t \<Longrightarrow> tracker_wf (drop_pod p t)"
  by (auto simp: drop_pod_def delete_key_def split: sum.splits dest: tracker_Delete_wf)

lemma drop_pod_again [simp]: "drop_pod p (drop_pod p t) = drop_pod p t"
  by (simp add: drop_pod_def delete_key_eq split: option.splits) (auto simp: objs_def)

lemma pod_key_mark [simp]: "pod_key (mark_unschedulable msg p) = pod_key p"
  by (simp add: mark_unschedulable_def pod_key_def)

lemma drop_pod_mark [simp]: "drop_pod (mark_unschedulable msg p) t = drop_pod p t"
  by (simp add: drop_pod_def)

lemma ours_mark [simp]: "ours ks (mark_unschedulable msg p) = ours ks p"
  by (simp add: ours_def mark_unschedulable_def)

lemma given_up_mark [simp]: "given_up (mark_unschedulable m p) msg ks = given_up p msg ks"
  by (simp add: given_up_def)

lemma is_unschedulable_condition [simp]: "is_unschedulable (unschedulable_condition msg)"
  by (simp add: is_unschedulable_def unschedulable_condition_def)

lemma Update_unschedulable:
  assumes "ours ks p" and "closeable ks" and "is_unschedulable c"
  shows "Update p c ks = (Ok True, given_up p (cond_Message c) ks)"
proof -
  let ?r = "cond_Reason c @ '': '' @ cond_Message c"
  let ?ks = "ks\<lparr>status := (status ks)\<lparr>st_StopReason := ?r\<rparr>\<rparr>"
  have "closeable ?ks" using assms(2) by (simp add: closeable_def)
  then have "Close ?ks = (Ok (), closing ?ks)" by (rule Close_closeable)
  moreover have "?r = unschedulable_reason (cond_Message c)"
    using assms(3) by (simp add: is_unschedulable_def unschedulable_reason_def)
  ultimately show ?thesis
    using assms(1,3)
    by (simp add: Update_def ours_def Let_def CleanPendingPod_drop given_up_def closing_def)
qed

lemma given_up_closeable [simp]: "closeable (given_up p msg ks)"
  by (simp add: closeable_def given_up_def closing_def)

lemma given_up_ours [simp]: "ours (given_up p msg ks) q = ours ks q"
  by (simp add: ours_def given_up_def closing_def)

lemma given_up_again [simp]: "given_up p msg (given_up p msg' ks) = given_up p msg ks"
  by (simp add: given_up_def closing_def)

text \<open>Every unschedulable condition in the list gives the pod up; the last one leaves its message.\<close>

lemma condition_loop_given_up:
  "ours ks p \<Longrightarrow> closeable ks \<Longrightarrow>
   \<exists>n m. condition_loop p cs ks =
     (Ok n, if \<exists>c \<in> set cs. is_unschedulable c then given_up p m ks else ks) \<and>
     (n = 0 \<longleftrightarrow> \<not> (\<exists>c \<in> set cs. is_unschedulable c))"
proof (induction cs arbitrary: ks)
  case (Cons c cs)
  show ?case
  proof (cases "is_unschedulable c")
    case True
    then have "cond_Type c = PodScheduled" by (simp add: is_unschedulable_def)
    moreover have "Update p c ks = (Ok True, given_up p (cond_Message c) ks)"
      using Update_unschedulable Cons.prems True by blast
    moreover obtain n m where "condition_loop p cs (given_up p (cond_Message c) ks) = (Ok n, given_up p m ks)"
      using Cons.IH [of "given_up p (cond_Message c) ks"] Cons.prems(1) by (auto split: if_splits)
    ultimately show ?thesis using True by (intro exI [of _ "Suc n"] exI [of _ m]) simp
  next
    case False
    then have "Update p c ks = (Ok False, ks)" by (simp add: Update_def)
    moreover obtain n m where "condition_loop p cs ks =
        (Ok n, if \<exists>c \<in> set cs. is_unschedulable c then given_up p m ks else ks)"
      "n = 0 \<longleftrightarrow> \<not> (\<exists>c \<in> set cs. is_unschedulable c)"
      using Cons.IH [OF Cons.prems] by blast
    ultimately show ?thesis using False by (intro exI [of _ n] exI [of _ m]) simp
  qed
qed simp

lemma condition_loop_gives_up:
  assumes "ours ks p" and "closeable ks" and some: "\<exists>c \<in> set cs. is_unschedulable c"
  obtains n m where "condition_loop p cs ks = (Ok (Suc n), given_up p m ks)"
proof -
  obtain n m where n: "condition_loop p cs ks = (Ok n, given_up p m ks)" "n \<noteq> 0"
    using condition_loop_given_up [OF assms(1,2), of cs] by (simp only: some) auto
  then show thesis using that by (cases n) auto
qed

lemma set_condition_sets: "c \<in> set (set_condition c cs)"
  by (induction cs) auto

text \<open>A pod that carries no unschedulable condition yet.\<close>

definition unmarked :: "pod \<Rightarrow> bool" where
  "unmarked p \<longleftrightarrow> (\<forall>c \<in> set (Conditions (pod_Status p)). \<not> is_unschedulable c)"

lemma schedule_failed_stored:
  assumes wf: "tracker_wf (externalkubeclient ks)"
    and p: "objs (externalkubeclient ks) Pods (pod_key p) \<noteq> None"
    and ours: "ours ks p" and cl: "closeable ks"
  obtains (same) "schedule_failed p msg ks = (Ok 0, ks)" and "\<not> unmarked p"
  | (stop) n m ks' where "schedule_failed p msg ks = (Ok (Suc n), ks')"
    and "same_job ks ks'" and "stop ks' = stop ks" and "tracker_wf (externalkubeclient ks')"
    and "objs (externalkubeclient ks') = (objs (externalkubeclient ks))
      (Pods := (objs (externalkubeclient ks) Pods)(pod_key p := None))"
    and "status ks' = (status ks)\<lparr>st_StopReason := unschedulable_reason m\<rparr>"
    and "closed ks'" and "draws ks' = draws ks"
proof (cases "Conditions (pod_Status (mark_unschedulable msg p)) = Conditions (pod_Status p)")
  case True
  have "unschedulable_condition msg \<in> set (Conditions (pod_Status (mark_unschedulable msg p)))"
    using set_condition_sets by (simp add: mark_unschedulable_def)
  with True have "\<not> unmarked p" unfolding unmarked_def by force
  with True same show thesis by (simp add: schedule_failed_def Let_def)
next
  case False
  let ?q = "mark_unschedulable msg p"
  obtain t where t: "update_obj Pods (PodObj ?q) (externalkubeclient ks) = Inr t" "tracker_wf t"
    "objs t = (objs (externalkubeclient ks))(Pods := (objs (externalkubeclient ks) Pods)(pod_key p \<mapsto> PodObj ?q))"
    using ts.update_old [OF wf, of Pods "PodObj ?q"] p by auto
  let ?ks = "ks\<lparr>externalkubeclient := t\<rparr>"
  have ours': "ours ?ks ?q" using ours by (simp add: ours_def mark_unschedulable_def)
  have cl': "closeable ?ks" using cl by (simp add: closeable_def)
  have "unschedulable_condition msg \<in> set (Conditions (pod_Status ?q))"
    using set_condition_sets by (simp add: mark_unschedulable_def)
  then have some: "\<exists>c \<in> set (Conditions (pod_Status ?q)). is_unschedulable c" by force
  obtain n m where "condition_loop ?q (Conditions (pod_Status ?q)) ?ks = (Ok (Suc n), given_up ?q m ?ks)"
    by (rule condition_loop_gives_up [OF ours' cl' some])
  moreover have "SchedulerName (pod_Spec ?q) = defaultSchedulerName ?ks"
    using ours' by (simp add: ours_def)
  ultimately have "schedule_failed p msg ks = (Ok (Suc n), given_up ?q m ?ks)"
    using t(1) False by (simp add: schedule_failed_def pod_update_handler_def Let_def)
  moreover have "same_job ks (given_up ?q m ?ks)" "stop (given_up ?q m ?ks) = stop ks"
    "closed (given_up ?q m ?ks)" "draws (given_up ?q m ?ks) = draws ks"
    "status (given_up ?q m ?ks) = (status ks)\<lparr>st_StopReason := unschedulable_reason m\<rparr>"
    by (simp_all add: same_job_def given_up_def closing_def)
  moreover have "tracker_wf (externalkubeclient (given_up ?q m ?ks))"
    using t(2) by (simp add: given_up_def drop_pod_wf)
  moreover have "objs (externalkubeclient (given_up ?q m ?ks)) = (objs (externalkubeclient ks))
      (Pods := (objs (externalkubeclient ks) Pods)(pod_key p := None))"
    using t(3) by (simp add: given_up_def drop_pod_objs)
  ultimately show thesis using stop by blast
qed

section \<open>The round ends\<close>

text \<open>The names of the next pods of a request.\<close>

fun names :: "env \<Rightarrow> pod \<Rightarrow> nat \<Rightarrow> nat \<Rightarrow> key list" where
  "names env sp d 0 = []"
| "names env sp d (Suc n) = next_key env d sp # names env sp (Suc (Suc d)) n"

definition fresh_names :: "env \<Rightarrow> pod \<Rightarrow> nat \<Rightarrow> nat \<Rightarrow> (key \<rightharpoonup> kobj) \<Rightarrow> bool" where
  "fresh_names env sp d n m \<longleftrightarrow> distinct (names env sp d n) \<and> set (names env sp d n) \<inter> dom m = {}"

definition simulates :: "kubesim \<Rightarrow> pod \<Rightarrow> pod \<Rightarrow> bool" where
  "simulates ks sp q \<longleftrightarrow> ours ks q \<and> Containers (pod_Spec q) = Containers (pod_Spec sp) \<and>
     NodeSelector (pod_Spec q) = NodeSelector (pod_Spec sp) \<and>
     Conditions (pod_Status q) = Conditions (pod_Status sp)"

text \<open>
  What a round leaves: \<open>bound\<close> are the pods bound in it, \<open>expected\<close> the names it may use, \<open>old\<close> the
  pods that were there before.
\<close>

definition round_result ::
  "kubesim \<Rightarrow> pod \<Rightarrow> key list \<Rightarrow> (key \<rightharpoonup> kobj) \<Rightarrow> pod list \<Rightarrow> kubesim \<Rightarrow> bool" where
  "round_result ks sp expected old bound ks' \<longleftrightarrow>
     same_job ks ks' \<and> closed ks' \<and> tracker_wf (externalkubeclient ks') \<and>
     objs (externalkubeclient ks') = (objs (externalkubeclient ks))(Pods := old ++ pods_map bound) \<and>
     st_Pods (status ks') = st_Pods (status ks) @ bound \<and>
     map pod_key bound = take (length bound) expected \<and>
     (\<forall>q \<in> set bound. simulates ks sp q \<and> Phase (pod_Status q) = PodRunning) \<and>
     (if length bound = length expected
      then st_StopReason (status ks') = schedulable_reason (maxSimulated ks)
      else length bound < length expected \<and>
        (\<exists>msg. st_StopReason (status ks') = unschedulable_reason msg))"

lemma length_names [simp]: "length (names env sp d n) = n"
  by (induction n arbitrary: d) auto

lemma pods_map_Nil [simp]: "pods_map [] = Map.empty"
  by (simp add: pods_map_def)

lemma pods_map_Cons: "pods_map (q # qs) = (pods_map qs)(pod_key q \<mapsto> PodObj q)"
  by (simp add: pods_map_def)

lemma dom_pods_map: "dom (pods_map ps) = pod_key ` set ps"
  by (force simp: pods_map_def dom_map_of_conv_image_fst)

text \<open>The count of a request, read as a signed word.\<close>

lemma count_reached:
  assumes "0 < sint n" and "int m \<le> sint n"
  shows "(0 <s n \<and> n \<le>s (word_of_nat m :: 32 word)) \<longleftrightarrow> sint n = int m"
proof -
  have "sint n < 2 ^ 31" using sint_lt [of n] by simp
  with assms have "sint (word_of_nat m :: 32 word) = int m"
    by (simp add: signed_of_nat signed_take_bit_int_eq_self)
  with assms show ?thesis by (auto simp: word_sless_alt word_sle_eq)
qed

lemma ours_cong: "defaultSchedulerName ks' = defaultSchedulerName ks \<Longrightarrow> ours ks' q = ours ks q"
  by (simp add: ours_def)

lemma simulates_cong: "same_job ks ks' \<Longrightarrow> simulates ks' sp q = simulates ks sp q"
  by (simp add: simulates_def ours_def same_job_def)

lemma after_bind_simps [simp]:
  "externalkubeclient (after_bind p n t ks) = t" "simulatedPod (after_bind p n t ks) = simulatedPod ks"
  "simulated (after_bind p n t ks) = simulated ks" "maxSimulated (after_bind p n t ks) = maxSimulated ks"
  "draws (after_bind p n t ks) = draws ks" "stop (after_bind p n t ks) = stop ks"
  "st_Pods (status (after_bind p n t ks)) = st_Pods (status ks) @ [bound_pod p n]"
  "defaultSchedulerName (after_bind p n t ks) = defaultSchedulerName ks"
  "closeable (after_bind p n t ks) = closeable ks"
  "same_job ks (after_bind p n t ks)"
  by (simp_all add: after_bind_def closeable_def same_job_def)

lemma round_give_up:
  assumes "tracker_wf (externalkubeclient ks)"
    and "objs (externalkubeclient ks) Pods (pod_key p) = Some (PodObj p)"
    and "simulates ks sp p" and "closeable ks" and "stop ks = ChanOpen"
    and "e_schedule env i (draws ks) (externalkubeclient ks) p = Unschedulable msg"
    and "unmarked sp"
  shows "\<exists>bound ks'. await (Suc fuel) i env p ks = (Ok (), ks') \<and> stop ks' = ChanOpen \<and> draws ks' = draws ks + 2 * min k (length bound) \<and>
    round_result ks sp (pod_key p # ns) ((objs (externalkubeclient ks) Pods)(pod_key p := None)) bound ks'"
proof -
  have ours: "ours ks p" and un: "unmarked p"
    using assms(3,7) by (simp_all add: simulates_def unmarked_def)
  have p: "objs (externalkubeclient ks) Pods (pod_key p) \<noteq> None" using assms(2) by simp
  obtain n m ks' where ks': "schedule_failed p msg ks = (Ok (Suc n), ks')"
    "same_job ks ks'" "stop ks' = stop ks" "tracker_wf (externalkubeclient ks')"
    "objs (externalkubeclient ks') = (objs (externalkubeclient ks))
      (Pods := (objs (externalkubeclient ks) Pods)(pod_key p := None))"
    "status ks' = (status ks)\<lparr>st_StopReason := unschedulable_reason m\<rparr>" "closed ks'"
    "draws ks' = draws ks"
    using schedule_failed_stored [OF assms(1) p ours assms(4), of msg] un by metis
  then have "await (Suc fuel) i env p ks = (Ok (), ks')"
    using assms(5,6) by (simp add: send_stop_def)
  moreover have "round_result ks sp (pod_key p # ns)
      ((objs (externalkubeclient ks) Pods)(pod_key p := None)) [] ks'"
    using ks' by (auto simp: round_result_def)
  ultimately show ?thesis using ks'(3,8) assms(5) by (intro exI [of _ "[]"] exI [of _ ks']) simp
qed

lemma round_last:
  assumes wf: "tracker_wf (externalkubeclient ks)"
    and "objs (externalkubeclient ks) Pods (pod_key p) = Some (PodObj p)"
    and "simulates ks sp p" and "closeable ks" and "stop ks = ChanOpen"
    and "e_schedule env i (draws ks) (externalkubeclient ks) p = BindTo n"
    and full: "0 <s maxSimulated ks \<and> maxSimulated ks \<le>s simulated ks"
  shows "\<exists>ks'. await (Suc fuel) i env p ks = (Ok (), ks') \<and> stop ks' = ChanOpen \<and> draws ks' = draws ks \<and>
    round_result ks sp [pod_key p] ((objs (externalkubeclient ks) Pods)(pod_key p := None)) [bound_pod p n] ks'"
proof -
  from Bind_stored [OF assms(1,2), where n = n and env = env] obtain t where t: "tracker_wf t"
    "objs t = (objs (externalkubeclient ks))(Pods :=
       (objs (externalkubeclient ks) Pods)(pod_key p \<mapsto> PodObj (bound_pod p n)))"
    "Bind env p n ks = seq (Close ((after_bind p n t ks)\<lparr>status :=
              (status (after_bind p n t ks))\<lparr>st_StopReason := schedulable_reason (maxSimulated ks)\<rparr>\<rparr>))
            (\<lambda>_ ks3. (Ok BindStop, ks3)) id"
    using full by auto
  let ?ks = "(after_bind p n t ks)\<lparr>status :=
              (status (after_bind p n t ks))\<lparr>st_StopReason := schedulable_reason (maxSimulated ks)\<rparr>\<rparr>"
  have "closeable ?ks" using assms(4) by (simp add: closeable_def after_bind_def)
  then have "Bind env p n ks = (Ok BindStop, closing ?ks)"
    using t(3) by (simp add: Close_closeable)
  then have a: "await (Suc fuel) i env p ks = (Ok (), closing ?ks)"
    using assms(5,6) by (simp add: send_stop_def closing_def)
  have "round_result ks sp [pod_key p] ((objs (externalkubeclient ks) Pods)(pod_key p := None))
      [bound_pod p n] (closing ?ks)"
    using t(1,2) assms(3)
    by (simp add: round_result_def pods_map_Cons simulates_def bound_pod_def running_def closing_def
        same_job_def after_bind_def ours_def pod_key_def)
  with a assms(5) show ?thesis by (auto simp: closing_def after_bind_def)
qed

lemma fresh_names_Suc:
  "fresh_names env sp d (Suc n) m \<longleftrightarrow>
     m (next_key env d sp) = None \<and> next_key env d sp \<notin> set (names env sp (Suc (Suc d)) n) \<and>
     fresh_names env sp (Suc (Suc d)) n m"
  by (auto simp: fresh_names_def)

lemma round_next:
  assumes wf: "tracker_wf (externalkubeclient ks)" and sp: "simulatedPod ks = Some sp"
    and p: "objs (externalkubeclient ks) Pods (pod_key p) = Some (PodObj p)"
    and "e_schedule env i (draws ks) (externalkubeclient ks) p = BindTo n"
    and full: "\<not> (0 <s maxSimulated ks \<and> maxSimulated ks \<le>s simulated ks)"
    and new: "objs (externalkubeclient ks) Pods (next_key env (draws ks) sp) = None"
  obtains q ks2 where "pod_key q = next_key env (draws ks) sp" and "simulates ks sp q"
    and "await (Suc fuel) i env p ks = await fuel (Suc i) env q ks2"
    and "tracker_wf (externalkubeclient ks2)" and "same_job ks ks2"
    and "objs (externalkubeclient ks2) = (objs (externalkubeclient ks))(Pods :=
       (objs (externalkubeclient ks) Pods)(pod_key p \<mapsto> PodObj (bound_pod p n), pod_key q \<mapsto> PodObj q))"
    and "simulated ks2 = simulated ks + 1" and "draws ks2 = Suc (Suc (draws ks))"
    and "stop ks2 = stop ks" and "closeable ks2 = closeable ks"
    and "st_Pods (status ks2) = st_Pods (status ks) @ [bound_pod p n]"
    and "NodeName (pod_Spec q) = []"
proof -
  from Bind_stored [OF wf p, where n = n and env = env] obtain t where t: "tracker_wf t"
    "objs t = (objs (externalkubeclient ks))(Pods :=
       (objs (externalkubeclient ks) Pods)(pod_key p \<mapsto> PodObj (bound_pod p n)))"
    "Bind env p n ks = (case nextPod env (after_bind p n t ks) of
               (Ok _, ks2) \<Rightarrow> (Ok BindDone, ks2)
             | (Err e, ks2) \<Rightarrow> (Err (Wrap ''Unable to create next pod to schedule'' e), ks2)
             | (Panic x, ks2) \<Rightarrow> (Panic x, ks2)
             | (Hang, ks2) \<Rightarrow> (Hang, ks2))"
    unfolding if_not_P [OF full] by blast
  let ?k1 = "after_bind p n t ks"
  let ?q = "simulated_pod env ?k1 sp"
  have ne: "pod_key p \<noteq> next_key env (draws ks) sp" using p new by auto
  have "simulatedPod ?k1 = Some sp" "tracker_wf (externalkubeclient ?k1)"
    "objs (externalkubeclient ?k1) Pods (next_key env (draws ?k1) sp) = None"
    using sp t(1,2) new ne by simp_all
  from nextPod_new [OF this] obtain t2 where t2:
    "nextPod env ?k1 = (Ok (), ?k1\<lparr>simulated := simulated ?k1 + 1,
       lastSimulatedPod := Some ?q, draws := draws ?k1 + 2, externalkubeclient := t2\<rparr>)"
    "tracker_wf t2" "objs t2 = (objs (externalkubeclient ?k1))(Pods :=
       (objs (externalkubeclient ?k1) Pods)(next_key env (draws ?k1) sp \<mapsto> PodObj ?q))"
    by blast
  let ?k2 = "?k1\<lparr>simulated := simulated ?k1 + 1, lastSimulatedPod := Some ?q,
       draws := draws ?k1 + 2, externalkubeclient := t2\<rparr>"
  have "await (Suc fuel) i env p ks = await fuel (Suc i) env ?q ?k2"
    using assms(4) t(3) t2(1) by simp
  moreover have "simulates ks sp ?q"
  proof -
    have "ours ?k1 ?q" by (rule simulated_pod_simps(2))
    then have "ours ks ?q" unfolding ours_def by simp
    then show ?thesis by (simp add: simulates_def)
  qed
  moreover have "objs (externalkubeclient ?k2) = (objs (externalkubeclient ks))(Pods :=
       (objs (externalkubeclient ks) Pods)(pod_key p \<mapsto> PodObj (bound_pod p n), pod_key ?q \<mapsto> PodObj ?q))"
    using t2(3) t(2) by simp
  moreover have "same_job ks ?k2" "closeable ?k2 = closeable ks"
    by (simp_all add: same_job_def after_bind_def closeable_def)
  ultimately show thesis
    using that [of ?q ?k2] t2(2) by simp
qed

text \<open>The result of the rest of a round, seen from its beginning.\<close>

lemma round_result_Cons:
  assumes rest: "round_result ks2 sp (pod_key q # ns) (old2(pod_key q := None)) bound ks'"
    and same: "same_job ks ks2"
    and o2: "objs (externalkubeclient ks2) = (objs (externalkubeclient ks))(Pods := old2)"
    and old2: "old2(pod_key q := None) = old(pod_key p \<mapsto> PodObj (bound_pod p n))"
    and fresh: "pod_key p \<notin> set (pod_key q # ns)"
    and st: "st_Pods (status ks2) = st_Pods (status ks) @ [bound_pod p n]"
    and p: "simulates ks sp p"
  shows "round_result ks sp (pod_key p # pod_key q # ns) (old(pod_key p := None)) (bound_pod p n # bound) ks'"
proof -
  have "pod_key ` set bound \<subseteq> set (pod_key q # ns)"
    using rest set_take_subset [of "length bound" "pod_key q # ns"]
    by (simp add: round_result_def flip: set_map)
  with fresh have "pod_key p \<notin> dom (pods_map bound)" by (auto simp: dom_pods_map)
  then have "old(pod_key p \<mapsto> PodObj (bound_pod p n)) ++ pods_map bound =
      (old(pod_key p := None)) ++ pods_map (bound_pod p n # bound)"
    by (auto simp: pods_map_Cons map_add_def fun_eq_iff split: option.splits)
  moreover have "simulates ks sp (bound_pod p n)"
    using p by (simp add: simulates_def bound_pod_def running_def ours_def)
  moreover have "maxSimulated ks2 = maxSimulated ks" using same by (simp add: same_job_def)
  ultimately show ?thesis
    using rest o2 old2 st simulates_cong [OF same] same_job_trans [OF same]
    by (auto simp: round_result_def split: if_splits)
qed

lemma await_round:
  assumes "\<forall>i d t p. e_schedule env i d t p \<noteq> NotYet"
    and "tracker_wf (externalkubeclient ks)" and "simulatedPod ks = Some sp"
    and "objs (externalkubeclient ks) Pods (pod_key p) = Some (PodObj p)"
    and "simulates ks sp p" and "closeable ks" and "stop ks = ChanOpen"
    and "0 < sint (maxSimulated ks)" and "sint (maxSimulated ks) = int (m + k)"
    and "simulated ks = word_of_nat m"
    and "fresh_names env sp (draws ks) k (objs (externalkubeclient ks) Pods)" and "k < fuel"
    and "unmarked sp"
  shows "\<exists>bound ks'. await fuel i env p ks = (Ok (), ks') \<and> stop ks' = ChanOpen \<and>
    draws ks' = draws ks + 2 * min k (length bound) \<and>
    round_result ks sp (pod_key p # names env sp (draws ks) k)
      ((objs (externalkubeclient ks) Pods)(pod_key p := None)) bound ks'"
  using assms
proof (induction k arbitrary: ks p m i fuel)
  case 0
  note prems = 0
  obtain f where f: "fuel = Suc f" using prems(12) by (cases fuel) auto
  have full: "0 <s maxSimulated ks \<and> maxSimulated ks \<le>s simulated ks"
    using count_reached [of "maxSimulated ks" m] prems(8-10) by simp
  show ?case
  proof (cases "e_schedule env i (draws ks) (externalkubeclient ks) p")
    case (BindTo n)
    from round_last [OF prems(2,4-7) this full] show ?thesis unfolding f names.simps min_0L mult_0_right add_0_right
      by blast
  next
    case (Unschedulable msg)
    from round_give_up [OF prems(2,4-7) this prems(13)] show ?thesis unfolding f by blast
  qed (use prems(1) in blast)
next
  case (Suc k)
  note prems = Suc.prems
  obtain f where f: "fuel = Suc f" using prems(12) by (cases fuel) auto
  show ?case
  proof (cases "e_schedule env i (draws ks) (externalkubeclient ks) p")
    case (BindTo n)
    have full: "\<not> (0 <s maxSimulated ks \<and> maxSimulated ks \<le>s simulated ks)"
      using count_reached [of "maxSimulated ks" m] prems(8-10) by simp
    have fr: "objs (externalkubeclient ks) Pods (next_key env (draws ks) sp) = None"
      "next_key env (draws ks) sp \<notin> set (names env sp (Suc (Suc (draws ks))) k)"
      "fresh_names env sp (Suc (Suc (draws ks))) k (objs (externalkubeclient ks) Pods)"
      using prems(11) by (simp_all add: fresh_names_Suc)
    from round_next [OF prems(2,3,4) BindTo full fr(1), where fuel = f] obtain q ks2 where q:
      "pod_key q = next_key env (draws ks) sp" "simulates ks sp q"
      "await (Suc f) i env p ks = await f (Suc i) env q ks2"
      "tracker_wf (externalkubeclient ks2)" "same_job ks ks2"
      "objs (externalkubeclient ks2) = (objs (externalkubeclient ks))(Pods :=
         (objs (externalkubeclient ks) Pods)(pod_key p \<mapsto> PodObj (bound_pod p n), pod_key q \<mapsto> PodObj q))"
      "simulated ks2 = simulated ks + 1" "draws ks2 = Suc (Suc (draws ks))"
      "stop ks2 = stop ks" "closeable ks2 = closeable ks"
      "st_Pods (status ks2) = st_Pods (status ks) @ [bound_pod p n]"
      by blast
    have ne: "pod_key p \<noteq> pod_key q" using prems(4) fr(1) q(1) by auto
    have notin: "pod_key p \<notin> set (names env sp (Suc (Suc (draws ks))) k)"
      using fr(3) prems(4) by (auto simp: fresh_names_def)
    have "fresh_names env sp (draws ks2) k (objs (externalkubeclient ks2) Pods)"
      using fr notin q(1,6,8) by (auto simp: fresh_names_def)
    moreover have "simulatedPod ks2 = Some sp" "maxSimulated ks2 = maxSimulated ks"
      using q(5) prems(3) by (simp_all add: same_job_def)
    moreover have "simulates ks2 sp q" using q(2) simulates_cong [OF q(5)] by simp
    moreover have "objs (externalkubeclient ks2) Pods (pod_key q) = Some (PodObj q)" using q(6) by simp
    moreover have "simulated ks2 = word_of_nat (Suc m)" using q(7) prems(10) by (simp add: add.commute)
    ultimately obtain bound ks' where ks': "await f (Suc i) env q ks2 = (Ok (), ks')" "stop ks' = ChanOpen"
      "round_result ks2 sp (pod_key q # names env sp (draws ks2) k)
        ((objs (externalkubeclient ks2) Pods)(pod_key q := None)) bound ks'"
      "draws ks' = draws ks2 + 2 * min k (length bound)"
      using Suc.IH [of ks2 q "Suc m" f "Suc i"] prems(1,6-9,12,13) q(4,9,10) f
      by (auto simp del: fun_upd_apply)
    have new: "objs (externalkubeclient ks) Pods (pod_key q) = None" using fr(1) q(1) by simp
    have "((objs (externalkubeclient ks2) Pods))(pod_key q := None) =
        (objs (externalkubeclient ks) Pods)(pod_key p \<mapsto> PodObj (bound_pod p n))"
      using q(6) ne new by (intro ext) simp
    moreover have "objs (externalkubeclient ks2) =
        (objs (externalkubeclient ks))(Pods := objs (externalkubeclient ks2) Pods)"
      by (simp add: q(6))
    moreover have "pod_key p \<notin> set (pod_key q # names env sp (draws ks2) k)"
      using ne notin q(8) by simp
    ultimately have "round_result ks sp (pod_key p # pod_key q # names env sp (draws ks2) k)
        ((objs (externalkubeclient ks) Pods)(pod_key p := None)) (bound_pod p n # bound) ks'"
      using round_result_Cons [OF ks'(3) q(5)] q(11) prems(5) by blast
    moreover have "draws ks' = draws ks + 2 * min (Suc k) (length (bound_pod p n # bound))"
      using ks'(4) q(8) by simp
    ultimately show ?thesis unfolding f names.simps q(3) using ks'(1,2) unfolding q(1,8) by blast
  next
    case (Unschedulable msg)
    from round_give_up [OF prems(2,4-7) this prems(13)] show ?thesis unfolding f by blast
  qed (use prems(1) in blast)
qed

text \<open>The scheduler always answers.\<close>

definition answers :: "env \<Rightarrow> bool" where
  "answers env \<longleftrightarrow> (\<forall>i d t p. e_schedule env i d t p \<noteq> NotYet)"

lemma closed_is_done:
  "stop ks = ChanOpen \<Longrightarrow> close_stop ks = (Ok (), ks\<lparr>stop := ChanClosed\<rparr>)"
  by (simp add: close_stop_def)

lemma round_result_stop [simp]: "round_result ks sp ns old bound (ks'\<lparr>stop := c\<rparr>) = round_result ks sp ns old bound ks'"
  by (simp add: round_result_def same_job_def)

lemma SchedulerPod_round:
  assumes ans: "answers env"
    and wf: "tracker_wf (externalkubeclient ks)" and sp: "simulatedPod ks = Some sp"
    and zero: "simulated ks = 0" and cl: "closeable ks" and st: "stop ks = ChanOpen"
    and pos: "0 < sint (maxSimulated ks)" and N: "N = nat (sint (maxSimulated ks))"
    and fresh: "fresh_names env sp (draws ks) N (objs (externalkubeclient ks) Pods)" and fuel: "N \<le> fuel"
    and un: "unmarked sp"
  shows "\<exists>bound ks'. SchedulerPod fuel env ks = (Ok (), ks') \<and> stop ks' = ChanClosed \<and>
    draws ks' = draws ks + 2 * min N (Suc (length bound)) \<and>
    round_result ks sp (names env sp (draws ks) N) (objs (externalkubeclient ks) Pods) bound ks'"
proof -
  have "N \<noteq> 0" using pos N by simp
  then obtain k where k: "N = Suc k" using not0_implies_Suc by blast
  let ?p = "simulated_pod env ks sp"
  note fr = fresh [unfolded k fresh_names_Suc]
  from nextPod_new [OF sp wf conjunct1 [OF fr]] obtain t where t:
    "nextPod env ks = (Ok (), ks\<lparr>simulated := simulated ks + 1, lastSimulatedPod := Some ?p,
       draws := draws ks + 2, externalkubeclient := t\<rparr>)" "tracker_wf t"
    "objs t = (objs (externalkubeclient ks))(Pods :=
       (objs (externalkubeclient ks) Pods)(next_key env (draws ks) sp \<mapsto> PodObj ?p))"
    by blast
  define ks1 where "ks1 = ks\<lparr>simulated := simulated ks + 1, lastSimulatedPod := Some ?p,
       draws := draws ks + 2, externalkubeclient := t\<rparr>"
  have f1: "simulatedPod ks1 = Some sp" "maxSimulated ks1 = maxSimulated ks" "stop ks1 = ChanOpen"
    "closeable ks1" "draws ks1 = Suc (Suc (draws ks))" "externalkubeclient ks1 = t"
    "simulated ks1 = word_of_nat 1" "same_job ks ks1" "status ks1 = status ks" "same_job ks1 ks1"
    using sp st cl zero by (simp_all add: ks1_def closeable_def same_job_def)
  have last: "lastSimulatedPod ks1 = Some ?p" by (simp add: ks1_def)
  have "simulates ks1 sp ?p"
  proof -
    have "ours ks ?p" by (rule simulated_pod_simps(2))
    then have "ours ks1 ?p" unfolding ours_def by (simp add: ks1_def)
    then show ?thesis by (simp add: simulates_def)
  qed
  moreover have "fresh_names env sp (draws ks1) k (objs t Pods)"
    using fr f1(5) by (auto simp: fresh_names_def t(3))
  moreover have "objs t Pods (pod_key ?p) = Some (PodObj ?p)" by (simp add: t(3))
  moreover have "0 < sint (maxSimulated ks1)" "sint (maxSimulated ks1) = int (1 + k)" "k < fuel"
    using pos N k fuel f1(2) by simp_all
  ultimately obtain bound ks' where ks': "await fuel 0 env ?p ks1 = (Ok (), ks')" "stop ks' = ChanOpen"
    "round_result ks1 sp (pod_key ?p # names env sp (draws ks1) k)
      ((objs (externalkubeclient ks1) Pods)(pod_key ?p := None)) bound ks'"
    "draws ks' = draws ks1 + 2 * min k (length bound)"
    using await_round [OF ans [unfolded answers_def], of ks1 sp ?p 1 k fuel 0] t(2) f1 un by metis
  have old: "(objs (externalkubeclient ks1) Pods)(pod_key ?p := None) = objs (externalkubeclient ks) Pods"
    using conjunct1 [OF fr] t(3) f1(6) by (intro ext) simp
  have "objs (externalkubeclient ks1) = (objs (externalkubeclient ks))(Pods := objs t Pods)"
    using t(3) f1(6) by simp
  then have "round_result ks sp (names env sp (draws ks) N) (objs (externalkubeclient ks) Pods) bound ks'"
    using ks'(3) f1(2,5,8,9) same_job_trans [OF f1(8)] simulates_cong [OF f1(8)] k old
    by (simp add: round_result_def split: if_splits)
  moreover have "SchedulerPod fuel env ks = (Ok (), ks'\<lparr>stop := ChanClosed\<rparr>)"
    using ks'(1,2) last unfolding SchedulerPod_def t(1) [folded ks1_def] by (simp add: closed_is_done)
  moreover have "draws ks' = draws ks + 2 * min N (Suc (length bound))"
    using ks'(4) f1(5) k by simp
  ultimately show ?thesis by (intro exI [of _ bound] exI [of _ "ks'\<lparr>stop := ChanClosed\<rparr>"]) simp
qed

section \<open>A round without a count\<close>

text \<open>
  With a count of zero or less the branch of \<open>Bind\<close> that ends the round is never taken: the round
  can only end when a pod cannot be scheduled.
\<close>

definition open_round :: "kubesim \<Rightarrow> pod \<Rightarrow> bool" where
  "open_round ks p \<longleftrightarrow> tracker_wf (externalkubeclient ks) \<and> simulatedPod ks \<noteq> None \<and>
     objs (externalkubeclient ks) Pods (pod_key p) \<noteq> None \<and> ours ks p \<and> closeable ks \<and>
     stop ks = ChanOpen \<and> sint (maxSimulated ks) \<le> 0"

lemma nextPod_cases:
  assumes "simulatedPod ks = Some sp" and "tracker_wf (externalkubeclient ks)"
  obtains (old) e where "nextPod env ks = (Err e, ks\<lparr>simulated := simulated ks + 1,
       lastSimulatedPod := Some (simulated_pod env ks sp), draws := draws ks + 2\<rparr>)"
  | (new) t where "nextPod env ks = (Ok (), ks\<lparr>simulated := simulated ks + 1,
       lastSimulatedPod := Some (simulated_pod env ks sp), draws := draws ks + 2,
       externalkubeclient := t\<rparr>)"
    and "tracker_wf t" and "objs t Pods (next_key env (draws ks) sp) \<noteq> None"
proof (cases "objs (externalkubeclient ks) Pods (next_key env (draws ks) sp) = None")
  case True
  from nextPod_new [OF assms this] new show thesis by (metis fun_upd_same option.distinct(1))
next
  case False
  then have "\<exists>e. create_obj Pods (PodObj (simulated_pod env ks sp)) (externalkubeclient ks) = Inl e"
    by (auto simp: create_obj_eq)
  with assms(1) old show thesis by (auto simp: nextPod_def Let_def)
qed

lemma open_round_bind:
  assumes "open_round ks p"
  obtains (again) e ks' where "Bind env p n ks = (Err e, ks')" and "open_round ks' p"
  | (more) p' ks' where "Bind env p n ks = (Ok BindDone, ks')" and "lastSimulatedPod ks' = Some p'"
    and "open_round ks' p'"
proof -
  from assms obtain sp where sp: "simulatedPod ks = Some sp" and wf: "tracker_wf (externalkubeclient ks)"
    by (auto simp: open_round_def)
  from assms obtain x where x: "objs (externalkubeclient ks) Pods (pod_key p) = Some x"
    by (auto simp: open_round_def)
  obtain q where q: "objs (externalkubeclient ks) Pods (pod_key p) = Some (PodObj q)"
    by (rule pod_stored [OF wf x]) (use x in simp)
  have nf: "\<not> (0 <s maxSimulated ks \<and> maxSimulated ks \<le>s simulated ks)"
    using assms by (simp add: open_round_def word_sless_alt)
  from Bind_found [OF wf q, where n = n and env = env] obtain t where t: "tracker_wf t"
    "objs t = (objs (externalkubeclient ks))(Pods :=
       (objs (externalkubeclient ks) Pods)(pod_key p \<mapsto> PodObj (bound_pod q n)))"
    "Bind env p n ks = (case nextPod env (after_bind q n t ks) of
               (Ok _, ks2) \<Rightarrow> (Ok BindDone, ks2)
             | (Err e, ks2) \<Rightarrow> (Err (Wrap ''Unable to create next pod to schedule'' e), ks2)
             | (Panic x, ks2) \<Rightarrow> (Panic x, ks2)
             | (Hang, ks2) \<Rightarrow> (Hang, ks2))"
    unfolding if_not_P [OF nf] by blast
  let ?k = "after_bind q n t ks"
  have k: "simulatedPod ?k = Some sp" "tracker_wf (externalkubeclient ?k)" using sp t(1) by simp_all
  have keep: "ours ?k p" "closeable ?k" "stop ?k = ChanOpen" "sint (maxSimulated ?k) \<le> 0"
    using assms by (simp_all add: open_round_def ours_def)
  from k show thesis
  proof (cases rule: nextPod_cases [where env = env])
    case (old e)
    moreover have "open_round (?k\<lparr>simulated := simulated ?k + 1,
       lastSimulatedPod := Some (simulated_pod env ?k sp), draws := draws ?k + 2\<rparr>) p"
      using keep k t(2) by (simp add: open_round_def ours_def closeable_def)
    ultimately show thesis using again t(3) by simp
  next
    case (new t')
    let ?k' = "?k\<lparr>simulated := simulated ?k + 1, lastSimulatedPod := Some (simulated_pod env ?k sp),
       draws := draws ?k + 2, externalkubeclient := t'\<rparr>"
    have "ours ?k (simulated_pod env ?k sp)" by (rule simulated_pod_simps(2))
    then have "ours ?k' (simulated_pod env ?k sp)" unfolding ours_def by simp
    then have "open_round ?k' (simulated_pod env ?k sp)"
      using keep k new(2,3) by (simp add: open_round_def closeable_def)
    then show thesis using more [of ?k' "simulated_pod env ?k sp"] t(3) new(1) by simp
  qed
qed

definition gave_up :: "(kubesim, unit) outcome \<Rightarrow> bool" where
  "gave_up r \<longleftrightarrow> fst r = Hang \<or>
     (\<exists>ks' msg. r = (Ok (), ks') \<and> stop ks' = ChanOpen \<and>
        st_StopReason (status ks') = unschedulable_reason msg)"

lemma await_open_round: "open_round ks p \<Longrightarrow> gave_up (await fuel i env p ks)"
proof (induction fuel arbitrary: i p ks)
  case 0
  then show ?case by (simp add: gave_up_def)
next
  case (Suc fuel)
  show ?case
  proof (cases "e_schedule env i (draws ks) (externalkubeclient ks) p")
    case (BindTo n)
    from Suc.prems show ?thesis
    proof (cases rule: open_round_bind [where env = env and n = n])
      case (again e ks')
      with Suc.IH [OF again(2), of "Suc i"] BindTo show ?thesis by simp
    next
      case (more p' ks')
      with Suc.IH [OF more(3), of "Suc i"] BindTo show ?thesis by simp
    qed
  next
    case (Unschedulable msg)
    from Suc.prems have "tracker_wf (externalkubeclient ks)" "objs (externalkubeclient ks) Pods (pod_key p) \<noteq> None"
      "ours ks p" "closeable ks" "stop ks = ChanOpen"
      by (simp_all add: open_round_def)
    note o = this
    from o(1-4) show ?thesis
    proof (cases rule: schedule_failed_stored [where msg = msg])
      case same
      with Unschedulable Suc.IH [OF Suc.prems] show ?thesis by simp
    next
      case (stop n m ks')
      with Unschedulable o(5) show ?thesis by (simp add: gave_up_def send_stop_def) blast
    qed
  next
    case NotYet
    with Suc show ?thesis by simp
  qed
qed

lemma await_always_binds:
  "open_round ks p \<Longrightarrow> \<forall>i d t p. \<exists>n. e_schedule env i d t p = BindTo n \<Longrightarrow> fst (await fuel i env p ks) = Hang"
proof (induction fuel arbitrary: i p ks)
  case (Suc fuel)
  obtain n where n: "e_schedule env i (draws ks) (externalkubeclient ks) p = BindTo n"
    using Suc.prems(2) by metis
  from Suc.prems(1) show ?case
  proof (cases rule: open_round_bind [where env = env and n = n])
    case (again e ks')
    with Suc.IH [OF again(2) Suc.prems(2), of "Suc i"] n show ?thesis by simp
  next
    case (more p' ks')
    with Suc.IH [OF more(3) Suc.prems(2), of "Suc i"] n show ?thesis by simp
  qed
qed simp

text \<open>More fuel does not change the result of a round that ended.\<close>

lemma await_more_fuel:
  "await fuel i env p ks = (r, ks') \<Longrightarrow> r \<noteq> Hang \<Longrightarrow> fuel \<le> fuel' \<Longrightarrow> await fuel' i env p ks = (r, ks')"
proof (induction fuel arbitrary: fuel' i p ks)
  case (Suc fuel)
  then obtain f where f: "fuel' = Suc f" "fuel \<le> f" by (cases fuel') auto
  note IH = Suc.IH [OF _ Suc.prems(2) f(2)]
  show ?case
    using Suc.prems(1,2) unfolding f(1)
    by (auto simp: IH split: decision.splits prod.splits res.splits bind_end.splits option.splits if_splits)
qed simp

section \<open>Requests and their reports\<close>

lemma UpdatePodRequest_simps [simp]:
  "externalkubeclient (UpdatePodRequest sp n ks) = externalkubeclient ks"
  "simulatedPod (UpdatePodRequest sp n ks) = sp" "maxSimulated (UpdatePodRequest sp n ks) = n"
  "simulated (UpdatePodRequest sp n ks) = 0" "stop (UpdatePodRequest sp n ks) = ChanOpen"
  "draws (UpdatePodRequest sp n ks) = draws ks" "status (UpdatePodRequest sp n ks) = status ks"
  "fifoQueue (UpdatePodRequest sp n ks) = fifoQueue ks"
  "emulatorResult (UpdatePodRequest sp n ks) = emulatorResult ks"
  "predictionNode (UpdatePodRequest sp n ks) = predictionNode ks"
  "addNodeStrategy (UpdatePodRequest sp n ks) = addNodeStrategy ks"
  "defaultSchedulerName (UpdatePodRequest sp n ks) = defaultSchedulerName ks"
  by (simp_all add: UpdatePodRequest_def)

text \<open>The hypotheses under which a request runs to its end.\<close>

definition request_ok :: "nat \<Rightarrow> env \<Rightarrow> pod \<Rightarrow> 32 word \<Rightarrow> kubesim \<Rightarrow> bool" where
  "request_ok fuel env sp n ks \<longleftrightarrow> answers env \<and> tracker_wf (externalkubeclient ks) \<and> 0 < sint n \<and>
     fresh_names env sp (draws ks) (nat (sint n)) (objs (externalkubeclient ks) Pods) \<and>
     nat (sint n) \<le> fuel \<and> unmarked sp"

abbreviation round_of_request ::
  "env \<Rightarrow> pod \<Rightarrow> 32 word \<Rightarrow> kubesim \<Rightarrow> pod list \<Rightarrow> kubesim \<Rightarrow> bool" where
  "round_of_request env sp n ks bound ks' \<equiv>
     round_result (UpdatePodRequest (Some sp) n ks) sp (names env sp (draws ks) (nat (sint n)))
       (objs (externalkubeclient ks) Pods) bound ks'"

lemma request_round:
  assumes "request_ok fuel env sp n ks"
  obtains bound ks' where "SchedulerPod fuel env (UpdatePodRequest (Some sp) n ks) = (Ok (), ks')"
    and "stop ks' = ChanClosed" and "round_of_request env sp n ks bound ks'"
    and "draws ks' = draws ks + 2 * min (nat (sint n)) (Suc (length bound))"
  using SchedulerPod_round [of env "UpdatePodRequest (Some sp) n ks" sp "nat (sint n)" fuel] assms that
  by (auto simp: request_ok_def)

text \<open>The two reasons a round ends with have the form the report expects.\<close>

lemma schedulable_type:
  "\<exists>r. getMainFailReason (schedulable_reason n) = Ok r \<and> fr_Type r = ''Schedulable''"
  using getMainFailReason_form [of "''Schedulable''"
      "''Schedule the number of simulated pods: '' @ string_of_int (sint n)"]
  by (simp add: schedulable_reason_def)

lemma unschedulable_type:
  "\<exists>r. getMainFailReason (unschedulable_reason msg) = Ok r \<and> fr_Type r = ''Unschedulable''"
  using getMainFailReason_form [of "''Unschedulable''" msg] by (simp add: unschedulable_reason_def)

lemma Report_round:
  assumes rr: "round_of_request env sp n ks bound ks'" and none: "st_Pods (status ks) = []"
    and pos: "0 < sint n"
  obtains rv reason rd where "Report env ks' = (Ok rv, ks'\<lparr>ks_report := Some rv\<rparr>)"
    and "rev_Spec rv = getReviewSpec (e_isScalar env) [sp] n"
    and "rev_Replicas (rev_Status rv) = word_of_nat (length bound)"
    and "rev_Reason (rev_Status rv) = Some reason"
    and "fr_Type reason = (if length bound = nat (sint n) then ''Schedulable'' else ''Unschedulable'')"
    and "rev_Pods (rev_Status rv) = [rd]" and "UsName rd = pod_Name sp"
    and "ReplicasOnNodes rd = fold bump_node (map (\<lambda>q. NodeName (pod_Spec q)) bound) []"
proof -
  have st: "st_Pods (status ks') = bound" using rr none by (simp add: round_result_def)
  have job: "simulatedPod ks' = Some sp" "maxSimulated ks' = n"
    using rr by (simp_all add: round_result_def same_job_def)
  obtain reason where reason: "getMainFailReason (st_StopReason (status ks')) = Ok reason"
    "fr_Type reason = (if length bound = nat (sint n) then ''Schedulable'' else ''Unschedulable'')"
  proof (cases "length bound = nat (sint n)")
    case True
    with rr have "st_StopReason (status ks') = schedulable_reason n" by (simp add: round_result_def)
    with True that show thesis using schedulable_type [of n] by auto
  next
    case False
    with rr obtain msg where "st_StopReason (status ks') = unschedulable_reason msg"
      by (auto simp: round_result_def)
    with False that show thesis using unschedulable_type [of msg] by auto
  qed
  from GetReport_one [OF reason(1), of "e_isScalar env" sp n] obtain rv rd where
    "GetReport (e_isScalar env) [sp] (status ks') n = Ok rv"
    "rev_Spec rv = getReviewSpec (e_isScalar env) [sp] n"
    "rev_Replicas (rev_Status rv) = word_of_nat (length bound)"
    "rev_Reason (rev_Status rv) = Some reason" "rev_Pods (rev_Status rv) = [rd]" "UsName rd = pod_Name sp"
    "ReplicasOnNodes rd = fold bump_node (map (\<lambda>q. NodeName (pod_Spec q)) bound) []"
    unfolding st by blast
  then show thesis using that [of rv reason rd] reason(2) job by (simp add: Report_def)
qed

section \<open>Properties\<close>

text \<open>
  C11. A request for \<open>n > 0\<close> replicas ends: when the scheduler answers every question and the names
  the request may use are free, \<open>SchedulerPod\<close> returns after at most \<open>n\<close> decisions and leaves the
  channel \<open>stop\<close> closed. The pods bound in the round are stored, running and marked as kubesim's;
  their names are the first ones of the request, so they are new and all different; every other
  object of the cluster is as before, and the pending pod is gone. The reason is Schedulable when
  all \<open>n\<close> pods were bound, and Unschedulable when fewer were.
\<close>

theorem request_completes:
  assumes "request_ok fuel env sp n ks"
  shows "\<exists>bound ks'. SchedulerPod fuel env (UpdatePodRequest (Some sp) n ks) = (Ok (), ks') \<and>
    stop ks' = ChanClosed \<and> round_of_request env sp n ks bound ks'"
  using request_round [OF assms] by blast

lemma example_request_ok:
  "(\<And>i. sched i \<noteq> NotYet) \<Longrightarrow>
   request_ok 2 (example_env sched) (example_pod ''web'' []) 2 (New ''addNode'' (\<lambda>_. []))"
proof -
  assume a: "\<And>i. sched i \<noteq> NotYet"
  note u = example_uuids
  have "fresh_names (example_env sched) (example_pod ''web'' []) 0 2 Map.empty"
    by (simp add: fresh_names_def next_key_def u numeral_2_eq_2)
       (simp add: u flip: numeral_2_eq_2)
  moreover have "objs (\<lambda>_. []) Pods = Map.empty" by (simp add: objs_def)
  moreover have "tracker_wf (\<lambda>_. [])" by (simp add: tracker_wf_def)
  ultimately show ?thesis using a
    by (simp add: request_ok_def answers_def example_env_def New_def unmarked_def example_pod_def empty_status_def)
qed

definition one_then_full :: "nat \<Rightarrow> decision" where
  "one_then_full i = (if i = 0 then BindTo ''n1'' else Unschedulable ''no node left'')"

theorem request_completes_witness:
  "\<exists>bound ks'. SchedulerPod 2 (example_env one_then_full)
      (UpdatePodRequest (Some (example_pod ''web'' [])) 2 (New ''addNode'' (\<lambda>_. []))) = (Ok (), ks') \<and>
    round_of_request (example_env one_then_full) (example_pod ''web'' []) 2 (New ''addNode'' (\<lambda>_. []))
      bound ks'"
proof -
  have "one_then_full i \<noteq> NotYet" for i by (simp add: one_then_full_def)
  from request_completes [OF example_request_ok [of one_then_full, OF this]] show ?thesis by blast
qed

text \<open>
  C19. The report of a request's round always exists: \<open>Report\<close> does not panic on the reason the round
  left. It repeats the request, gives as replicas the number of pods bound in the round, has type
  Schedulable exactly when all replicas were bound, and lists every node that got pods once, with
  their number; these numbers add up to the replicas.
\<close>

theorem request_reported:
  assumes "request_ok fuel env sp n ks" and "st_Pods (status ks) = []"
  shows "\<exists>bound ks' rv reason rd.
    SchedulerPod fuel env (UpdatePodRequest (Some sp) n ks) = (Ok (), ks') \<and>
    Report env ks' = (Ok rv, ks'\<lparr>ks_report := Some rv\<rparr>) \<and>
    rev_Spec rv = getReviewSpec (e_isScalar env) [sp] n \<and>
    st_Pods (status ks') = bound \<and> length bound \<le> nat (sint n) \<and>
    rev_Replicas (rev_Status rv) = word_of_nat (length bound) \<and>
    rev_Reason (rev_Status rv) = Some reason \<and>
    fr_Type reason = (if length bound = nat (sint n) then ''Schedulable'' else ''Unschedulable'') \<and>
    rev_Pods (rev_Status rv) = [rd] \<and> distinct (map ron_NodeName (ReplicasOnNodes rd)) \<and>
    (\<forall>node. ron_map (ReplicasOnNodes rd) node =
       (let c = count_list (map (\<lambda>q. NodeName (pod_Spec q)) bound) node
        in if c = 0 then None else Some (int c))) \<and>
    instancesSum (ReplicasOnNodes rd) = int (length bound)"
proof -
  from assms(1) have pos: "0 < sint n" by (simp add: request_ok_def)
  obtain bound ks' where r: "SchedulerPod fuel env (UpdatePodRequest (Some sp) n ks) = (Ok (), ks')"
    "round_of_request env sp n ks bound ks'"
    using request_round [OF assms(1)] by blast
  obtain rv reason rd where rv: "Report env ks' = (Ok rv, ks'\<lparr>ks_report := Some rv\<rparr>)"
    "rev_Spec rv = getReviewSpec (e_isScalar env) [sp] n"
    "rev_Replicas (rev_Status rv) = word_of_nat (length bound)" "rev_Reason (rev_Status rv) = Some reason"
    "fr_Type reason = (if length bound = nat (sint n) then ''Schedulable'' else ''Unschedulable'')"
    "rev_Pods (rev_Status rv) = [rd]"
    and rd: "ReplicasOnNodes rd = fold bump_node (map (\<lambda>q. NodeName (pod_Spec q)) bound) []"
    using Report_round [OF r(2) assms(2) pos] by blast
  let ?ns = "map (\<lambda>q. NodeName (pod_Spec q)) bound"
  have counts: "distinct (map ron_NodeName (ReplicasOnNodes rd))"
    "ron_map (ReplicasOnNodes rd) m = (if m \<in> set ?ns then Some (int (count_list ?ns m)) else None)"
    "instancesSum (ReplicasOnNodes rd) = int (length bound)" for m
    using bump_nodes_count [of "[]" ?ns] instancesSum_bumps [of "[]" ?ns]
    unfolding rd by (simp_all add: ron_map_def instancesSum_def)
  have "ron_map (ReplicasOnNodes rd) m =
      (let c = count_list ?ns m in if c = 0 then None else Some (int c))" for m
    unfolding counts(2) by (simp add: Let_def count_list_0_iff)
  moreover have "st_Pods (status ks') = bound" "length bound \<le> nat (sint n)"
    using r(2) assms(2) by (auto simp: round_result_def split: if_splits)
  ultimately show ?thesis using r(1) rv counts(1,3) by blast
qed

theorem request_reported_witness:
  "\<exists>ks' rv reason rd. SchedulerPod 2 (example_env one_then_full)
      (UpdatePodRequest (Some (example_pod ''web'' [])) 2 (New ''addNode'' (\<lambda>_. []))) = (Ok (), ks') \<and>
    Report (example_env one_then_full) ks' = (Ok rv, ks'\<lparr>ks_report := Some rv\<rparr>) \<and>
    rev_Reason (rev_Status rv) = Some reason \<and> length (st_Pods (status ks')) \<le> 2 \<and>
    rev_Pods (rev_Status rv) = [rd] \<and> instancesSum (ReplicasOnNodes rd) = int (length (st_Pods (status ks')))"
proof -
  have a: "one_then_full i \<noteq> NotYet" for i by (simp add: one_then_full_def)
  have b: "st_Pods (status (New ''addNode'' (\<lambda>_. []))) = []" by (simp add: New_def)
  have c: "nat (sint (2 :: 32 word)) = 2" by simp
  from request_reported [OF example_request_ok [of one_then_full, OF a] b] show ?thesis unfolding c by blast
qed

text \<open>
  C30. A request for zero or fewer replicas is not empty: the count means "no limit". Its round never
  ends as Schedulable. It ends only when a pod cannot be scheduled any more, with the reason
  Unschedulable; with a scheduler that always finds a node it does not end at all, for any fuel.
\<close>

theorem unlimited_request_fills_cluster:
  assumes "tracker_wf (externalkubeclient ks)" and "sint n \<le> 0"
    and "objs (externalkubeclient ks) Pods (next_key env (draws ks) sp) = None"
  shows "(case SchedulerPod fuel env (UpdatePodRequest (Some sp) n ks) of
      (Hang, ks') \<Rightarrow> True
    | (Ok _, ks') \<Rightarrow> \<exists>msg. st_StopReason (status ks') = unschedulable_reason msg
    | (_, ks') \<Rightarrow> False) \<and>
   ((\<forall>i d t p. \<exists>n. e_schedule env i d t p = BindTo n) \<longrightarrow>
      fst (SchedulerPod fuel env (UpdatePodRequest (Some sp) n ks)) = Hang)"
proof -
  let ?ks = "UpdatePodRequest (Some sp) n ks"
  have pre: "simulatedPod ?ks = Some sp" "tracker_wf (externalkubeclient ?ks)"
    "objs (externalkubeclient ?ks) Pods (next_key env (draws ?ks) sp) = None"
    using assms by simp_all
  from nextPod_new [OF pre] obtain t where t: "nextPod env ?ks = (Ok (), ?ks\<lparr>simulated := simulated ?ks + 1,
       lastSimulatedPod := Some (simulated_pod env ?ks sp), draws := draws ?ks + 2,
       externalkubeclient := t\<rparr>)" "tracker_wf t"
    and o: "objs t = (objs (externalkubeclient ?ks))(Pods := (objs (externalkubeclient ?ks) Pods)
       (next_key env (draws ?ks) sp \<mapsto> PodObj (simulated_pod env ?ks sp)))"
    by blast
  have t3: "objs t Pods (next_key env (draws ks) sp) \<noteq> None" by (simp add: o)
  define ks1 where "ks1 = ?ks\<lparr>simulated := simulated ?ks + 1,
       lastSimulatedPod := Some (simulated_pod env ?ks sp), draws := draws ?ks + 2,
       externalkubeclient := t\<rparr>"
  have "ours ?ks (simulated_pod env ?ks sp)" by (rule simulated_pod_simps(2))
  then have "ours ks1 (simulated_pod env ?ks sp)" unfolding ours_def by (simp add: ks1_def)
  moreover have "closeable ks1" by (simp add: closeable_def ks1_def UpdatePodRequest_def)
  ultimately have op: "open_round ks1 (simulated_pod env ?ks sp)"
    using t(2) t3 assms(2) by (simp add: open_round_def ks1_def)
  have S: "SchedulerPod fuel env ?ks =
      seq (await fuel 0 env (simulated_pod env ?ks sp) ks1) (\<lambda>_ ks2. close_stop ks2) id"
    unfolding SchedulerPod_def t(1) ks1_def by simp
  obtain r ks2 where r: "await fuel 0 env (simulated_pod env ?ks sp) ks1 = (r, ks2)" by fastforce
  from await_open_round [OF op, of fuel 0 env] show ?thesis
    unfolding S r gave_up_def using await_always_binds [OF op, of env fuel 0] r
    by (auto simp: closed_is_done) blast+
qed

theorem unlimited_request_fills_cluster_witness:
  "fst (SchedulerPod 1000 (example_env (\<lambda>_. BindTo ''n1''))
     (UpdatePodRequest (Some (example_pod ''web'' [])) (- 1) (New ''addNode'' (\<lambda>_. [])))) = Hang"
proof -
  have a: "tracker_wf (externalkubeclient (New ''addNode'' (\<lambda>_. [])))"
    "objs (externalkubeclient (New ''addNode'' (\<lambda>_. []))) Pods k = None" for k
    by (simp_all add: New_def tracker_wf_def objs_def)
  from unlimited_request_fills_cluster [OF a(1) _ a(2), where n = "- 1" and fuel = 1000 and
      env = "example_env (\<lambda>_. BindTo ''n1'')" and sp = "example_pod ''web'' []"]
  show ?thesis by (simp add: example_env_def)
qed

end
