(* ===== verification/Emulators.thy ===== *)
theory Emulators
  imports Scheduling
begin

text \<open>
  The jobs of the worker in \<open>simulator.go\<close>: \<open>appsEmulator\<close>, \<open>appsPodEmulator\<close>, \<open>HorizontalEmulator\<close> and
  \<open>VerticalEmulator\<close>, with the helpers on single pods, and the report on a job that
  \<open>NewEmulatorReport\<close> of \<open>scheduler_emulator.go\<close> computes.

  Each emulator runs the same loop over its requests, written out in every function of the source:
  \<open>run_apps\<close>. A panic of a round is a panic of the worker's goroutine. The fuel is that of
  \<open>SchedulerPod\<close> and bounds the decisions of one request.
\<close>

section \<open>The loop over the requests\<close>

fun with_err :: "(gerr \<Rightarrow> gerr) \<Rightarrow> ('s, 'a) outcome \<Rightarrow> ('s, 'a) outcome" where
  "with_err f (Err e, s) = (Err (f e), s)"
| "with_err f (r, s) = (r, s)"

fun run_apps ::
  "nat \<Rightarrow> env \<Rightarrow> pod_request list \<Rightarrow> review list \<Rightarrow> kubesim \<Rightarrow> (kubesim, review list) outcome" where
  "run_apps fuel env [] reportlist ks = (Ok reportlist, ks)"
| "run_apps fuel env (app # apps) reportlist ks =
     seq (with_err (Wrap ''Unable to create next pod to schedule'')
            (SchedulerPod fuel env (UpdatePodRequest (pr_Pod app) (pr_Replicas app) ks)))
       (\<lambda>_ ks1. seq (Report env ks1)
          (\<lambda>report ks2. run_apps fuel env apps (reportlist @ [report]) (CleanStatusPods ks2)) id) id"

text \<open>Names that stay free for all pods of a job, whatever number of UUIDs each round draws.\<close>

definition unique_draws :: "env \<Rightarrow> pod list \<Rightarrow> nat \<Rightarrow> nat \<Rightarrow> (key \<rightharpoonup> kobj) \<Rightarrow> bool" where
  "unique_draws env pods d m store \<longleftrightarrow>
     (\<forall>sp \<in> set pods. \<forall>i \<in> {d..<d + m}. store (next_key env i sp) = None) \<and>
     (\<forall>sp \<in> set pods. \<forall>sp' \<in> set pods. \<forall>i \<in> {d..<d + m}. \<forall>j \<in> {d..<d + m}.
        next_key env i sp = next_key env j sp' \<longrightarrow> i = j)"

definition replicas_of :: "pod_request \<Rightarrow> nat" where
  "replicas_of app = nat (sint (pr_Replicas app))"

definition total_replicas :: "pod_request list \<Rightarrow> nat" where
  "total_replicas apps = sum_list (map replicas_of apps)"

definition request_pods :: "pod_request list \<Rightarrow> pod list" where
  "request_pods apps = List.map_filter pr_Pod apps"

definition valid_request :: "nat \<Rightarrow> pod_request \<Rightarrow> bool" where
  "valid_request fuel app \<longleftrightarrow> (\<exists>sp. pr_Pod app = Some sp \<and> unmarked sp) \<and> 0 < sint (pr_Replicas app) \<and> replicas_of app \<le> fuel"

definition requests_ok :: "nat \<Rightarrow> env \<Rightarrow> pod_request list \<Rightarrow> kubesim \<Rightarrow> bool" where
  "requests_ok fuel env apps ks \<longleftrightarrow> answers env \<and> tracker_wf (externalkubeclient ks) \<and>
     st_Pods (status ks) = [] \<and> (\<forall>app \<in> set apps. valid_request fuel app) \<and>
     unique_draws env (request_pods apps) (draws ks) (2 * total_replicas apps)
       (objs (externalkubeclient ks) Pods)"

text \<open>What a report says about its request.\<close>

definition report_of :: "env \<Rightarrow> pod_request \<Rightarrow> review \<Rightarrow> bool" where
  "report_of env app rv \<longleftrightarrow>
     (\<exists>sp c reason. pr_Pod app = Some sp \<and> c \<le> replicas_of app \<and>
        rev_Spec rv = getReviewSpec (e_isScalar env) [sp] (pr_Replicas app) \<and>
        rev_Replicas (rev_Status rv) = word_of_nat c \<and> rev_Reason (rev_Status rv) = Some reason \<and>
        fr_Type reason = (if c = replicas_of app then ''Schedulable'' else ''Unschedulable''))"

text \<open>The books of the simulator, which a round does not touch.\<close>

definition same_books :: "kubesim \<Rightarrow> kubesim \<Rightarrow> bool" where
  "same_books ks ks' \<longleftrightarrow> emulatorResult ks' = emulatorResult ks \<and> predictionNode ks' = predictionNode ks \<and>
     fifoQueue ks' = fifoQueue ks \<and> addNodeStrategy ks' = addNodeStrategy ks \<and>
     defaultSchedulerName ks' = defaultSchedulerName ks"

lemma same_books_refl [simp]: "same_books ks ks"
  by (simp add: same_books_def)

lemma same_books_trans: "same_books a b \<Longrightarrow> same_books b c \<Longrightarrow> same_books a c"
  by (simp add: same_books_def)

lemma same_job_books: "same_job (UpdatePodRequest p n ks) ks' \<Longrightarrow> same_books ks ks'"
  by (simp add: same_job_def same_books_def)

definition kubesim_pods :: "(key \<rightharpoonup> kobj) \<Rightarrow> bool" where
  "kubesim_pods m \<longleftrightarrow> (\<forall>k x. m k = Some x \<longrightarrow> sel_matches kubesim_selector (obj_labels x))"

lemma names_eq: "names env sp d n = map (\<lambda>j. next_key env (d + 2 * j) sp) [0..<n]"
proof (induction n arbitrary: d)
  case (Suc n)
  have "map (\<lambda>j. next_key env (d + 2 * j) sp) [0..<Suc n] =
      next_key env d sp # map (\<lambda>j. next_key env (Suc (Suc d) + 2 * j) sp) [0..<n]"
    by (simp add: upt_conv_Cons map_Suc_upt [symmetric] comp_def del: upt_Suc map_Suc_upt)
  with Suc show ?case by simp
qed simp

lemma unique_draws_fresh:
  assumes "unique_draws env pods d m store" and "sp \<in> set pods" and "2 * n \<le> m"
  shows "fresh_names env sp d n store"
proof -
  have "inj_on (\<lambda>j. next_key env (d + 2 * j) sp) {0..<n}"
  proof (rule inj_onI)
    fix i j assume ij: "i \<in> {0..<n}" "j \<in> {0..<n}"
      and eq: "next_key env (d + 2 * i) sp = next_key env (d + 2 * j) sp"
    have "d + 2 * i \<in> {d..<d + m}" "d + 2 * j \<in> {d..<d + m}" using ij assms(3) by auto
    then have "d + 2 * i = d + 2 * j"
      using assms(1,2) eq unfolding unique_draws_def by blast
    then show "i = j" by simp
  qed
  moreover have "store (next_key env (d + 2 * j) sp) = None" if "j < n" for j
  proof -
    have "d + 2 * j \<in> {d..<d + m}" using that assms(3) by auto
    then show ?thesis using assms(1,2) unfolding unique_draws_def by blast
  qed
  ultimately show ?thesis
    by (auto simp: fresh_names_def names_eq distinct_map)
qed

text \<open>After a round the rest of the names is still free.\<close>

lemma unique_draws_step:
  assumes u: "unique_draws env pods d m store" and "sp \<in> set pods"
    and keys: "map pod_key bound = take (length bound) (names env sp d n)"
    and len: "length bound \<le> n" and d': "d' = d + 2 * min n (Suc (length bound))" and "2 * n \<le> m"
    and sub: "set pods' \<subseteq> set pods" and m': "d' + m' \<le> d + m"
  shows "unique_draws env pods' d' m' (store ++ pods_map bound)"
proof -
  have old: "k \<in> dom (pods_map bound) \<Longrightarrow> \<exists>i. d \<le> i \<and> i < d' \<and> k = next_key env i sp" for k
  proof -
    assume "k \<in> dom (pods_map bound)"
    then have "k \<in> set (take (length bound) (names env sp d n))"
      unfolding dom_pods_map using keys by (metis set_map)
    then obtain j where j: "j < length bound" "k = next_key env (d + 2 * j) sp"
      using len by (auto simp: names_eq in_set_conv_nth)
    then show ?thesis using len d' by (intro exI [of _ "d + 2 * j"]) auto
  qed
  have dd: "d \<le> d'" using d' by simp
  have "(store ++ pods_map bound) (next_key env i sp') = None"
    if "sp' \<in> set pods'" "i \<in> {d'..<d' + m'}" for sp' i
  proof -
    have i: "i \<in> {d..<d + m}" using that(2) dd m' by auto
    have "next_key env i sp' \<notin> dom (pods_map bound)"
    proof
      assume "next_key env i sp' \<in> dom (pods_map bound)"
      then obtain j where j: "d \<le> j" "j < d'" "next_key env i sp' = next_key env j sp" using old by blast
      then have "j \<in> {d..<d + m}" using m' by auto
      with i j(3) that(1) sub assms(2) u have "i = j" unfolding unique_draws_def by blast
      with j(2) that(2) show False by simp
    qed
    moreover have "store (next_key env i sp') = None"
      using u i that(1) sub unfolding unique_draws_def by blast
    ultimately show ?thesis by (auto simp: map_add_None)
  qed
  moreover have "i = j" if "sp1 \<in> set pods'" "sp2 \<in> set pods'" "i \<in> {d'..<d' + m'}" "j \<in> {d'..<d' + m'}"
    "next_key env i sp1 = next_key env j sp2" for sp1 sp2 i j
  proof -
    have "i \<in> {d..<d + m}" "j \<in> {d..<d + m}" using that(3,4) dd m' by auto
    then show ?thesis using u that(1,2,5) sub unfolding unique_draws_def by blast
  qed
  ultimately show ?thesis unfolding unique_draws_def by blast
qed

lemma pods_map_Some: "pods_map ps k = Some x \<Longrightarrow> \<exists>q \<in> set ps. x = PodObj q \<and> k = pod_key q"
  by (induction ps) (auto simp: pods_map_Cons split: if_splits)

text \<open>One request: its round, its report, and the state the next request starts from.\<close>

lemma run_one:
  assumes "valid_request fuel app" and "answers env" and "tracker_wf (externalkubeclient ks)"
    and "st_Pods (status ks) = []" and "pr_Pod app = Some sp"
    and "fresh_names env sp (draws ks) (replicas_of app) (objs (externalkubeclient ks) Pods)"
  obtains bound rv ks' where
    "\<And>apps acc. run_apps fuel env (app # apps) acc ks = run_apps fuel env apps (acc @ [rv]) ks'"
    and "report_of env app rv" and "tracker_wf (externalkubeclient ks')" and "st_Pods (status ks') = []"
    and "same_books ks ks'" and "length bound \<le> replicas_of app"
    and "draws ks' = draws ks + 2 * min (replicas_of app) (Suc (length bound))"
    and "objs (externalkubeclient ks') = (objs (externalkubeclient ks))
      (Pods := objs (externalkubeclient ks) Pods ++ pods_map bound)"
    and "map pod_key bound = take (length bound) (names env sp (draws ks) (replicas_of app))"
    and "kubesim_pods (pods_map bound)"
proof -
  let ?n = "pr_Replicas app"
  have pos: "0 < sint ?n" using assms(1) by (simp add: valid_request_def)
  have "request_ok fuel env sp ?n ks"
    using assms by (simp add: request_ok_def valid_request_def replicas_of_def)
  then obtain bound ks1 where r: "SchedulerPod fuel env (UpdatePodRequest (Some sp) ?n ks) = (Ok (), ks1)"
    "round_of_request env sp ?n ks bound ks1"
    "draws ks1 = draws ks + 2 * min (nat (sint ?n)) (Suc (length bound))"
    by (rule request_round)
  obtain rv reason rd where rv: "Report env ks1 = (Ok rv, ks1\<lparr>ks_report := Some rv\<rparr>)"
    "rev_Spec rv = getReviewSpec (e_isScalar env) [sp] ?n"
    "rev_Replicas (rev_Status rv) = word_of_nat (length bound)" "rev_Reason (rev_Status rv) = Some reason"
    "fr_Type reason = (if length bound = nat (sint ?n) then ''Schedulable'' else ''Unschedulable'')"
    using Report_round [OF r(2) assms(4) pos] by blast
  have len: "length bound \<le> nat (sint ?n)"
    using r(2) by (auto simp: round_result_def split: if_splits)
  let ?ks' = "CleanStatusPods (ks1\<lparr>ks_report := Some rv\<rparr>)"
  have "run_apps fuel env (app # apps) acc ks = run_apps fuel env apps (acc @ [rv]) ?ks'" for apps acc
    using r(1) rv(1) assms(5) by simp
  moreover have "report_of env app rv"
    using rv len assms(5) unfolding report_of_def replicas_of_def by blast
  moreover have "same_books ks ?ks'"
    using r(2) same_job_books [of "Some sp" ?n ks ks1]
    by (simp add: round_result_def same_books_def CleanStatusPods_def)
  moreover have "kubesim_pods (pods_map bound)"
  proof -
    have "sel_matches kubesim_selector (obj_labels x)" if at: "pods_map bound k = Some x" for k x
    proof -
      obtain q where "q \<in> set bound" "x = PodObj q"
        using pods_map_Some [OF at] by blast
      with r(2) show ?thesis
        by (auto simp: round_result_def simulates_def ours_def kubesim_selector_def)
    qed
    then show ?thesis by (simp add: kubesim_pods_def)
  qed
  ultimately show thesis
    using that [of rv ?ks' bound] r(2,3) len
    by (simp add: round_result_def CleanStatusPods_def replicas_of_def)
qed

text \<open>After one request the rest of the requests can still be run.\<close>

lemma requests_step:
  assumes "requests_ok fuel env (app # apps) ks"
  obtains bound rv ks1 where
    "\<And>apps acc. run_apps fuel env (app # apps) acc ks = run_apps fuel env apps (acc @ [rv]) ks1"
    and "report_of env app rv" and "requests_ok fuel env apps ks1" and "same_books ks ks1"
    and "objs (externalkubeclient ks1) = (objs (externalkubeclient ks))
      (Pods := objs (externalkubeclient ks) Pods ++ pods_map bound)"
    and "dom (pods_map bound) \<inter> dom (objs (externalkubeclient ks) Pods) = {}"
    and "kubesim_pods (pods_map bound)"
    and "draws ks \<le> draws ks1" and "draws ks1 + 2 * total_replicas apps \<le> draws ks + 2 * total_replicas (app # apps)"
proof -
  note ok = assms [unfolded requests_ok_def]
  let ?t = "externalkubeclient ks"
  from ok obtain sp where sp: "pr_Pod app = Some sp" by (auto simp: valid_request_def)
  have pods: "request_pods (app # apps) = sp # request_pods apps"
    using sp by (simp add: request_pods_def map_filter_simps)
  have total: "total_replicas (app # apps) = replicas_of app + total_replicas apps"
    by (simp add: total_replicas_def)
  have u: "unique_draws env (sp # request_pods apps) (draws ks) (2 * total_replicas (app # apps)) (objs ?t Pods)"
    using ok pods by simp
  have fr: "fresh_names env sp (draws ks) (replicas_of app) (objs ?t Pods)"
    by (rule unique_draws_fresh [OF u]) (simp_all add: total)
  have v: "valid_request fuel app" "answers env" "tracker_wf ?t" "st_Pods (status ks) = []"
    using ok by simp_all
  obtain bound rv ks1 where one:
    "\<And>apps acc. run_apps fuel env (app # apps) acc ks = run_apps fuel env apps (acc @ [rv]) ks1"
    "report_of env app rv" "tracker_wf (externalkubeclient ks1)" "st_Pods (status ks1) = []"
    "same_books ks ks1" "length bound \<le> replicas_of app"
    "draws ks1 = draws ks + 2 * min (replicas_of app) (Suc (length bound))"
    "objs (externalkubeclient ks1) = (objs ?t)(Pods := objs ?t Pods ++ pods_map bound)"
    "map pod_key bound = take (length bound) (names env sp (draws ks) (replicas_of app))"
    "kubesim_pods (pods_map bound)"
    by (rule run_one [OF v sp fr]) blast
  have d1: "draws ks1 \<le> draws ks + 2 * replicas_of app" "draws ks \<le> draws ks1" using one(7) by simp_all
  have "unique_draws env (request_pods apps) (draws ks1) (2 * total_replicas apps) (objs ?t Pods ++ pods_map bound)"
    by (rule unique_draws_step [OF u _ one(9,6,7)]) (use d1 in \<open>auto simp: total\<close>)
  then have rest: "requests_ok fuel env apps ks1"
    using ok one(3,4,8) by (simp add: requests_ok_def)
  have "dom (pods_map bound) \<inter> dom (objs ?t Pods) = {}"
    using fr unfolding dom_pods_map fresh_names_def using one(9) set_take_subset
    by (metis (no_types, lifting) disjoint_iff set_map subsetD)
  then show thesis
    by (rule that [OF one(1,2) rest one(5,8) _ one(10) d1(2)]) (use d1(1) in \<open>simp add: total\<close>)
qed

lemma run_apps_ok:
  assumes "requests_ok fuel env apps ks"
  shows "\<exists>rvs ks' added. run_apps fuel env apps acc ks = (Ok (acc @ rvs), ks') \<and>
    list_all2 (report_of env) apps rvs \<and> tracker_wf (externalkubeclient ks') \<and>
    st_Pods (status ks') = [] \<and> same_books ks ks' \<and>
    objs (externalkubeclient ks') = (objs (externalkubeclient ks))
      (Pods := objs (externalkubeclient ks) Pods ++ added) \<and>
    dom added \<inter> dom (objs (externalkubeclient ks) Pods) = {} \<and> kubesim_pods added \<and>
    draws ks \<le> draws ks' \<and> draws ks' \<le> draws ks + 2 * total_replicas apps"
  using assms
proof (induction apps arbitrary: acc ks)
  case Nil
  have "objs (externalkubeclient ks) = (objs (externalkubeclient ks))
      (Pods := objs (externalkubeclient ks) Pods ++ Map.empty)" by simp
  with Nil show ?case
    by (intro exI [of _ "[]"] exI [of _ ks] exI [of _ Map.empty])
       (simp add: requests_ok_def kubesim_pods_def)
next
  case (Cons app apps)
  let ?t = "externalkubeclient ks"
  obtain bound rv ks1 where one:
    "\<And>apps acc. run_apps fuel env (app # apps) acc ks = run_apps fuel env apps (acc @ [rv]) ks1"
    "report_of env app rv" "requests_ok fuel env apps ks1" "same_books ks ks1"
    "objs (externalkubeclient ks1) = (objs ?t)(Pods := objs ?t Pods ++ pods_map bound)"
    "dom (pods_map bound) \<inter> dom (objs ?t Pods) = {}" "kubesim_pods (pods_map bound)"
    "draws ks \<le> draws ks1" "draws ks1 + 2 * total_replicas apps \<le> draws ks + 2 * total_replicas (app # apps)"
    by (rule requests_step [OF Cons.prems]) blast
  from Cons.IH [OF one(3), of "acc @ [rv]"] obtain rvs ks' added where rest:
    "run_apps fuel env apps (acc @ [rv]) ks1 = (Ok ((acc @ [rv]) @ rvs), ks')"
    "list_all2 (report_of env) apps rvs" "tracker_wf (externalkubeclient ks')"
    "st_Pods (status ks') = []" "same_books ks1 ks'"
    "objs (externalkubeclient ks') = (objs (externalkubeclient ks1))
      (Pods := objs (externalkubeclient ks1) Pods ++ added)"
    "dom added \<inter> dom (objs (externalkubeclient ks1) Pods) = {}" "kubesim_pods added"
    "draws ks1 \<le> draws ks'" "draws ks' \<le> draws ks1 + 2 * total_replicas apps"
    by blast
  let ?added = "pods_map bound ++ added"
  have "dom ?added \<inter> dom (objs ?t Pods) = {}" using rest(7) one(5,6) by auto
  moreover have "kubesim_pods ?added"
    using one(7) rest(8) by (auto simp: kubesim_pods_def map_add_Some_iff)
  moreover have "objs (externalkubeclient ks') = (objs ?t)(Pods := objs ?t Pods ++ ?added)"
    using rest(6) one(5) by simp
  moreover have "run_apps fuel env (app # apps) acc ks = (Ok (acc @ rv # rvs), ks')"
    using one(1) rest(1) by simp
  moreover have "list_all2 (report_of env) (app # apps) (rv # rvs)" using one(2) rest(2) by simp
  moreover have "draws ks' \<le> draws ks + 2 * total_replicas (app # apps)" "draws ks \<le> draws ks'"
    using one(8,9) rest(9,10) by simp_all
  ultimately show ?case
    using rest(3,4) same_books_trans [OF one(4) rest(5)] by blast
qed

section \<open>The emulators of whole applications\<close>

definition save_result :: "string \<Rightarrow> review list option \<Rightarrow> kubesim \<Rightarrow> kubesim" where
  "save_result key reports ks = ks\<lparr>emulatorResult := (emulatorResult ks)(key \<mapsto> reports)\<rparr>"

definition clean_up :: "kubesim \<Rightarrow> kubesim" where
  "clean_up ks = CleanStatusPods (snd (CleanPod ks))"

definition appsEmulator :: "nat \<Rightarrow> env \<Rightarrow> app_group \<Rightarrow> string \<Rightarrow> kubesim \<Rightarrow> (kubesim, review list) outcome" where
  "appsEmulator fuel env appgroup key ks =
     seq (run_apps fuel env (ag_Apps appgroup) [] ks)
       (\<lambda>reportlist ks1. (Ok reportlist, save_result key (Some reportlist) (clean_up ks1))) id"

definition HorizontalEmulator :: "nat \<Rightarrow> env \<Rightarrow> app_group \<Rightarrow> string \<Rightarrow> kubesim \<Rightarrow> (kubesim, review list) outcome" where
  "HorizontalEmulator fuel env appgroup key ks =
     seq (run_apps fuel env (ag_Apps appgroup) [] ks)
       (\<lambda>reportlist ks1. (Ok reportlist, save_result key (Some reportlist) (clean_up ks1))) id"

text \<open>The emulator behind the deprecated route keeps no result.\<close>

definition DeprecatedAppsEmulator :: "nat \<Rightarrow> env \<Rightarrow> pod_request list \<Rightarrow> kubesim \<Rightarrow> (kubesim, review list) outcome" where
  "DeprecatedAppsEmulator fuel env requests ks =
     seq (run_apps fuel env requests [] ks) (\<lambda>reportlist ks1. (Ok reportlist, clean_up ks1)) id"

lemma drop_matching_added:
  assumes "dom added \<inter> dom m = {}" and "kubesim_pods added"
  shows "drop_matching kubesim_selector (m ++ added) = drop_matching kubesim_selector m"
proof
  fix k
  show "drop_matching kubesim_selector (m ++ added) k = drop_matching kubesim_selector m k"
  proof (cases "added k")
    case None
    then show ?thesis by (simp add: drop_matching_add)
  next
    case (Some x)
    then have "m k = None" using assms(1) by auto
    moreover have "sel_matches kubesim_selector (obj_labels x)"
      using Some assms(2) unfolding kubesim_pods_def by blast
    ultimately show ?thesis using Some by (simp add: drop_matching_add drop_matching_def)
  qed
qed

lemma clean_up_result:
  assumes "tracker_wf (externalkubeclient ks)"
  obtains t where "clean_up ks = ks\<lparr>externalkubeclient := t, status := (status ks)\<lparr>st_Pods := []\<rparr>,
      ks_report := Some empty_review\<rparr>"
    and "tracker_wf t" and "objs t = (objs (externalkubeclient ks))
      (Pods := drop_matching kubesim_selector (objs (externalkubeclient ks) Pods))"
proof -
  obtain t where t: "CleanPod ks = (Ok (), ks\<lparr>externalkubeclient := t\<rparr>)" "tracker_wf t"
    "objs t = (objs (externalkubeclient ks))
      (Pods := drop_matching kubesim_selector (objs (externalkubeclient ks) Pods))"
    by (rule CleanPod_result [OF assms])
  have "clean_up ks = ks\<lparr>externalkubeclient := t, status := (status ks)\<lparr>st_Pods := []\<rparr>,
      ks_report := Some empty_review\<rparr>"
    using t(1) by (simp add: clean_up_def CleanStatusPods_def)
  then show thesis using that t(2,3) by blast
qed

text \<open>What every emulator of whole applications does with requests it can run.\<close>

definition cleaned :: "tracker \<Rightarrow> tracker \<Rightarrow> bool" where
  "cleaned t t' \<longleftrightarrow> tracker_wf t' \<and> objs t' = (objs t)(Pods := drop_matching kubesim_selector (objs t Pods))"

lemma run_apps_clean:
  assumes "requests_ok fuel env apps ks"
  obtains rvs ks1 where "run_apps fuel env apps acc ks = (Ok (acc @ rvs), ks1)"
    and "list_all2 (report_of env) apps rvs"
    and "cleaned (externalkubeclient ks) (externalkubeclient (clean_up ks1))"
    and "st_Pods (status (clean_up ks1)) = []" and "same_books ks (clean_up ks1)"
proof -
  from run_apps_ok [OF assms, of acc] obtain rvs ks1 added where r:
    "run_apps fuel env apps acc ks = (Ok (acc @ rvs), ks1)" "list_all2 (report_of env) apps rvs"
    "tracker_wf (externalkubeclient ks1)" "same_books ks ks1"
    "objs (externalkubeclient ks1) = (objs (externalkubeclient ks))
      (Pods := objs (externalkubeclient ks) Pods ++ added)"
    "dom added \<inter> dom (objs (externalkubeclient ks) Pods) = {}" "kubesim_pods added"
    by blast
  from clean_up_result [OF r(3)] obtain t where t: "clean_up ks1 = ks1\<lparr>externalkubeclient := t,
      status := (status ks1)\<lparr>st_Pods := []\<rparr>, ks_report := Some empty_review\<rparr>" "tracker_wf t"
    "objs t = (objs (externalkubeclient ks1))
      (Pods := drop_matching kubesim_selector (objs (externalkubeclient ks1) Pods))"
    by blast
  have "cleaned (externalkubeclient ks) t"
    using t(2,3) r(5) drop_matching_added [OF r(6,7)] by (simp add: cleaned_def)
  moreover have "same_books ks (clean_up ks1)" using r(4) t(1) by (simp add: same_books_def)
  ultimately show thesis using that [OF r(1,2)] t(1) by simp
qed

lemma cleaned_same:
  assumes "cleaned t t'" and none: "list_pods [] kubesim_selector t = []" and wf: "tracker_wf t"
  shows "objs t' = objs t"
proof -
  have "objs t Pods |` (- set (map pod_key [])) = drop_matching kubesim_selector (objs t Pods)"
    using restrict_listed_pods [OF wf, of kubesim_selector] unfolding none .
  moreover have "objs t Pods |` (- set (map pod_key [])) = objs t Pods"
    by (rule ext) (simp add: restrict_map_def)
  ultimately have "drop_matching kubesim_selector (objs t Pods) = objs t Pods" by (simp only:)
  moreover have "objs t' = (objs t)(Pods := drop_matching kubesim_selector (objs t Pods))"
    using assms(1) by (simp add: cleaned_def)
  ultimately show ?thesis by (simp only: fun_upd_triv)
qed

section \<open>Single pods\<close>

definition GetAppPod :: "string \<Rightarrow> selector \<Rightarrow> kubesim \<Rightarrow> pod list" where
  "GetAppPod ns label ks = list_pods ns label (externalkubeclient ks)"

definition DeleteAppsPod :: "string \<Rightarrow> string \<Rightarrow> kubesim \<Rightarrow> (kubesim, unit) outcome" where
  "DeleteAppsPod ns name ks =
     (case tracker_Delete Pods ns name (externalkubeclient ks) of
        Inl e \<Rightarrow> (Err (Wrap ''unable delete pod '' (ApiErr e)), ks)
      | Inr t \<Rightarrow> (Ok (), ks\<lparr>externalkubeclient := t\<rparr>))"

definition GetPod :: "string \<Rightarrow> string \<Rightarrow> kubesim \<Rightarrow> pod res" where
  "GetPod name ns ks =
     (case tracker_Get Pods ns name (externalkubeclient ks) of
        Inl e \<Rightarrow> Err (Wrap ''unable get pod '' (ApiErr e))
      | Inr x \<Rightarrow> (case the_pod x of None \<Rightarrow> Panic NilDereference | Some p \<Rightarrow> Ok p))"

definition CreateAppsPod :: "pod \<Rightarrow> kubesim \<Rightarrow> (kubesim, unit) outcome" where
  "CreateAppsPod p ks =
     (case create_obj Pods (PodObj p) (externalkubeclient ks) of
        Inl e \<Rightarrow> (Err (Wrap ''unable create pod '' (ApiErr e)), ks)
      | Inr t \<Rightarrow> (Ok (), ks\<lparr>externalkubeclient := t\<rparr>))"

text \<open>\<open>GetAppsPod\<close> returns the pods that exist, and as new pods copies of them.\<close>

definition found_pods :: "kubesim \<Rightarrow> pods_info list \<Rightarrow> pod list" where
  "found_pods ks = List.map_filter (\<lambda>i. case GetPod (pi_Name i) (pi_NameSpace i) ks of Ok p \<Rightarrow> Some p | _ \<Rightarrow> None)"

definition GetAppsPod :: "pods_config option \<Rightarrow> kubesim \<Rightarrow> (pod list \<times> pod list) res" where
  "GetAppsPod podsConfig ks =
     (case podsConfig of
        None \<Rightarrow> Panic NilDereference
      | Some pc \<Rightarrow> Ok (found_pods ks (pc_Pods pc), found_pods ks (pc_Pods pc)))"

fun delete_pods :: "(gerr \<Rightarrow> gerr) \<Rightarrow> pod list \<Rightarrow> kubesim \<Rightarrow> (kubesim, unit) outcome" where
  "delete_pods f [] ks = (Ok (), ks)"
| "delete_pods f (p # ps) ks =
     seq (with_err f (DeleteAppsPod (pod_Namespace p) (pod_Name p) ks)) (\<lambda>_. delete_pods f ps) id"

fun create_pods :: "(gerr \<Rightarrow> gerr) \<Rightarrow> pod list \<Rightarrow> kubesim \<Rightarrow> (kubesim, unit) outcome" where
  "create_pods f [] ks = (Ok (), ks)"
| "create_pods f (p # ps) ks =
     seq (with_err f (CreateAppsPod p ks)) (\<lambda>_. create_pods f ps) id"

text \<open>The request made from a copied pod: its spec and metadata, without UID and status.\<close>

definition pod_again :: "pod \<Rightarrow> pod_request" where
  "pod_again p = zero_request\<lparr>pr_Pod := Some
     \<lparr>pod_Name = pod_Name p, pod_Namespace = pod_Namespace p, pod_UID = [],
      pod_Annotations = pod_Annotations p, pod_Labels = pod_Labels p, pod_Spec = pod_Spec p,
      pod_Status = empty_status\<rparr>, pr_Replicas := 1\<rparr>"

definition appsPodEmulator :: "nat \<Rightarrow> env \<Rightarrow> app_group \<Rightarrow> string \<Rightarrow> kubesim \<Rightarrow> (kubesim, review list) outcome" where
  "appsPodEmulator fuel env appgroup key ks =
     (case GetAppsPod (ag_PodsConfig appgroup) ks of
        Ok (oldPods, newPods) \<Rightarrow>
          seq (delete_pods (Wrap ''unable create pod '') oldPods ks)
            (\<lambda>_ ks1. seq (run_apps fuel env (map pod_again newPods) [] ks1)
               (\<lambda>reportlist ks2. seq (create_pods (Wrap ''unable create pod '') oldPods (clean_up ks2))
                  (\<lambda>_ ks3. (Ok reportlist, save_result key (Some reportlist) ks3)) id) id) id
      | Err e \<Rightarrow> (Err e, ks)
      | Panic p \<Rightarrow> (Panic p, ks)
      | Hang \<Rightarrow> (Hang, ks))"

section \<open>The verdict on a list of reports\<close>

text \<open>
  The loop that \<open>VerticalEmulator\<close> and the report handler share: it stops at the first request that
  could not be scheduled. \<open>JobNone\<close> is the empty string the status starts as.
\<close>

fun verdict_loop :: "job_status \<Rightarrow> review list \<Rightarrow> job_status res" where
  "verdict_loop st [] = Ok st"
| "verdict_loop st (report # reports) =
     (case rev_Reason (rev_Status report) of
        None \<Rightarrow> Panic NilDereference
      | Some reason \<Rightarrow>
          if fr_Type reason = ''Unschedulable'' then Ok JobFailed else verdict_loop JobSucceed reports)"

definition verdict :: "review list \<Rightarrow> job_status res" where
  "verdict reports = verdict_loop JobNone reports"

definition unscheduled :: "review \<Rightarrow> bool" where
  "unscheduled rv \<longleftrightarrow> (\<exists>r. rev_Reason (rev_Status rv) = Some r \<and> fr_Type r = ''Unschedulable'')"

lemma verdict_loop_eq:
  "\<forall>rv \<in> set rvs. rev_Reason (rev_Status rv) \<noteq> None \<Longrightarrow>
   verdict_loop st rvs = Ok (if \<exists>rv \<in> set rvs. unscheduled rv then JobFailed
     else if rvs = [] then st else JobSucceed)"
  by (induction rvs arbitrary: st) (auto simp: unscheduled_def)

lemma verdict_eq:
  "\<forall>rv \<in> set rvs. rev_Reason (rev_Status rv) \<noteq> None \<Longrightarrow>
   verdict rvs = Ok (if \<exists>rv \<in> set rvs. unscheduled rv then JobFailed
     else if rvs = [] then JobNone else JobSucceed)"
  by (simp add: verdict_def verdict_loop_eq)

lemma report_of_reason: "report_of env app rv \<Longrightarrow> rev_Reason (rev_Status rv) \<noteq> None"
  by (auto simp: report_of_def)

lemma reports_reason:
  "list_all2 (report_of env) apps rvs \<Longrightarrow> rv \<in> set rvs \<Longrightarrow> rev_Reason (rev_Status rv) \<noteq> None"
  by (auto simp: list_all2_conv_all_nth in_set_conv_nth dest: report_of_reason)

section \<open>Vertical scaling\<close>

definition unpinned :: "pod_request \<Rightarrow> pod_request res" where
  "unpinned app =
     (case pr_Pod app of
        None \<Rightarrow> Panic NilDereference
      | Some p \<Rightarrow> Ok (app\<lparr>pr_Pod := Some (p\<lparr>pod_Spec := (pod_Spec p)
          \<lparr>NodeName := [], NodeSelector := make_map\<rparr>\<rparr>)\<rparr>))"

fun run_unpinned ::
  "nat \<Rightarrow> env \<Rightarrow> pod_request list \<Rightarrow> review list \<Rightarrow> kubesim \<Rightarrow> (kubesim, review list) outcome" where
  "run_unpinned fuel env [] reportlist ks = (Ok reportlist, ks)"
| "run_unpinned fuel env (app # apps) reportlist ks =
     (case unpinned app of
        Ok app' \<Rightarrow> seq (run_apps fuel env [app'] reportlist ks) (run_unpinned fuel env apps) id
      | Err e \<Rightarrow> (Err e, ks)
      | Panic p \<Rightarrow> (Panic p, ks)
      | Hang \<Rightarrow> (Hang, ks))"

text \<open>
  The retry empties \<open>reportList\<close> but not the slice \<open>reportlist\<close> it is made from: the reports of the
  failed first pass stay in the result.
\<close>

definition vertical_retry ::
  "nat \<Rightarrow> env \<Rightarrow> pod_request list \<Rightarrow> review list \<Rightarrow> kubesim \<Rightarrow> (kubesim, review list) outcome" where
  "vertical_retry fuel env apps reportlist ks =
     (case verdict reportlist of
        Ok st \<Rightarrow> if st = JobFailed then run_unpinned fuel env apps reportlist (clean_up ks)
                 else (Ok reportlist, ks)
      | Err e \<Rightarrow> (Err e, ks)
      | Panic p \<Rightarrow> (Panic p, ks)
      | Hang \<Rightarrow> (Hang, ks))"

definition VerticalEmulator :: "nat \<Rightarrow> env \<Rightarrow> app_group \<Rightarrow> string \<Rightarrow> kubesim \<Rightarrow> (kubesim, review list) outcome" where
  "VerticalEmulator fuel env appgroup key ks =
     seq (delete_pods (\<lambda>_. Msg ''unable delete old pod'') (ag_OldPods appgroup) ks)
       (\<lambda>_ ks1. seq (run_apps fuel env (ag_Apps appgroup) [] ks1)
          (\<lambda>reportlist ks2. seq (vertical_retry fuel env (ag_Apps appgroup) reportlist ks2)
             (\<lambda>reportlist' ks3. seq (create_pods (\<lambda>_. Msg ''unable create old pod'') (ag_OldPods appgroup) (clean_up ks3))
                (\<lambda>_ ks4. (Ok reportlist', save_result key (Some reportlist') ks4)) id) id) id) id"

section \<open>The report on a job\<close>

definition EmulatorReport :: "string \<Rightarrow> kubesim \<Rightarrow> job_report res" where
  "EmulatorReport jid ks =
     (let st = (case emulatorResult ks jid of
            Some (Some reportList) \<Rightarrow> verdict reportList
          | Some None \<Rightarrow> Ok JobStopped
          | None \<Rightarrow> if fifo_Get (fifoQueue ks) jid \<noteq> None then Ok JobQueuing else Ok JobProcessing)
      in map_res (\<lambda>s. \<lparr>JobID = jid, job_Status = s,
             job_Report = (case emulatorResult ks jid of Some (Some reportList) \<Rightarrow> reportList | _ \<Rightarrow> []),
             PredictionNodeR = predictionNode ks jid\<rparr>) st)"

lemma EmulatorReport_done:
  assumes "emulatorResult ks jid = Some (Some rvs)"
    and "\<forall>rv \<in> set rvs. rev_Reason (rev_Status rv) \<noteq> None"
  obtains jr where "EmulatorReport jid ks = Ok jr" and "JobID jr = jid" and "job_Report jr = rvs"
    and "job_Status jr = (if \<exists>rv \<in> set rvs. unscheduled rv then JobFailed
      else if rvs = [] then JobNone else JobSucceed)"
  using assms that by (simp add: EmulatorReport_def Let_def verdict_eq)

section \<open>Whole jobs\<close>

lemma same_books_simps:
  "same_books ks ks' \<Longrightarrow> emulatorResult ks' = emulatorResult ks"
  "same_books ks ks' \<Longrightarrow> predictionNode ks' = predictionNode ks"
  "same_books ks ks' \<Longrightarrow> fifoQueue ks' = fifoQueue ks"
  by (simp_all add: same_books_def)

lemma save_result_simps [simp]:
  "emulatorResult (save_result key r ks) = (emulatorResult ks)(key \<mapsto> r)"
  "externalkubeclient (save_result key r ks) = externalkubeclient ks"
  "status (save_result key r ks) = status ks" "fifoQueue (save_result key r ks) = fifoQueue ks"
  "predictionNode (save_result key r ks) = predictionNode ks" "draws (save_result key r ks) = draws ks"
  by (simp_all add: save_result_def)

text \<open>Every request scheduled in full, or some request not.\<close>

definition all_scheduled :: "pod_request list \<Rightarrow> review list \<Rightarrow> bool" where
  "all_scheduled apps rvs \<longleftrightarrow>
     (\<forall>i < length apps. rev_Replicas (rev_Status (rvs ! i)) = pr_Replicas (apps ! i))"

lemma replicas_word: "0 < sint n \<Longrightarrow> c \<le> nat (sint n) \<Longrightarrow> (word_of_nat c = (n :: 32 word)) = (c = nat (sint n))"
proof -
  assume a: "0 < sint n" "c \<le> nat (sint n)"
  have "sint n < 2 ^ 31" using sint_lt [of n] by simp
  then have "sint (word_of_nat c :: 32 word) = int c"
    using a by (simp add: signed_of_nat signed_take_bit_int_eq_self)
  then show ?thesis using a by (metis int_nat_eq nat_int signed_word_eqI less_imp_le)
qed

lemma unscheduled_report:
  assumes "report_of env app rv" and "valid_request fuel app"
  shows "unscheduled rv \<longleftrightarrow> rev_Replicas (rev_Status rv) \<noteq> pr_Replicas app"
proof -
  from assms(1) obtain sp c reason where r: "c \<le> replicas_of app"
    "rev_Replicas (rev_Status rv) = word_of_nat c" "rev_Reason (rev_Status rv) = Some reason"
    "fr_Type reason = (if c = replicas_of app then ''Schedulable'' else ''Unschedulable'')"
    by (auto simp: report_of_def)
  have "word_of_nat c = pr_Replicas app \<longleftrightarrow> c = replicas_of app"
    using replicas_word [of "pr_Replicas app" c] r(1) assms(2)
    by (simp add: valid_request_def replicas_of_def)
  then show ?thesis using r(2-4) by (simp add: unscheduled_def)
qed

lemma verdict_reports:
  assumes rep: "list_all2 (report_of env) apps rvs" and "\<forall>app \<in> set apps. valid_request fuel app"
    and "apps \<noteq> []"
  shows "verdict rvs = Ok (if all_scheduled apps rvs then JobSucceed else JobFailed)"
proof -
  have len: "length rvs = length apps" using rep by (simp add: list_all2_lengthD)
  have "unscheduled (rvs ! i) \<longleftrightarrow> rev_Replicas (rev_Status (rvs ! i)) \<noteq> pr_Replicas (apps ! i)"
    if "i < length apps" for i
    using unscheduled_report [of env "apps ! i" "rvs ! i" fuel] assms that
    by (simp add: list_all2_conv_all_nth)
  moreover have "(\<exists>rv \<in> set rvs. unscheduled rv) \<longleftrightarrow> (\<exists>i < length apps. unscheduled (rvs ! i))"
    unfolding set_conv_nth len by blast
  ultimately have "(\<exists>rv \<in> set rvs. unscheduled rv) \<longleftrightarrow> \<not> all_scheduled apps rvs"
    unfolding all_scheduled_def by blast
  moreover have "rvs \<noteq> []" using len assms(3) by auto
  ultimately show ?thesis
    using verdict_eq [of rvs] reports_reason [OF rep] by auto
qed

lemma emulator_job:
  assumes ok: "requests_ok fuel env apps ks"
    and run: "em = (\<lambda>ks. seq (run_apps fuel env apps [] ks)
       (\<lambda>reportlist ks1. (Ok reportlist, save_result key (Some reportlist) (clean_up ks1))) id)"
  obtains rvs ks' where "em ks = (Ok rvs, ks')" and "list_all2 (report_of env) apps rvs"
    and "emulatorResult ks' = (emulatorResult ks)(key \<mapsto> Some rvs)" and "fifoQueue ks' = fifoQueue ks"
    and "cleaned (externalkubeclient ks) (externalkubeclient ks')" and "st_Pods (status ks') = []"
proof -
  obtain rvs ks1 where r: "run_apps fuel env apps [] ks = (Ok ([] @ rvs), ks1)"
    "list_all2 (report_of env) apps rvs"
    "cleaned (externalkubeclient ks) (externalkubeclient (clean_up ks1))"
    "st_Pods (status (clean_up ks1)) = []" "same_books ks (clean_up ks1)"
    by (rule run_apps_clean [OF ok])
  then show thesis
    using that [of rvs "save_result key (Some rvs) (clean_up ks1)"] same_books_simps [OF r(5)]
    by (simp add: run)
qed

section \<open>Taking pods out and putting them back\<close>

lemma delete_pods_each:
  "delete_pods f ps ks =
     (case delete_each (delete_key Pods) (map pod_key ps) (externalkubeclient ks) of
        (None, t) \<Rightarrow> (Ok (), ks\<lparr>externalkubeclient := t\<rparr>)
      | (Some e, t) \<Rightarrow> (Err (f (Wrap ''unable delete pod '' (ApiErr e))), ks\<lparr>externalkubeclient := t\<rparr>))"
proof (induction ps arbitrary: ks)
  case (Cons p ps)
  have k: "delete_key Pods (pod_key p) (externalkubeclient ks) =
      tracker_Delete Pods (pod_Namespace p) (pod_Name p) (externalkubeclient ks)"
    by (simp add: delete_key_def pod_key_def)
  show ?case
  proof (cases "delete_key Pods (pod_key p) (externalkubeclient ks)")
    case (Inl e)
    then show ?thesis using k by (simp add: DeleteAppsPod_def)
  next
    case (Inr t)
    then show ?thesis using k Cons.IH [of "ks\<lparr>externalkubeclient := t\<rparr>"]
      by (simp add: DeleteAppsPod_def split: prod.splits option.splits)
  qed
qed simp

lemma create_pods_each:
  "create_pods f ps ks =
     (case create_each (create_obj Pods) (map PodObj ps) (externalkubeclient ks) of
        (None, t) \<Rightarrow> (Ok (), ks\<lparr>externalkubeclient := t\<rparr>)
      | (Some e, t) \<Rightarrow> (Err (f (Wrap ''unable create pod '' (ApiErr e))), ks\<lparr>externalkubeclient := t\<rparr>))"
proof (induction ps arbitrary: ks)
  case (Cons p ps)
  show ?case
  proof (cases "create_obj Pods (PodObj p) (externalkubeclient ks)")
    case (Inl e)
    then show ?thesis by (simp add: CreateAppsPod_def)
  next
    case (Inr t)
    then show ?thesis using Cons.IH [of "ks\<lparr>externalkubeclient := t\<rparr>"]
      by (simp add: CreateAppsPod_def split: prod.splits option.splits)
  qed
qed simp

definition stored_pods :: "tracker \<Rightarrow> pod list \<Rightarrow> bool" where
  "stored_pods t ps \<longleftrightarrow> distinct (map pod_key ps) \<and> (\<forall>p \<in> set ps. objs t Pods (pod_key p) = Some (PodObj p))"

definition without :: "pod list \<Rightarrow> (key \<rightharpoonup> kobj) \<Rightarrow> (key \<rightharpoonup> kobj)" where
  "without ps m = m |` (- pod_key ` set ps)"

lemma delete_pods_ok:
  assumes "tracker_wf (externalkubeclient ks)" and "stored_pods (externalkubeclient ks) ps"
  obtains t where "\<And>f. delete_pods f ps ks = (Ok (), ks\<lparr>externalkubeclient := t\<rparr>)" and "tracker_wf t"
    and "objs t = (objs (externalkubeclient ks))(Pods := without ps (objs (externalkubeclient ks) Pods))"
proof -
  have d: "distinct (map pod_key ps)" using assms(2) by (simp add: stored_pods_def)
  have old: "objs (externalkubeclient ks) Pods k \<noteq> None" if "k \<in> set (map pod_key ps)" for k
    using that assms(2) by (auto simp: stored_pods_def)
  obtain t where t: "delete_each (delete_key Pods) (map pod_key ps) (externalkubeclient ks) = (None, t)"
    "tracker_wf t" "objs t = (objs (externalkubeclient ks))
      (Pods := objs (externalkubeclient ks) Pods |` (- set (map pod_key ps)))"
    using ts.delete_each_old [OF assms(1) d old] by blast
  then show thesis using that [of t] by (simp add: delete_pods_each without_def)
qed

lemma create_pods_ok:
  assumes "tracker_wf (externalkubeclient ks)" and "distinct (map pod_key ps)"
    and "\<And>p. p \<in> set ps \<Longrightarrow> objs (externalkubeclient ks) Pods (pod_key p) = None"
  obtains t where "\<And>f. create_pods f ps ks = (Ok (), ks\<lparr>externalkubeclient := t\<rparr>)" and "tracker_wf t"
    and "objs t = (objs (externalkubeclient ks))(Pods := objs (externalkubeclient ks) Pods ++ pods_map ps)"
proof -
  have d: "distinct (map obj_key (map PodObj ps))" using assms(2) by (simp add: comp_def)
  have new: "kind_ok Pods x \<and> objs (externalkubeclient ks) Pods (obj_key x) = None"
    if "x \<in> set (map PodObj ps)" for x
    using that assms(3) by auto
  obtain t where t: "create_each (create_obj Pods) (map PodObj ps) (externalkubeclient ks) = (None, t)"
    "tracker_wf t" "objs t = (objs (externalkubeclient ks))
      (Pods := objs (externalkubeclient ks) Pods ++ map_of (map (\<lambda>x. (obj_key x, x)) (map PodObj ps)))"
    using ts.create_each_new [OF assms(1) d new] by blast
  then show thesis using that [of t] by (simp add: create_pods_each pods_map_def comp_def)
qed

lemma without_restore:
  assumes wf: "tracker_wf t" and "stored_pods t ps"
  shows "without ps (objs t Pods) ++ pods_map ps = objs t Pods"
proof
  fix k
  show "(without ps (objs t Pods) ++ pods_map ps) k = objs t Pods k"
  proof (cases "pods_map ps k")
    case None
    then have "k \<notin> pod_key ` set ps" using dom_pods_map [of ps] by (auto simp: domIff)
    with None show ?thesis by (simp add: map_add_def without_def restrict_map_def)
  next
    case (Some x)
    then obtain p where "p \<in> set ps" "x = PodObj p" "k = pod_key p" using pods_map_Some by blast
    with Some assms(2) show ?thesis by (simp add: stored_pods_def)
  qed
qed

lemma unique_draws_less:
  assumes "unique_draws env ps d m store" and "store' \<subseteq>\<^sub>m store"
  shows "unique_draws env ps d m store'"
proof -
  have "store' k = None" if "store k = None" for k
    using assms(2) that by (metis domIff map_le_def)
  with assms(1) show ?thesis unfolding unique_draws_def by blast
qed

lemma without_le: "without ps m \<subseteq>\<^sub>m m"
  by (auto simp: without_def map_le_def restrict_map_def split: if_splits)

section \<open>Properties\<close>

text \<open>
  C18. A job of kind AppsEmulator whose requests are valid and whose names are free runs to its end
  and gives one report per request, in order, each faithful to its round. Its result is stored
  under its key, and the report handler then answers Succeed exactly when every request got all
  its replicas, and Failed otherwise. The simulated cluster is left as it was: only pods with
  kubesim's label are gone, and when there were none before, it is exactly the same.
\<close>

theorem appsEmulator_job:
  assumes "requests_ok fuel env (ag_Apps g) ks" and "ag_Apps g \<noteq> []"
  shows "\<exists>rvs ks' jr. appsEmulator fuel env g key ks = (Ok rvs, ks') \<and>
    list_all2 (report_of env) (ag_Apps g) rvs \<and>
    EmulatorReport key ks' = Ok jr \<and> job_Report jr = rvs \<and>
    job_Status jr = (if all_scheduled (ag_Apps g) rvs then JobSucceed else JobFailed) \<and>
    cleaned (externalkubeclient ks) (externalkubeclient ks') \<and>
    (list_pods [] kubesim_selector (externalkubeclient ks) = [] \<longrightarrow>
       objs (externalkubeclient ks') = objs (externalkubeclient ks))"
proof -
  obtain rvs ks' where r: "appsEmulator fuel env g key ks = (Ok rvs, ks')"
    "list_all2 (report_of env) (ag_Apps g) rvs"
    "emulatorResult ks' = (emulatorResult ks)(key \<mapsto> Some rvs)"
    "cleaned (externalkubeclient ks) (externalkubeclient ks')"
    by (rule emulator_job [OF assms(1), of "appsEmulator fuel env g key" key])
       (simp add: fun_eq_iff appsEmulator_def, blast)
  have valid: "\<forall>app \<in> set (ag_Apps g). valid_request fuel app" and wf: "tracker_wf (externalkubeclient ks)"
    using assms(1) by (simp_all add: requests_ok_def)
  have "verdict rvs = Ok (if all_scheduled (ag_Apps g) rvs then JobSucceed else JobFailed)"
    by (rule verdict_reports [OF r(2) valid assms(2)])
  then have "EmulatorReport key ks' = Ok \<lparr>JobID = key,
      job_Status = (if all_scheduled (ag_Apps g) rvs then JobSucceed else JobFailed),
      job_Report = rvs, PredictionNodeR = predictionNode ks' key\<rparr>"
    using r(3) by (simp add: EmulatorReport_def Let_def)
  moreover have "list_pods [] kubesim_selector (externalkubeclient ks) = [] \<longrightarrow>
      objs (externalkubeclient ks') = objs (externalkubeclient ks)"
    using cleaned_same [OF r(4) _ wf] by blast
  ultimately show ?thesis using r
    by (intro exI [of _ rvs] exI [of _ ks'] exI [of _ "\<lparr>JobID = key,
      job_Status = (if all_scheduled (ag_Apps g) rvs then JobSucceed else JobFailed),
      job_Report = rvs, PredictionNodeR = predictionNode ks' key\<rparr>"]) simp
qed

definition example_group :: app_group where
  "example_group = \<lparr>EmulatorType = ''AppsEmulator'', ag_Nodes = [],
     ag_Apps = [zero_request\<lparr>pr_Pod := Some (example_pod ''web'' []), pr_Replicas := 2\<rparr>],
     ag_OldPods = [], ag_PodsConfig = None\<rparr>"

lemma example_requests_ok:
  "requests_ok 2 (example_env one_then_full) (ag_Apps example_group) (New ''addNode'' (\<lambda>_. []))"
proof -
  have "{0..<0 + 4} = {0, Suc 0, 2, 3 :: nat}" by auto
  then have u: "unique_draws (example_env one_then_full) [example_pod ''web'' []] 0 4 Map.empty"
    unfolding unique_draws_def by (simp add: next_key_def example_uuids)
  have "request_pods (ag_Apps example_group) = [example_pod ''web'' []]"
    "total_replicas (ag_Apps example_group) = 2"
    by (simp_all add: request_pods_def map_filter_simps example_group_def total_replicas_def replicas_of_def)
  moreover have "\<forall>app \<in> set (ag_Apps example_group). valid_request 2 app"
    by (simp add: example_group_def valid_request_def replicas_of_def unmarked_def example_pod_def empty_status_def)
  moreover have "answers (example_env one_then_full)"
    by (simp add: answers_def example_env_def one_then_full_def)
  ultimately show ?thesis
    using u by (simp add: requests_ok_def tracker_wf_def objs_def)
qed

theorem appsEmulator_job_witness:
  "\<exists>rvs ks' jr. appsEmulator 2 (example_env one_then_full) example_group ''job-1'' (New ''addNode'' (\<lambda>_. [])) =
      (Ok rvs, ks') \<and>
    EmulatorReport ''job-1'' ks' = Ok jr \<and> job_Report jr = rvs \<and>
    objs (externalkubeclient ks') = objs (\<lambda>_. [])"
proof -
  have "ag_Apps example_group \<noteq> []" by (simp add: example_group_def)
  moreover have "list_pods [] kubesim_selector (externalkubeclient (New ''addNode'' (\<lambda>_. []))) = []"
    by code_simp
  ultimately show ?thesis
    using appsEmulator_job [OF example_requests_ok, of "''job-1''"] by auto
qed

lemma with_err_Ok [simp]: "with_err f m = (Ok x, s) \<longleftrightarrow> m = (Ok x, s)"
proof -
  obtain r s0 where "m = (r, s0)" by fastforce
  then show ?thesis by (cases r) auto
qed

lemma run_apps_prefix: "run_apps fuel env apps acc ks = (Ok rvs, ks') \<Longrightarrow> \<exists>more. rvs = acc @ more"
proof (induction apps arbitrary: acc ks)
  case (Cons app apps)
  then obtain ks1 rv where "run_apps fuel env apps (acc @ [rv]) ks1 = (Ok rvs, ks')"
    by (auto simp: seq_Ok)
  from Cons.IH [OF this] show ?case by auto
qed simp

lemma verdict_loop_append:
  "verdict_loop st xs = Ok JobFailed \<Longrightarrow> st \<noteq> JobFailed \<Longrightarrow> verdict_loop st (xs @ ys) = Ok JobFailed"
  by (induction xs arbitrary: st) (auto split: option.splits if_splits)

lemma run_unpinned_prefix:
  "run_unpinned fuel env apps acc ks = (Ok rvs, ks') \<Longrightarrow> \<exists>more. rvs = acc @ more"
proof (induction apps arbitrary: acc ks)
  case (Cons app apps)
  then obtain app' where "seq (run_apps fuel env [app'] acc ks) (run_unpinned fuel env apps) id = (Ok rvs, ks')"
    by (auto split: res.splits)
  then obtain acc1 ks1 where "run_apps fuel env [app'] acc ks = (Ok acc1, ks1)"
    "run_unpinned fuel env apps acc1 ks1 = (Ok rvs, ks')"
    unfolding seq_Ok by blast
  with Cons.IH [of acc1 ks1] run_apps_prefix show ?case by fastforce
qed simp

text \<open>The retry keeps the reports of the first pass, so the verdict stays failed.\<close>

lemma retry_verdict:
  assumes "run_apps fuel env (ag_Apps g) [] ks1 = (Ok rvs1, ks2)" and "verdict rvs1 = Ok JobFailed"
    and "delete_pods (\<lambda>_. Msg ''unable delete old pod'') (ag_OldPods g) ks = (Ok (), ks1)"
    and "VerticalEmulator fuel env g key ks = (Ok rvs, ks')"
  shows "\<exists>more jr. rvs = rvs1 @ more \<and> EmulatorReport key ks' = Ok jr \<and> job_Report jr = rvs \<and>
    job_Status jr = JobFailed"
proof -
  obtain ks3 ks4 where v: "vertical_retry fuel env (ag_Apps g) rvs1 ks2 = (Ok rvs, ks3)"
    and k: "ks' = save_result key (Some rvs) ks4"
    using assms(1,3,4) by (auto simp: VerticalEmulator_def seq_Ok)
  obtain more where m: "rvs = rvs1 @ more"
    using v assms(2) run_unpinned_prefix by (fastforce simp: vertical_retry_def)
  then have "verdict rvs = Ok JobFailed"
    using assms(2) verdict_loop_append [of JobNone rvs1 more] by (simp add: verdict_def)
  then show ?thesis using m k by (simp add: EmulatorReport_def Let_def)
qed

text \<open>A scheduler for which the node a pod is pinned to is full.\<close>

definition pinned_env :: env where
  "pinned_env = (example_env (\<lambda>_. NotYet))\<lparr>e_uuid := (\<lambda>i. replicate (Suc i) CHR ''x''), e_schedule := (\<lambda>i d t p.
     if gm_get (NodeSelector (pod_Spec p)) ''kubernetes.io/hostname'' = None then BindTo ''n2''
     else Unschedulable ''node full'')\<rparr>"

definition pinned_group :: app_group where
  "pinned_group = \<lparr>EmulatorType = ''VerticalEmulator'', ag_Nodes = [],
     ag_Apps = [zero_request\<lparr>pr_Pod := Some ((example_pod ''web'' [])\<lparr>pod_Spec :=
       empty_spec\<lparr>NodeSelector := Some [''kubernetes.io/hostname'' \<mapsto> ''n1'']\<rparr>\<rparr>), pr_Replicas := 1\<rparr>],
     ag_OldPods = [], ag_PodsConfig = None\<rparr>"

definition reason_types :: "review list \<Rightarrow> string list" where
  "reason_types = map (\<lambda>rv. case rev_Reason (rev_Status rv) of None \<Rightarrow> [] | Some r \<Rightarrow> fr_Type r)"

text \<open>
  C29. A job of kind AppsPodEmulator takes the listed pods out of the cluster, schedules a copy of
  each, and puts them back: when the pods are listed once each and the names of the copies are
  free, it ends with one report per pod, and in a cluster without kubesim's pods every object is
  back as it was.
\<close>

theorem appsPodEmulator_restores:
  assumes "ag_PodsConfig g = Some pc" and "ps = found_pods ks (pc_Pods pc)"
    and "stored_pods (externalkubeclient ks) ps"
    and "requests_ok fuel env (map pod_again ps) ks"
    and "list_pods [] kubesim_selector (externalkubeclient ks) = []"
  shows "\<exists>rvs ks'. appsPodEmulator fuel env g key ks = (Ok rvs, ks') \<and>
    list_all2 (report_of env) (map pod_again ps) rvs \<and> emulatorResult ks' key = Some (Some rvs) \<and>
    objs (externalkubeclient ks') = objs (externalkubeclient ks)"
proof -
  let ?t = "externalkubeclient ks"
  note ok = assms(4) [unfolded requests_ok_def]
  have wf: "tracker_wf ?t" using ok by simp
  obtain t1 where t1: "\<And>f. delete_pods f ps ks = (Ok (), ks\<lparr>externalkubeclient := t1\<rparr>)" "tracker_wf t1"
    "objs t1 = (objs ?t)(Pods := without ps (objs ?t Pods))"
    using delete_pods_ok [OF wf assms(3)] by metis
  let ?k1 = "ks\<lparr>externalkubeclient := t1\<rparr>"
  have "requests_ok fuel env (map pod_again ps) ?k1"
    using ok t1(2,3) unique_draws_less [OF _ without_le] by (simp add: requests_ok_def)
  then obtain rvs k2 where r: "run_apps fuel env (map pod_again ps) [] ?k1 = (Ok ([] @ rvs), k2)"
    "list_all2 (report_of env) (map pod_again ps) rvs"
    "cleaned (externalkubeclient ?k1) (externalkubeclient (clean_up k2))"
    by (rule run_apps_clean)
  let ?k3 = "clean_up k2"
  have none: "drop_matching kubesim_selector (without ps (objs ?t Pods)) = without ps (objs ?t Pods)"
  proof
    fix k
    have "objs ?t Pods k = Some x \<Longrightarrow> \<not> sel_matches kubesim_selector (obj_labels x)" for x
    proof
      assume x: "objs ?t Pods k = Some x" "sel_matches kubesim_selector (obj_labels x)"
      then obtain p where "x = PodObj p" "k = pod_key p" using pod_stored [OF wf] by metis
      with x have "p \<in> set (list_pods [] kubesim_selector ?t)" by (simp add: in_list_pods [OF wf])
      with assms(5) show False by simp
    qed
    then show "drop_matching kubesim_selector (without ps (objs ?t Pods)) k = without ps (objs ?t Pods) k"
      by (auto simp: drop_matching_def without_def restrict_map_def split: option.splits)
  qed
  have o3: "tracker_wf (externalkubeclient ?k3)"
    "objs (externalkubeclient ?k3) = (objs ?t)(Pods := without ps (objs ?t Pods))"
    using r(3) t1(3) none by (simp_all add: cleaned_def)
  have d: "distinct (map pod_key ps)" using assms(3) by (simp add: stored_pods_def)
  have "objs (externalkubeclient ?k3) Pods (pod_key p) = None" if "p \<in> set ps" for p
    using that o3(2) by (simp add: without_def restrict_map_def)
  then obtain t4 where t4: "\<And>f. create_pods f ps ?k3 = (Ok (), ?k3\<lparr>externalkubeclient := t4\<rparr>)"
    "objs t4 = (objs (externalkubeclient ?k3))(Pods := objs (externalkubeclient ?k3) Pods ++ pods_map ps)"
    using create_pods_ok [OF o3(1) d] by metis
  have "objs t4 = objs ?t"
    using t4(2) o3(2) without_restore [OF wf assms(3)] by simp
  moreover have "appsPodEmulator fuel env g key ks =
      (Ok rvs, save_result key (Some rvs) (?k3\<lparr>externalkubeclient := t4\<rparr>))"
    using assms(1,2) t1(1) r(1) t4(1) by (simp add: appsPodEmulator_def GetAppsPod_def)
  ultimately show ?thesis using r(2)
    by (intro exI [of _ rvs] exI [of _ "save_result key (Some rvs) (?k3\<lparr>externalkubeclient := t4\<rparr>)"]) simp
qed

definition old_web :: pod where
  "old_web = (example_pod ''web'' ''n1'')\<lparr>pod_UID := ''u7''\<rparr>"

definition old_cluster :: tracker where
  "old_cluster = (\<lambda>_. [])(Pods := [((''ns'', ''web''), PodObj old_web)])"

definition web_config :: pods_config where
  "web_config = \<lparr>pc_Op = [], pc_Pods = [\<lparr>pi_Name = ''web'', pi_NameSpace = ''ns'', pi_TargetNodeName = []\<rparr>]\<rparr>"

lemma old_cluster_wf: "tracker_wf old_cluster"
  by (simp add: tracker_wf_def old_cluster_def pod_key_def old_web_def example_pod_def)

lemma old_cluster_pods: "objs old_cluster Pods = [(''ns'', ''web'') \<mapsto> PodObj old_web]"
  by (simp add: objs_def old_cluster_def)

lemma old_web_found: "found_pods (New ''addNode'' old_cluster) (pc_Pods web_config) = [old_web]"
  by (simp add: found_pods_def web_config_def GetPod_def tracker_Get_def old_cluster_pods map_filter_simps)

theorem appsPodEmulator_restores_witness:
  "\<exists>rvs ks'. appsPodEmulator 1 (example_env one_then_full)
      (example_group\<lparr>ag_PodsConfig := Some web_config\<rparr>) ''job'' (New ''addNode'' old_cluster) = (Ok rvs, ks') \<and>
    objs (externalkubeclient ks') = objs old_cluster"
proof -
  let ?g = "example_group\<lparr>ag_PodsConfig := Some web_config\<rparr>"
  have stored: "stored_pods (externalkubeclient (New ''addNode'' old_cluster)) [old_web]"
    by (simp add: stored_pods_def old_cluster_pods pod_key_def old_web_def example_pod_def)
  have "{0..<0 + 2} = {0, Suc 0}" by auto
  then have "unique_draws (example_env one_then_full) (request_pods (map pod_again [old_web])) 0 2
      (objs old_cluster Pods)"
    unfolding unique_draws_def old_cluster_pods
    by (simp add: next_key_def example_uuids request_pods_def map_filter_simps pod_again_def old_web_def
        example_pod_def)
  then have ok: "requests_ok 1 (example_env one_then_full) (map pod_again [old_web]) (New ''addNode'' old_cluster)"
    using old_cluster_wf
    by (simp add: requests_ok_def answers_def example_env_def one_then_full_def valid_request_def
        replicas_of_def pod_again_def total_replicas_def unmarked_def empty_status_def)
  have none: "list_pods [] kubesim_selector (externalkubeclient (New ''addNode'' old_cluster)) = []"
    by code_simp
  have c: "ag_PodsConfig ?g = Some web_config" by simp
  from appsPodEmulator_restores [OF c old_web_found [symmetric] stored ok none, of "''job''"]
  show ?thesis by auto
qed

end
