(* ===== verification/Capacity.thy ===== *)
theory Capacity
  imports Emulators
begin

text \<open>
  A scheduler that counts resources, for the examples of the predictions: it puts a pod on the first
  node whose free CPU covers the pod's requests, and answers Insufficient cpu when there is none. This
  is what the resource filter of kube-scheduler asks of a node, for one resource.

  For a request of equal pods on equal nodes the outcome is computed: with \<open>c\<close> on every node
  and \<open>q\<close> requested by every pod, all pods are placed exactly when they are at most \<open>c div q\<close> times the
  number of nodes. So a request for \<open>r\<close> pods needs \<open>r\<close> divided by \<open>c div q\<close> nodes, and no number of nodes suffices
  when a pod asks for more than a node has.
\<close>

section \<open>The scheduler\<close>

definition cpu_of :: "resource_list \<Rightarrow> int" where
  "cpu_of rl = (case map_of rl ''cpu'' of None \<Rightarrow> 0 | Some c \<Rightarrow> c)"

definition cpu_request :: "pod \<Rightarrow> int" where
  "cpu_request p = sum_list (map (\<lambda>c. cpu_of (c_Requests c)) (Containers (pod_Spec p)))"

definition cpu_used :: "tracker \<Rightarrow> string \<Rightarrow> int" where
  "cpu_used t nm = sum_list (map cpu_request (filter (\<lambda>p. NodeName (pod_Spec p) = nm) (list_pods [] Everything t)))"

definition has_room :: "tracker \<Rightarrow> pod \<Rightarrow> node \<Rightarrow> bool" where
  "has_room t p nd \<longleftrightarrow> cpu_used t (node_Name nd) + cpu_request p \<le> cpu_of (node_Allocatable nd)"

definition first_fit :: "tracker \<Rightarrow> pod \<Rightarrow> decision" where
  "first_fit t p =
     (case filter (has_room t p) (list_nodes Everything t) of
        [] \<Rightarrow> Unschedulable ''Insufficient cpu''
      | nd # _ \<Rightarrow> BindTo (node_Name nd))"

definition fits_first :: "env \<Rightarrow> bool" where
  "fits_first env \<longleftrightarrow> (\<forall>i d t p. e_schedule env i d t p = first_fit t p)"

lemma fits_first_answers: "fits_first env \<Longrightarrow> answers env"
  by (simp add: fits_first_def answers_def first_fit_def split: list.split)

section \<open>Counting the pods of a node\<close>

definition pods_on :: "(key \<rightharpoonup> kobj) \<Rightarrow> string \<Rightarrow> key set" where
  "pods_on m nm = {k. \<exists>p. m k = Some (PodObj p) \<and> NodeName (pod_Spec p) = nm}"

definition uniform_on :: "int \<Rightarrow> (key \<rightharpoonup> kobj) \<Rightarrow> string set \<Rightarrow> bool" where
  "uniform_on q m nms \<longleftrightarrow> (\<forall>k p. m k = Some (PodObj p) \<longrightarrow> NodeName (pod_Spec p) \<in> nms \<longrightarrow> cpu_request p = q)"

lemma sum_list_const: "(\<And>x. x \<in> set xs \<Longrightarrow> f x = q) \<Longrightarrow> sum_list (map f xs) = q * int (length xs)"
  by (induction xs) (simp_all add: algebra_simps)

lemma cpu_used_uniform:
  assumes wf: "tracker_wf t" and u: "uniform_on q (objs t Pods) nms" and nm: "nm \<in> nms"
  shows "cpu_used t nm = q * int (card (pods_on (objs t Pods) nm))"
proof -
  let ?ps = "filter (\<lambda>p. NodeName (pod_Spec p) = nm) (list_pods [] Everything t)"
  have "cpu_request p = q" if p: "p \<in> set ?ps" for p
  proof -
    have "objs t Pods (pod_key p) = Some (PodObj p)" using p in_list_pods [OF wf, of p "[]" Everything] by simp
    moreover have "NodeName (pod_Spec p) \<in> nms" using p nm by simp
    ultimately show ?thesis using u unfolding uniform_on_def by blast
  qed
  then have s: "cpu_used t nm = q * int (length ?ps)" unfolding cpu_used_def by (rule sum_list_const)
  have "distinct (map pod_key ?ps)" by (rule distinct_map_filter) (rule distinct_list_pods [OF wf])
  then have "length ?ps = card (pod_key ` set ?ps)" using distinct_card by fastforce
  moreover have "pod_key ` set ?ps = pods_on (objs t Pods) nm"
  proof -
    have "k \<in> pods_on (objs t Pods) nm \<longleftrightarrow> k \<in> pod_key ` set ?ps" for k
      using in_list_pods [OF wf, of _ "[]" Everything] tracker_wf_objs [OF wf, of Pods k]
      by (auto simp: pods_on_def image_iff)
    then show ?thesis by blast
  qed
  ultimately show ?thesis using s by simp
qed

lemma le_div_pos:
  fixes a b q :: int
  assumes "0 < q"
  shows "a * q \<le> b \<longleftrightarrow> a \<le> b div q"
proof
  assume "a * q \<le> b"
  then have "a * q div q \<le> b div q" using assms by (intro zdiv_mono1)
  then show "a \<le> b div q" using assms by simp
next
  assume "a \<le> b div q"
  then have "a * q \<le> b div q * q" using assms by (intro mult_right_mono) simp_all
  also have "\<dots> \<le> b" using assms by (metis div_mult_mod_eq le_add_same_cancel1 pos_mod_sign)
  finally show "a * q \<le> b" .
qed

lemma has_room_count:
  assumes "tracker_wf t" and "uniform_on q (objs t Pods) nms" and "node_Name nd \<in> nms"
    and "cpu_request p = q" and "0 < q" and "cpu_of (node_Allocatable nd) = c" and "0 \<le> c"
  shows "has_room t p nd \<longleftrightarrow> card (pods_on (objs t Pods) (node_Name nd)) < nat (c div q)"
proof -
  let ?n = "card (pods_on (objs t Pods) (node_Name nd))"
  have "has_room t p nd \<longleftrightarrow> (int ?n + 1) * q \<le> c"
    using cpu_used_uniform [OF assms(1-3)] assms(4,6) by (simp add: has_room_def algebra_simps)
  also have "\<dots> \<longleftrightarrow> int ?n + 1 \<le> c div q"
    by (rule le_div_pos [OF assms(5)])
  finally show ?thesis by linarith
qed

text \<open>A node with fewer than \<open>s\<close> pods exists as long as there are fewer pods than \<open>s\<close> on each.\<close>

lemma some_below:
  assumes "finite A" and "\<forall>x \<in> A. f x \<le> (s :: nat)"
  shows "(\<exists>x \<in> A. f x < s) \<longleftrightarrow> sum f A < card A * s"
proof
  assume "\<exists>x \<in> A. f x < s"
  then have "sum f A < sum (\<lambda>_. s) A" using assms by (intro sum_strict_mono_ex1) auto
  then show "sum f A < card A * s" by simp
next
  assume l: "sum f A < card A * s"
  show "\<exists>x \<in> A. f x < s"
  proof (rule ccontr)
    assume "\<not> ?thesis"
    then have "sum (\<lambda>_. s) A \<le> sum f A" by (intro sum_mono) auto
    with l show False by simp
  qed
qed

lemma dom_objs_finite: "finite (dom (objs t g))"
  by (simp add: objs_def finite_dom_map_of)

lemma finite_pods_on: "finite (dom m) \<Longrightarrow> finite (pods_on m nm)"
  by (rule finite_subset [of _ "dom m"]) (auto simp: pods_on_def)

text \<open>
  A cluster on whose nodes only equal pods run, at most \<open>s\<close> on each; binding a pod and creating
  the next, pending one.
\<close>

definition fair :: "int \<Rightarrow> nat \<Rightarrow> string set \<Rightarrow> (key \<rightharpoonup> kobj) \<Rightarrow> bool" where
  "fair q s nms m \<longleftrightarrow> finite nms \<and> [] \<notin> nms \<and> uniform_on q m nms \<and> (\<forall>nm \<in> nms. card (pods_on m nm) \<le> s)"

definition total_on :: "(key \<rightharpoonup> kobj) \<Rightarrow> string set \<Rightarrow> nat" where
  "total_on m nms = (\<Sum>nm \<in> nms. card (pods_on m nm))"

lemma fair_bind:
  assumes f: "fair q s nms m" and p: "m k = Some (PodObj p)" "NodeName (pod_Spec p) = []" "cpu_request p = q"
    and n: "n \<in> nms" "card (pods_on m n) < s" and fin: "finite (dom m)"
  shows "fair q s nms (m(k \<mapsto> PodObj (bound_pod p n)))"
    and "total_on (m(k \<mapsto> PodObj (bound_pod p n))) nms = Suc (total_on m nms)"
proof -
  let ?m = "m(k \<mapsto> PodObj (bound_pod p n))"
  have ne: "nm \<noteq> []" if "nm \<in> nms" for nm using f that by (auto simp: fair_def)
  have on: "card (pods_on ?m nm) = (if nm = n then Suc (card (pods_on m nm)) else card (pods_on m nm))" if nm: "nm \<in> nms" for nm
  proof -
    have "pods_on ?m nm = (if nm = n then insert k (pods_on m nm) else pods_on m nm)" "k \<notin> pods_on m nm"
      using p(1,2) ne [OF nm] ne [OF n(1)] by (auto simp: pods_on_def)
    then show ?thesis using finite_pods_on [OF fin] by (cases "nm = n") simp_all
  qed
  have "cpu_request (bound_pod p n) = q" using p(3) by (simp add: cpu_request_def)
  then have "uniform_on q ?m nms" using f by (auto simp: fair_def uniform_on_def)
  then show "fair q s nms ?m" using f n on by (auto simp: fair_def Suc_le_eq)
  have "total_on ?m nms = (\<Sum>nm \<in> nms. card (pods_on m nm) + (if nm = n then 1 else 0))"
    unfolding total_on_def by (rule sum.cong) (simp_all add: on)
  also have "\<dots> = total_on m nms + 1"
    using f n(1) by (simp add: total_on_def sum.distrib fair_def)
  finally show "total_on ?m nms = Suc (total_on m nms)" by simp
qed

lemma fair_pending:
  assumes "m k = None" and "NodeName (pod_Spec r) = []" and "fair q s nms m"
  shows "fair q s nms (m(k \<mapsto> PodObj r))" and "total_on (m(k \<mapsto> PodObj r)) nms = total_on m nms"
proof -
  have "pods_on (m(k \<mapsto> PodObj r)) nm = pods_on m nm" if "nm \<in> nms" for nm
    using assms that by (auto simp: pods_on_def fair_def)
  then show "fair q s nms (m(k \<mapsto> PodObj r))" "total_on (m(k \<mapsto> PodObj r)) nms = total_on m nms"
    using assms by (auto simp: fair_def uniform_on_def total_on_def)
qed

section \<open>A round under the scheduler\<close>

definition node_names :: "tracker \<Rightarrow> string set" where
  "node_names t = node_Name ` set (list_nodes Everything t)"

text \<open>Equal nodes with \<open>c\<close> each, and room for \<open>s\<close> pods that request \<open>q\<close>.\<close>

definition equal_nodes :: "int \<Rightarrow> int \<Rightarrow> tracker \<Rightarrow> bool" where
  "equal_nodes c q t \<longleftrightarrow> tracker_wf t \<and> 0 < q \<and> 0 \<le> c \<and>
     (\<forall>nd \<in> set (list_nodes Everything t). cpu_of (node_Allocatable nd) = c) \<and>
     fair q (nat (c div q)) (node_names t) (objs t Pods)"

lemma first_fit_decides:
  assumes e: "equal_nodes c q t" and p: "cpu_request p = q" and s: "s = nat (c div q)"
  shows "if total_on (objs t Pods) (node_names t) < card (node_names t) * s
    then \<exists>nm \<in> node_names t. first_fit t p = BindTo nm \<and> card (pods_on (objs t Pods) nm) < s
    else first_fit t p = Unschedulable ''Insufficient cpu''"
proof -
  have room: "has_room t p nd \<longleftrightarrow> card (pods_on (objs t Pods) (node_Name nd)) < s"
    if "nd \<in> set (list_nodes Everything t)" for nd
    unfolding s using e that p
    by (intro has_room_count [where nms = "node_names t"]) (auto simp: equal_nodes_def fair_def node_names_def)
  have below: "(\<exists>nm \<in> node_names t. card (pods_on (objs t Pods) nm) < s) \<longleftrightarrow>
      total_on (objs t Pods) (node_names t) < card (node_names t) * s"
    unfolding total_on_def using e s by (intro some_below) (auto simp: equal_nodes_def fair_def)
  show ?thesis
  proof (cases "filter (has_room t p) (list_nodes Everything t)")
    case Nil
    then have "\<not> has_room t p nd" if "nd \<in> set (list_nodes Everything t)" for nd
      using that by (auto simp: filter_empty_conv)
    then have "\<not> total_on (objs t Pods) (node_names t) < card (node_names t) * s"
      unfolding below [symmetric] using room by (auto simp: node_names_def)
    then show ?thesis using Nil by (simp add: first_fit_def)
  next
    case (Cons nd nds)
    then have nd: "nd \<in> set (list_nodes Everything t)" "has_room t p nd"
      using list.set_intros(1) [of nd nds] unfolding Cons [symmetric] by simp_all
    then have b: "card (pods_on (objs t Pods) (node_Name nd)) < s" using room by blast
    have n: "node_Name nd \<in> node_names t" using nd(1) by (simp add: node_names_def)
    then have "total_on (objs t Pods) (node_names t) < card (node_names t) * s" unfolding below [symmetric] using b by blast
    moreover have "first_fit t p = BindTo (node_Name nd)" using Cons by (simp add: first_fit_def)
    ultimately show ?thesis using b n by auto
  qed
qed

text \<open>Writing pods leaves the nodes as they are.\<close>

lemma node_names_pods:
  assumes "tracker_wf t" and "tracker_wf t'" and "objs t' = (objs t)(Pods := m)"
  shows "set (list_nodes Everything t') = set (list_nodes Everything t)" and "node_names t' = node_names t"
proof -
  show "set (list_nodes Everything t') = set (list_nodes Everything t)"
    using in_list_nodes [OF assms(1)] in_list_nodes [OF assms(2)] assms(3) by auto
  then show "node_names t' = node_names t" by (simp add: node_names_def)
qed

lemma equal_nodes_pods:
  assumes "equal_nodes c q t" and "tracker_wf t'" and "objs t' = (objs t)(Pods := m)"
    and "fair q (nat (c div q)) (node_names t) m"
  shows "equal_nodes c q t'"
proof -
  have "tracker_wf t" using assms(1) by (simp add: equal_nodes_def)
  note n = node_names_pods [OF this assms(2,3)]
  show ?thesis using assms by (simp add: equal_nodes_def n)
qed

text \<open>How a round ended.\<close>

definition ends_with :: "bool \<Rightarrow> kubesim \<Rightarrow> bool" where
  "ends_with placed ks \<longleftrightarrow> (if placed then \<exists>m. st_StopReason (status ks) = schedulable_reason m
     else \<exists>m. st_StopReason (status ks) = unschedulable_reason m)"

lemma gives_up_round:
  assumes "tracker_wf (externalkubeclient ks)" and "objs (externalkubeclient ks) Pods (pod_key p) = Some (PodObj p)"
    and "simulates ks sp p" and "closeable ks" and "stop ks = ChanOpen"
    and "e_schedule env i (draws ks) (externalkubeclient ks) p = Unschedulable msg"
    and "unmarked sp" and "simulatedPod ks = Some sp"
  shows "\<exists>ks' m. await (Suc f) i env p ks = (Ok (), ks') \<and> stop ks' = ChanOpen \<and> simulatedPod ks' = Some sp \<and>
    st_StopReason (status ks') = unschedulable_reason m"
proof -
  have ours: "ours ks p" and un: "unmarked p" using assms(3,7) by (simp_all add: simulates_def unmarked_def)
  have p: "objs (externalkubeclient ks) Pods (pod_key p) \<noteq> None" using assms(2) by simp
  from assms(1) p ours assms(4) show ?thesis
  proof (cases rule: schedule_failed_stored [where msg = msg])
    case (stop n m ks')
    then have "await (Suc f) i env p ks = (Ok (), ks')" using assms(5,6) by (simp add: send_stop_def)
    then show ?thesis using stop assms(5,8) by (auto simp: same_job_def)
  qed (use un in simp)
qed

lemma first_fit_await:
  assumes env: "fits_first env"
    and "equal_nodes c q (externalkubeclient ks)" and "simulatedPod ks = Some sp"
    and "objs (externalkubeclient ks) Pods (pod_key p) = Some (PodObj p)" and "NodeName (pod_Spec p) = []"
    and "simulates ks sp p" and "closeable ks" and "stop ks = ChanOpen"
    and "0 < sint (maxSimulated ks)" and "sint (maxSimulated ks) = int (m + k)"
    and "simulated ks = word_of_nat m"
    and "fresh_names env sp (draws ks) k (objs (externalkubeclient ks) Pods)" and "k < fuel"
    and "unmarked sp" and "cpu_request sp = q"
    and "N = card (node_names (externalkubeclient ks)) * nat (c div q)"
    and "l = total_on (objs (externalkubeclient ks) Pods) (node_names (externalkubeclient ks))"
  shows "\<exists>ks'. await fuel i env p ks = (Ok (), ks') \<and> stop ks' = ChanOpen \<and>
    simulatedPod ks' = Some sp \<and> ends_with (l + Suc k \<le> N) ks'"
  using assms(2-)
proof (induction k arbitrary: ks p m i fuel l)
  case (0 ks p m i fuel l)
  note prems = 0
  obtain f where f: "fuel = Suc f" using prems(12) by (cases fuel) auto
  have cpu: "cpu_request p = q" using prems(5,14) by (simp add: simulates_def cpu_request_def)
  have wf: "tracker_wf (externalkubeclient ks)" using prems(1) by (simp add: equal_nodes_def)
  have full: "0 <s maxSimulated ks \<and> maxSimulated ks \<le>s simulated ks"
    using count_reached [of "maxSimulated ks" m] prems(8-10) by simp
  note d = first_fit_decides [OF prems(1) cpu refl, folded prems(15,16)]
  show ?case
  proof (cases "l < N")
    case True
    then obtain nm where n: "e_schedule env i (draws ks) (externalkubeclient ks) p = BindTo nm"
      using d env by (auto simp: fits_first_def)
    obtain ks' where k: "await (Suc f) i env p ks = (Ok (), ks')" "stop ks' = ChanOpen"
      "round_result ks sp [pod_key p] ((objs (externalkubeclient ks) Pods)(pod_key p := None)) [bound_pod p nm] ks'"
      using round_last [OF wf prems(3,5-7) n full, of f] by (elim exE conjE) (rule that)
    then have "simulatedPod ks' = Some sp" "ends_with True ks'"
      using prems(2) by (auto simp: round_result_def same_job_def ends_with_def)
    then show ?thesis unfolding f using k(1,2) True by auto
  next
    case False
    then have "e_schedule env i (draws ks) (externalkubeclient ks) p = Unschedulable ''Insufficient cpu''"
      using d env by (simp add: fits_first_def)
    then show ?thesis unfolding f using gives_up_round [OF wf prems(3,5-7) _ prems(13,2), of env i _ f] False
      by (auto simp: ends_with_def)
  qed
next
  case (Suc k ks p m i fuel l)
  note prems = Suc.prems
  obtain f where f: "fuel = Suc f" using prems(12) by (cases fuel) auto
  have cpu: "cpu_request p = q" using prems(5,14) by (simp add: simulates_def cpu_request_def)
  have wf: "tracker_wf (externalkubeclient ks)" using prems(1) by (simp add: equal_nodes_def)
  note d = first_fit_decides [OF prems(1) cpu refl, folded prems(15,16)]
  show ?case
  proof (cases "l < N")
    case True
    then obtain n where n: "e_schedule env i (draws ks) (externalkubeclient ks) p = BindTo n"
      "n \<in> node_names (externalkubeclient ks)" "card (pods_on (objs (externalkubeclient ks) Pods) n) < nat (c div q)"
      using d env by (auto simp: fits_first_def)
    have full: "\<not> (0 <s maxSimulated ks \<and> maxSimulated ks \<le>s simulated ks)"
      using count_reached [of "maxSimulated ks" m] prems(8-10) by simp
    have fr: "objs (externalkubeclient ks) Pods (next_key env (draws ks) sp) = None"
      "next_key env (draws ks) sp \<notin> set (names env sp (Suc (Suc (draws ks))) k)"
      "fresh_names env sp (Suc (Suc (draws ks))) k (objs (externalkubeclient ks) Pods)"
      using prems(11) by (simp_all add: fresh_names_Suc)
    from round_next [OF wf prems(2,3) n(1) full fr(1), where fuel = f] obtain r ks2 where r:
      "pod_key r = next_key env (draws ks) sp" "simulates ks sp r"
      "await (Suc f) i env p ks = await f (Suc i) env r ks2"
      "tracker_wf (externalkubeclient ks2)" "same_job ks ks2"
      "objs (externalkubeclient ks2) = (objs (externalkubeclient ks))(Pods :=
         (objs (externalkubeclient ks) Pods)(pod_key p \<mapsto> PodObj (bound_pod p n), pod_key r \<mapsto> PodObj r))"
      "simulated ks2 = simulated ks + 1" "draws ks2 = Suc (Suc (draws ks))"
      "stop ks2 = stop ks" "closeable ks2 = closeable ks" "NodeName (pod_Spec r) = []"
      by blast
    let ?m = "objs (externalkubeclient ks) Pods" and ?nms = "node_names (externalkubeclient ks)"
    let ?m1 = "?m(pod_key p \<mapsto> PodObj (bound_pod p n))"
    have ne: "pod_key p \<noteq> pod_key r" and none: "?m1 (pod_key r) = None" using prems(3) fr(1) r(1) by auto
    have fair: "fair q (nat (c div q)) ?nms ?m" using prems(1) by (simp add: equal_nodes_def)
    note b = fair_bind [OF fair prems(3,4) cpu n(2,3) dom_objs_finite]
    note e = fair_pending [OF none r(11) b(1)]
    have eq: "equal_nodes c q (externalkubeclient ks2)" by (rule equal_nodes_pods [OF prems(1) r(4,6) e(1)])
    note nn = node_names_pods(2) [OF wf r(4,6)]
    have notin: "pod_key p \<notin> set (names env sp (Suc (Suc (draws ks))) k)"
      using fr(3) prems(3) by (auto simp: fresh_names_def)
    have "fresh_names env sp (draws ks2) k (objs (externalkubeclient ks2) Pods)"
      using fr notin r(1,6,8) by (auto simp: fresh_names_def)
    moreover have "simulatedPod ks2 = Some sp" "maxSimulated ks2 = maxSimulated ks"
      using r(5) prems(2) by (simp_all add: same_job_def)
    moreover have "simulates ks2 sp r" using r(2) simulates_cong [OF r(5)] by simp
    moreover have "objs (externalkubeclient ks2) Pods (pod_key r) = Some (PodObj r)" using r(6) by simp
    moreover have "simulated ks2 = word_of_nat (Suc m)" using r(7) prems(10) by (simp add: add.commute)
    moreover have "N = card (node_names (externalkubeclient ks2)) * nat (c div q)"
      "Suc l = total_on (objs (externalkubeclient ks2) Pods) (node_names (externalkubeclient ks2))"
      using prems(15,16) b(2) e(2) by (simp_all add: nn r(6))
    ultimately have "\<exists>ks'. await f (Suc i) env r ks2 = (Ok (), ks') \<and> stop ks' = ChanOpen \<and>
        simulatedPod ks' = Some sp \<and> ends_with (Suc l + Suc k \<le> N) ks'"
      using Suc.IH [OF eq, of r "Suc m" f "Suc l" "Suc i"] prems(6-9,12-14) r(9-11) f
      by (auto simp del: fun_upd_apply)
    then show ?thesis unfolding f r(3) by simp
  next
    case False
    then have "e_schedule env i (draws ks) (externalkubeclient ks) p = Unschedulable ''Insufficient cpu''"
      using d env by (simp add: fits_first_def)
    then show ?thesis unfolding f using gives_up_round [OF wf prems(3,5-7) _ prems(13,2), of env i _ f] False
      by (auto simp: ends_with_def)
  qed
qed

lemma first_fit_round:
  assumes env: "fits_first env" and eq: "equal_nodes c q (externalkubeclient ks)"
    and ok: "request_ok fuel env sp n ks" and cpu: "cpu_request sp = q"
    and N: "N = card (node_names (externalkubeclient ks)) * nat (c div q)"
    and l: "l = total_on (objs (externalkubeclient ks) Pods) (node_names (externalkubeclient ks))"
  shows "\<exists>ks'. SchedulerPod fuel env (UpdatePodRequest (Some sp) n ks) = (Ok (), ks') \<and>
    simulatedPod ks' = Some sp \<and> ends_with (l + nat (sint n) \<le> N) ks'"
proof -
  let ?ks = "UpdatePodRequest (Some sp) n ks"
  have o: "tracker_wf (externalkubeclient ks)" "0 < sint n" "nat (sint n) \<le> fuel" "unmarked sp"
    "fresh_names env sp (draws ks) (nat (sint n)) (objs (externalkubeclient ks) Pods)"
    using ok by (simp_all add: request_ok_def)
  obtain k where k: "nat (sint n) = Suc k" using o(2) by (cases "nat (sint n)") auto
  let ?p = "simulated_pod env ?ks sp"
  note fr = o(5) [unfolded k fresh_names_Suc]
  have "simulatedPod ?ks = Some sp" "tracker_wf (externalkubeclient ?ks)"
    "objs (externalkubeclient ?ks) Pods (next_key env (draws ?ks) sp) = None"
    using o(1) fr by simp_all
  from nextPod_new [OF this] obtain t where t:
    "nextPod env ?ks = (Ok (), ?ks\<lparr>simulated := simulated ?ks + 1, lastSimulatedPod := Some ?p,
       draws := draws ?ks + 2, externalkubeclient := t\<rparr>)" "tracker_wf t"
    "objs t = (objs (externalkubeclient ks))(Pods :=
       (objs (externalkubeclient ks) Pods)(next_key env (draws ks) sp \<mapsto> PodObj ?p))"
    by (auto simp del: fun_upd_apply)
  define ks1 where "ks1 = ?ks\<lparr>simulated := simulated ?ks + 1, lastSimulatedPod := Some ?p,
       draws := draws ?ks + 2, externalkubeclient := t\<rparr>"
  have f: "simulatedPod ks1 = Some sp" "maxSimulated ks1 = n" "stop ks1 = ChanOpen" "closeable ks1"
    "draws ks1 = Suc (Suc (draws ks))" "externalkubeclient ks1 = t" "simulated ks1 = word_of_nat 1"
    "lastSimulatedPod ks1 = Some ?p"
    by (simp_all add: ks1_def closeable_def UpdatePodRequest_def)
  have fair: "fair q (nat (c div q)) (node_names (externalkubeclient ks)) (objs (externalkubeclient ks) Pods)"
    using eq by (simp add: equal_nodes_def)
  have pend: "NodeName (pod_Spec ?p) = []" by simp
  note e = fair_pending [OF conjunct1 [OF fr] pend fair]
  have eq1: "equal_nodes c q (externalkubeclient ks1)"
    unfolding f(6) by (rule equal_nodes_pods [OF eq t(2,3) e(1)])
  have nn: "node_names t = node_names (externalkubeclient ks)" by (rule node_names_pods(2) [OF o(1) t(2,3)])
  have sim: "simulates ks1 sp ?p"
  proof -
    have "ours ?ks ?p" by (rule simulated_pod_simps(2))
    then have "ours ks1 ?p" unfolding ours_def by (simp add: ks1_def)
    then show ?thesis by (simp add: simulates_def)
  qed
  have st: "objs (externalkubeclient ks1) Pods (pod_key ?p) = Some (PodObj ?p)" by (simp add: f(6) t(3))
  have names: "fresh_names env sp (draws ks1) k (objs (externalkubeclient ks1) Pods)"
    using fr f(5) by (auto simp: fresh_names_def t(3) f(6))
  have pos: "0 < sint (maxSimulated ks1)" "sint (maxSimulated ks1) = int (1 + k)" "k < fuel"
    using o(2,3) k f(2) by simp_all
  have N': "N = card (node_names (externalkubeclient ks1)) * nat (c div q)"
    and l': "l = total_on (objs (externalkubeclient ks1) Pods) (node_names (externalkubeclient ks1))"
    using N l e(2) by (simp_all add: f(6) nn t(3))
  obtain ks2 where "await fuel 0 env ?p ks1 = (Ok (), ks2)" "stop ks2 = ChanOpen" "simulatedPod ks2 = Some sp"
    "ends_with (l + Suc k \<le> N) ks2"
    using first_fit_await [OF env eq1 f(1) st pend sim f(4,3) pos(1,2) f(7) names pos(3) o(4) cpu N' l', of 0]
    by (elim exE conjE) (rule that)
  then have "SchedulerPod fuel env ?ks = (Ok (), ks2\<lparr>stop := ChanClosed\<rparr>)"
    "simulatedPod (ks2\<lparr>stop := ChanClosed\<rparr>) = Some sp" "ends_with (l + nat (sint n) \<le> N) (ks2\<lparr>stop := ChanClosed\<rparr>)"
    using f(8) unfolding SchedulerPod_def t(1) [folded ks1_def] by (simp_all add: closed_is_done k ends_with_def)
  then show ?thesis by blast
qed

text \<open>The report says how the round ended.\<close>

lemma Report_ends:
  assumes "ends_with placed ks" and "Report env ks = (Ok rv, ks')"
  shows "unscheduled rv = (\<not> placed)"
proof -
  obtain p where p: "simulatedPod ks = Some p"
    and rv: "GetReport (e_isScalar env) [p] (status ks) (maxSimulated ks) = Ok rv"
    using assms(2) by (auto simp: Report_def split: option.splits res.splits)
  obtain reason where r: "getMainFailReason (st_StopReason (status ks)) = Ok reason" "rev_Reason (rev_Status rv) = Some reason"
    using rv(1) by (auto simp: GetReport_def getReviewStatus_def Let_def map_res_Ok split: res.splits)
  have "fr_Type reason = (if placed then ''Schedulable'' else ''Unschedulable'')"
  proof (cases placed)
    case True
    then obtain m where "st_StopReason (status ks) = schedulable_reason m"
      using assms(1) by (auto simp: ends_with_def)
    then show ?thesis using schedulable_type [of m] r(1) True by auto
  next
    case False
    then obtain m where "st_StopReason (status ks) = unschedulable_reason m"
      using assms(1) by (auto simp: ends_with_def)
    then show ?thesis using unschedulable_type [of m] r(1) False by auto
  qed
  then show ?thesis using r(2) by (simp add: unscheduled_def)
qed

end
