(* ===== verification/Nodes.thy ===== *)
theory Nodes
  imports Kubesim_State Node_Config
begin

text \<open>
  The operations of \<open>simulator.go\<close> on the nodes of the simulated cluster: \<open>ListNodes\<close>, \<open>GetNodeInfo\<close>,
  \<open>addNodes\<close> with its two ways to group nodes under switches, \<open>AddNodes\<close>, \<open>DeleteNodes\<close>.

  A node configuration is passed by pointer and written to, so the operations thread it with the
  simulator: their state is \<open>node_config \<times> kubesim\<close>. The Go maps built here are association lists
  in the order of first insertion. The fake clientset's \<open>List\<close> does not fail, so \<open>ListNodes\<close> and
  \<open>GetNodeInfo\<close> have no error result; the two percentages \<open>GetNodeInfo\<close> formats are left out.
  \<open>AddNodes\<close> loops until the cluster has the requested number of nodes: it has fuel, and the
  theorem \<open>AddNodes_reaches_count\<close> shows that two rounds are enough.
\<close>

section \<open>Listing\<close>

record node_info_list =
  nl_NodeNumber :: int
  nl_PodNumber :: int
  nl_RunningPod :: int
  nl_Status :: string
  nl_NotRunningPod :: int
  nl_NodeInfoPodNumber :: int
  nl_NodeInfoNumber :: int
  nl_NotNodeInfoNumber :: int
  nl_BindFailed :: int
  nl_BindSuccess :: int
  nl_NodePods :: "string \<rightharpoonup> int"
  nl_NodeInfoPods :: "string \<rightharpoonup> int"
  nl_NodeList :: "node list"

record node_info =
  ni_Name :: string
  ni_UsedCPU :: int
  ni_UsedMemory :: int
  ni_CPU :: int
  ni_Memory :: int
  ni_PodNumber :: int

text \<open>The variables of the loop over the pods.\<close>

record pod_tally =
  nodepod :: "string \<rightharpoonup> int"
  runingPod :: int
  notRununingPod :: int
  last_status :: string
  bindfailed :: int
  bindsuccess :: int

definition tally_pod :: "pod \<Rightarrow> pod_tally \<Rightarrow> pod_tally" where
  "tally_pod p t0 =
     (let nn = NodeName (pod_Spec p);
          old = (case nodepod t0 nn of None \<Rightarrow> 0 | Some c \<Rightarrow> c);
          t1 = t0\<lparr>nodepod := (nodepod t0)(nn \<mapsto> (if old \<noteq> 0 then old + 1 else 1))\<rparr>;
          t2 = (if Phase (pod_Status p) = PodRunning then t1\<lparr>runingPod := runingPod t1 + 1\<rparr>
                else t1\<lparr>notRununingPod := notRununingPod t1 + 1, last_status := Phase (pod_Status p)\<rparr>)
      in if nn = [] then t2\<lparr>bindfailed := bindfailed t2 + 1\<rparr>
         else t2\<lparr>bindsuccess := bindsuccess t2 + 1\<rparr>)"

definition tally_start :: pod_tally where
  "tally_start = \<lparr>nodepod = Map.empty, runingPod = 0, notRununingPod = 0, last_status = [],
     bindfailed = 0, bindsuccess = 0\<rparr>"

text \<open>The loop over the nodes: which of them the scheduler's cache knows, and with how many pods.\<close>

definition tally_node ::
  "(string \<times> cached_node) list \<Rightarrow> node \<Rightarrow> int \<times> int \<times> int \<Rightarrow> int \<times> int \<times> int" where
  "tally_node snapshot n =
     (\<lambda>(podnumber, nodeinfonumber, notnodeinfonumber).
        case map_of snapshot (node_Name n) of
          Some c \<Rightarrow> (podnumber + int (cn_Pods c), nodeinfonumber + 1, notnodeinfonumber)
        | None \<Rightarrow> (podnumber, nodeinfonumber, notnodeinfonumber + 1))"

definition ListNodes :: "env \<Rightarrow> kubesim \<Rightarrow> node_info_list" where
  "ListNodes env ks =
     (let nodelist = list_nodes Everything (externalkubeclient ks);
          podlist = list_pods [] kubesim_selector (externalkubeclient ks);
          t = fold tally_pod podlist tally_start;
          snapshot = e_cache env (externalkubeclient ks);
          (podnumber, nodeinfonumber, notnodeinfonumber) = fold (tally_node snapshot) nodelist (0, 0, 0)
      in \<lparr>nl_NodeNumber = int (length nodelist), nl_PodNumber = int (length podlist),
          nl_RunningPod = runingPod t, nl_Status = last_status t, nl_NotRunningPod = notRununingPod t,
          nl_NodeInfoPodNumber = podnumber, nl_NodeInfoNumber = nodeinfonumber,
          nl_NotNodeInfoNumber = notnodeinfonumber, nl_BindFailed = bindfailed t,
          nl_BindSuccess = bindsuccess t, nl_NodePods = nodepod t,
          nl_NodeInfoPods = map_of (map (\<lambda>(k, c). (k, int (cn_Pods c))) snapshot),
          nl_NodeList = nodelist\<rparr>)"

definition GetNodeInfo :: "env \<Rightarrow> kubesim \<Rightarrow> node_info list" where
  "GetNodeInfo env ks =
     (let snapshot = e_cache env (externalkubeclient ks) in
      List.map_filter
        (\<lambda>n. case map_of snapshot (node_Name n) of
           None \<Rightarrow> None
         | Some c \<Rightarrow> Some
             \<lparr>ni_Name = node_Name n, ni_UsedCPU = cn_UsedMilliCPU c, ni_UsedMemory = cn_UsedMemory c,
              ni_CPU = cn_AllocMilliCPU c, ni_Memory = cn_AllocMemory c, ni_PodNumber = int (cn_Pods c)\<rparr>)
        (list_nodes kubesim_selector (externalkubeclient ks)))"

lemma tally_pods:
  "fold tally_pod ps t =
   \<lparr>nodepod = (\<lambda>n. if n \<in> (\<lambda>p. NodeName (pod_Spec p)) ` set ps
        then Some ((case nodepod t n of None \<Rightarrow> 0 | Some c \<Rightarrow> c) +
             int (count_list (map (\<lambda>p. NodeName (pod_Spec p)) ps) n))
        else nodepod t n),
    runingPod = runingPod t + int (length (filter (\<lambda>p. Phase (pod_Status p) = PodRunning) ps)),
    notRununingPod = notRununingPod t + int (length (filter (\<lambda>p. Phase (pod_Status p) \<noteq> PodRunning) ps)),
    last_status = last_status (fold tally_pod ps t),
    bindfailed = bindfailed t + int (length (filter (\<lambda>p. NodeName (pod_Spec p) = []) ps)),
    bindsuccess = bindsuccess t + int (length (filter (\<lambda>p. NodeName (pod_Spec p) \<noteq> []) ps))\<rparr>"
proof (induction ps arbitrary: t)
  case Nil
  show ?case by simp
next
  case (Cons p ps)
  show ?case
    by (simp only: fold.simps comp_apply) (subst Cons.IH, auto simp: tally_pod_def Let_def fun_eq_iff
        split: option.splits)
qed

lemma tally_pods_fields:
  "nodepod (fold tally_pod ps t) n = (if n \<in> (\<lambda>p. NodeName (pod_Spec p)) ` set ps
        then Some ((case nodepod t n of None \<Rightarrow> 0 | Some c \<Rightarrow> c) +
             int (count_list (map (\<lambda>p. NodeName (pod_Spec p)) ps) n))
        else nodepod t n)"
  "runingPod (fold tally_pod ps t) =
     runingPod t + int (length (filter (\<lambda>p. Phase (pod_Status p) = PodRunning) ps))"
  "notRununingPod (fold tally_pod ps t) =
     notRununingPod t + int (length (filter (\<lambda>p. Phase (pod_Status p) \<noteq> PodRunning) ps))"
  "bindfailed (fold tally_pod ps t) = bindfailed t + int (length (filter (\<lambda>p. NodeName (pod_Spec p) = []) ps))"
  "bindsuccess (fold tally_pod ps t) = bindsuccess t + int (length (filter (\<lambda>p. NodeName (pod_Spec p) \<noteq> []) ps))"
  by (subst tally_pods, simp only: pod_tally.select_convs)+

lemma tally_nodes:
  "fold (tally_node s) ns (a, b, c) =
    (a + sum_list (map (\<lambda>n. case map_of s (node_Name n) of None \<Rightarrow> 0 | Some x \<Rightarrow> int (cn_Pods x)) ns),
     b + int (length (filter (\<lambda>n. node_Name n \<in> dom (map_of s)) ns)),
     c + int (length (filter (\<lambda>n. node_Name n \<notin> dom (map_of s)) ns)))"
  by (induction ns arbitrary: a b c) (auto simp: tally_node_def dom_def split: option.splits)

text \<open>The number of nodes in the store.\<close>

definition node_count :: "tracker \<Rightarrow> int" where
  "node_count t = int (length (list_nodes Everything t))"

lemma ListNodes_list [simp]:
  "nl_NodeList (ListNodes env ks) = list_nodes Everything (externalkubeclient ks)"
  "nl_NodeNumber (ListNodes env ks) = node_count (externalkubeclient ks)"
  by (simp_all add: ListNodes_def Let_def node_count_def split: prod.splits)

section \<open>Switches\<close>

definition accessNum :: int where
  "accessNum = 45"

definition buildNode :: "node_config \<Rightarrow> int list" where
  "buildNode cfg =
     (let switchNumber = quot (NodeNumber cfg) accessNum;
          switchNumberOut = rem (NodeNumber cfg) accessNum
      in replicate (nat switchNumber) accessNum @
         (if switchNumberOut \<noteq> 0 then [switchNumberOut] else []))"

definition buildRulesNode :: "node_config \<Rightarrow> int list" where
  "buildRulesNode cfg =
     (let switchNumber = quot (NodeNumber cfg) accessNum;
          switchNumberOut = rem (NodeNumber cfg) accessNum
      in if NodeNumber cfg \<le> 2 * accessNum
         then (let sw1 = quot (NodeNumber cfg) 2; sw2 = rem (NodeNumber cfg) 2 in [sw1, sw1 + sw2])
         else replicate (nat switchNumber) accessNum @
              (if switchNumberOut \<noteq> 0 then [switchNumberOut] else []))"

definition switch_list :: "kubesim \<Rightarrow> node_config \<Rightarrow> int list" where
  "switch_list ks cfg = (if addNodeStrategy ks = ''prd'' then buildRulesNode cfg else buildNode cfg)"

lemma buildNode_sizes:
  assumes "0 \<le> NodeNumber cfg"
  shows "sum_list (buildNode cfg) = NodeNumber cfg \<and> (\<forall>n \<in> set (buildNode cfg). 0 < n \<and> n \<le> 45)"
proof -
  have "0 \<le> NodeNumber cfg div 45" "0 \<le> NodeNumber cfg mod 45" "NodeNumber cfg mod 45 < 45"
    "45 * (NodeNumber cfg div 45) + NodeNumber cfg mod 45 = NodeNumber cfg"
    using assms by (simp_all add: pos_imp_zdiv_nonneg_iff)
  then show ?thesis
    using assms by (auto simp: buildNode_def Let_def accessNum_def quot_nonneg rem_nonneg sum_list_replicate)
qed

lemma buildRulesNode_sizes:
  assumes "0 \<le> NodeNumber cfg"
  shows "sum_list (buildRulesNode cfg) = NodeNumber cfg \<and>
    (\<forall>n \<in> set (buildRulesNode cfg). 0 \<le> n \<and> n \<le> 45)"
proof (cases "NodeNumber cfg \<le> 2 * accessNum")
  case True
  define q r where "q = NodeNumber cfg div 2" and "r = NodeNumber cfg mod 2"
  have "q + (q + r) = NodeNumber cfg" "0 \<le> q" "0 \<le> r" "r < 2"
    using assms by (simp_all add: q_def r_def)
  moreover from this True have "q + r \<le> 45" "q \<le> 45" by (simp_all add: accessNum_def)
  moreover have "buildRulesNode cfg = [q, q + r]"
    using True assms by (simp add: buildRulesNode_def Let_def quot_nonneg rem_nonneg q_def r_def)
  ultimately show ?thesis by simp
next
  case False
  then have "buildRulesNode cfg = buildNode cfg"
    by (simp add: buildRulesNode_def buildNode_def Let_def)
  with buildNode_sizes [OF assms] show ?thesis by auto
qed

lemma switch_list_sizes:
  "0 \<le> NodeNumber cfg \<Longrightarrow> sum_list (switch_list ks cfg) = NodeNumber cfg \<and>
   (\<forall>n \<in> set (switch_list ks cfg). 0 \<le> n \<and> n \<le> 45)"
  using buildNode_sizes [of cfg] buildRulesNode_sizes [of cfg] by (auto simp: switch_list_def)

section \<open>Adding nodes\<close>

type_synonym access_map = "(string \<times> string list) list"

fun add_on_switch ::
  "env \<Rightarrow> nat \<Rightarrow> string list \<Rightarrow> node_config \<times> kubesim \<Rightarrow> (node_config \<times> kubesim, string list) outcome"
where
  "add_on_switch env 0 fakeNameList s = (Ok fakeNameList, s)"
| "add_on_switch env (Suc n) fakeNameList (cfg, ks) =
     (let nodeName = ''fake-'' @ e_uuid env (draws ks); ks1 = ks\<lparr>draws := Suc (draws ks)\<rparr> in
      case BuildNode cfg nodeName of
        (Ok v1Node, cfg1) \<Rightarrow>
          (case create_obj Nodes (NodeObj v1Node) (externalkubeclient ks1) of
             Inl e \<Rightarrow> (Err (Wrap ''unable to create fake node'' (ApiErr e)), (cfg1, ks1))
           | Inr t \<Rightarrow> add_on_switch env n (fakeNameList @ [nodeName])
               (cfg1, ks1\<lparr>externalkubeclient := t\<rparr>))
      | (Err e, cfg1) \<Rightarrow> (Err (Wrap ''Unable to build node config'' e), (cfg1, ks1))
      | (Panic p, cfg1) \<Rightarrow> (Panic p, (cfg1, ks1))
      | (Hang, cfg1) \<Rightarrow> (Hang, (cfg1, ks1)))"

fun add_switches ::
  "env \<Rightarrow> int list \<Rightarrow> access_map \<Rightarrow> node_config \<times> kubesim \<Rightarrow> (node_config \<times> kubesim, access_map) outcome"
where
  "add_switches env [] access s = (Ok access, s)"
| "add_switches env (swNumber # swList) access (cfg, ks) =
     (let accessSwitchName = ''access'' @ take 7 (e_uuid env (draws ks));
          ks1 = ks\<lparr>draws := Suc (draws ks)\<rparr>
      in case gm_put (NodeLabels cfg) ''accessSwitch'' accessSwitchName of
           Ok ls \<Rightarrow>
             seq (add_on_switch env (nat swNumber) [] (cfg\<lparr>NodeLabels := ls\<rparr>, ks1))
               (\<lambda>fakeNameList s. add_switches env swList
                  (AList.update accessSwitchName fakeNameList access) s) id
         | Err e \<Rightarrow> (Err e, (cfg, ks1))
         | Panic p \<Rightarrow> (Panic p, (cfg, ks1))
         | Hang \<Rightarrow> (Hang, (cfg, ks1)))"

definition addNodes ::
  "env \<Rightarrow> node_config \<times> kubesim \<Rightarrow> (node_config \<times> kubesim, access_map) outcome" where
  "addNodes env = (\<lambda>(cfg, ks). add_switches env (switch_list ks cfg) [] (cfg, ks))"

text \<open>The names the operation draws: for each switch its name and the names of its nodes.\<close>

fun fake_names :: "env \<Rightarrow> nat \<Rightarrow> nat \<Rightarrow> string list" where
  "fake_names env d 0 = []"
| "fake_names env d (Suc n) = (''fake-'' @ e_uuid env d) # fake_names env (Suc d) n"

fun switch_plan :: "env \<Rightarrow> nat \<Rightarrow> int list \<Rightarrow> access_map" where
  "switch_plan env d [] = []"
| "switch_plan env d (n # ns) =
     (''access'' @ take 7 (e_uuid env d), fake_names env (Suc d) (nat n)) #
     switch_plan env (Suc d + nat n) ns"

definition plan_names :: "access_map \<Rightarrow> string list" where
  "plan_names plan = concat (map snd plan)"

definition names_free :: "string list \<Rightarrow> tracker \<Rightarrow> bool" where
  "names_free names t \<longleftrightarrow> distinct names \<and> (\<forall>nm \<in> set names. objs t Nodes ([], nm) = None)"

lemma length_fake_names [simp]: "length (fake_names env d n) = n"
  by (induction n arbitrary: d) auto

lemma length_plan_names:
  "(\<forall>n \<in> set ns. 0 \<le> n) \<Longrightarrow> int (length (plan_names (switch_plan env d ns))) = sum_list ns"
  by (induction ns arbitrary: d) (auto simp: plan_names_def)

text \<open>
  \<open>nodes_added t t' names Q\<close>: the store \<open>t'\<close> is \<open>t\<close> with one new node per name, each satisfying \<open>Q\<close>.
\<close>

definition nodes_added :: "tracker \<Rightarrow> tracker \<Rightarrow> string list \<Rightarrow> (node \<Rightarrow> bool) \<Rightarrow> bool" where
  "nodes_added t t' names Q \<longleftrightarrow> tracker_wf t' \<and> (\<forall>g. g \<noteq> Nodes \<longrightarrow> objs t' g = objs t g) \<and>
     (\<forall>ns nm. ns \<noteq> [] \<or> nm \<notin> set names \<longrightarrow> objs t' Nodes (ns, nm) = objs t Nodes (ns, nm)) \<and>
     (\<forall>nm \<in> set names. \<exists>n. objs t' Nodes ([], nm) = Some (NodeObj n) \<and> node_Name n = nm \<and> Q n)"

definition on_switch :: "string \<Rightarrow> node \<Rightarrow> bool" where
  "on_switch sw n \<longleftrightarrow> gm_get (node_Labels n) ''accessSwitch'' = Some sw \<and>
     gm_get (node_Labels n) ''provisioner'' = Some ''kubesim'' \<and>
     gm_get (node_Labels n) ''kubernetes.io/hostname'' = Some (node_Name n)"

lemma nodes_added_none: "tracker_wf t \<Longrightarrow> nodes_added t t [] Q"
  by (simp add: nodes_added_def)

lemma nodes_added_old:
  "nodes_added t t' names Q \<Longrightarrow> ns \<noteq> [] \<or> nm \<notin> set names \<Longrightarrow> objs t' Nodes (ns, nm) = objs t Nodes (ns, nm)"
  by (simp add: nodes_added_def)

lemma nodes_added_new:
  assumes "nodes_added t t' names Q" and "nm \<in> set names"
  obtains n where "objs t' Nodes ([], nm) = Some (NodeObj n)" and "node_Name n = nm" and "Q n"
  using assms unfolding nodes_added_def by blast

lemma nodes_added_append:
  assumes "nodes_added t t1 as Q" and "nodes_added t1 t2 bs R" and "set as \<inter> set bs = {}"
    and "\<And>n. Q n \<Longrightarrow> P n" and "\<And>n. R n \<Longrightarrow> P n"
  shows "nodes_added t t2 (as @ bs) P"
  unfolding nodes_added_def
proof (intro conjI allI ballI impI)
  show "tracker_wf t2" using assms(2) by (simp add: nodes_added_def)
  show "objs t2 g = objs t g" if "g \<noteq> Nodes" for g
    using assms(1,2) that by (simp add: nodes_added_def)
  show "objs t2 Nodes (ns, nm) = objs t Nodes (ns, nm)" if "ns \<noteq> [] \<or> nm \<notin> set (as @ bs)" for ns nm
    using that nodes_added_old [OF assms(1), of ns nm] nodes_added_old [OF assms(2), of ns nm] by auto
  show "\<exists>n. objs t2 Nodes ([], nm) = Some (NodeObj n) \<and> node_Name n = nm \<and> P n" if "nm \<in> set (as @ bs)" for nm
  proof (cases "nm \<in> set bs")
    case True
    then show ?thesis using nodes_added_new [OF assms(2)] assms(5) by blast
  next
    case False
    then have "nm \<in> set as" using that by simp
    from nodes_added_new [OF assms(1) this] obtain n where
      "objs t1 Nodes ([], nm) = Some (NodeObj n)" "node_Name n = nm" "Q n" .
    then show ?thesis using nodes_added_old [OF assms(2), of "[]" nm] False assms(4) by simp
  qed
qed

lemma nodes_added_one:
  assumes "tracker_wf t" and "objs t Nodes (node_key n) = None" and "Q n"
  obtains t' where "create_obj Nodes (NodeObj n) t = Inr t'" and "nodes_added t t' [node_Name n] Q"
    and "objs t' = (objs t)(Nodes := (objs t Nodes)(node_key n \<mapsto> NodeObj n))"
proof -
  obtain t' where t': "create_obj Nodes (NodeObj n) t = Inr t'" "tracker_wf t'"
    "objs t' = (objs t)(Nodes := (objs t Nodes)(node_key n \<mapsto> NodeObj n))"
    using ts.create_new [OF assms(1), of Nodes "NodeObj n"] assms(2) by auto
  then have "nodes_added t t' [node_Name n] Q"
    using assms(3) by (simp add: nodes_added_def node_key_def)
  with t' that show thesis by blast
qed

lemma names_free_step:
  assumes free: "names_free (as @ bs) t" and add: "nodes_added t t1 as Q"
  shows "names_free bs t1"
proof -
  have "objs t1 Nodes ([], nm) = None" if "nm \<in> set bs" for nm
  proof -
    have "nm \<notin> set as" using free that by (auto simp: names_free_def)
    then show ?thesis using nodes_added_old [OF add, of "[]" nm] free that by (simp add: names_free_def)
  qed
  then show ?thesis using free by (simp add: names_free_def)
qed

lemma add_on_switch_ok:
  assumes "cfg_ok cfg" and "gm_get (NodeLabels cfg) ''accessSwitch'' = Some sw"
    and "tracker_wf (externalkubeclient ks)"
    and "names_free (fake_names env (draws ks) n) (externalkubeclient ks)"
  shows "\<exists>cfg' t. add_on_switch env n acc (cfg, ks) =
      (Ok (acc @ fake_names env (draws ks) n), (cfg', ks\<lparr>draws := draws ks + n, externalkubeclient := t\<rparr>)) \<and>
    cfg_ok cfg' \<and> NodeNumber cfg' = NodeNumber cfg \<and>
    nodes_added (externalkubeclient ks) t (fake_names env (draws ks) n) (on_switch sw)"
  using assms
proof (induction n arbitrary: acc cfg ks)
  case 0
  have "ks = ks\<lparr>draws := draws ks + 0, externalkubeclient := externalkubeclient ks\<rparr>" by simp
  with 0 show ?case using nodes_added_none [OF 0(3)] by (intro exI conjI) auto
next
  case (Suc n)
  let ?nm = "''fake-'' @ e_uuid env (draws ks)"
  obtain v cfg1 where v: "BuildNode cfg ?nm = (Ok v, cfg1)" "node_Name v = ?nm"
    "node_Labels v = NodeLabels cfg1" "cfg_ok cfg1" "NodeNumber cfg1 = NodeNumber cfg"
    "gm_get (node_Labels v) ''provisioner'' = Some ''kubesim''"
    "gm_get (node_Labels v) ''kubernetes.io/hostname'' = Some ?nm"
    "gm_get (node_Labels v) ''accessSwitch'' = gm_get (NodeLabels cfg) ''accessSwitch''"
    using BuildNode_ok [OF Suc.prems(1)] by metis
  have free: "objs (externalkubeclient ks) Nodes (node_key v) = None"
    using Suc.prems(4) v(2) by (simp add: names_free_def node_key_def)
  have on: "on_switch sw v"
    using v Suc.prems(2) by (simp add: on_switch_def)
  from nodes_added_one [where Q = "on_switch sw", OF Suc.prems(3) free on] obtain t1 where t1:
    "create_obj Nodes (NodeObj v) (externalkubeclient ks) = Inr t1"
    "nodes_added (externalkubeclient ks) t1 [?nm] (on_switch sw)"
    using v(2) by metis
  let ?ks = "ks\<lparr>draws := Suc (draws ks), externalkubeclient := t1\<rparr>"
  have free': "names_free (fake_names env (draws ?ks) n) (externalkubeclient ?ks)"
    using names_free_step [OF _ t1(2), of "fake_names env (Suc (draws ks)) n"] Suc.prems(4) by simp
  have wf: "tracker_wf (externalkubeclient ?ks)" using t1(2) by (simp add: nodes_added_def)
  have sw: "gm_get (NodeLabels cfg1) ''accessSwitch'' = Some sw" using v(3,8) Suc.prems(2) by simp
  obtain cfg' t where r: "add_on_switch env n (acc @ [?nm]) (cfg1, ?ks) =
      (Ok ((acc @ [?nm]) @ fake_names env (draws ?ks) n),
       (cfg', ?ks\<lparr>draws := draws ?ks + n, externalkubeclient := t\<rparr>))"
    "cfg_ok cfg'" "NodeNumber cfg' = NodeNumber cfg1"
    "nodes_added (externalkubeclient ?ks) t (fake_names env (draws ?ks) n) (on_switch sw)"
    using Suc.IH [OF v(4) sw wf free'] by blast
  have "set [?nm] \<inter> set (fake_names env (Suc (draws ks)) n) = {}"
    using Suc.prems(4) by (simp add: names_free_def)
  then have "nodes_added (externalkubeclient ks) t (fake_names env (draws ks) (Suc n)) (on_switch sw)"
    using nodes_added_append [OF t1(2), of t _ "on_switch sw" "on_switch sw"] r(4) by simp
  moreover have "add_on_switch env (Suc n) acc (cfg, ks) =
      (Ok (acc @ fake_names env (draws ks) (Suc n)),
       (cfg', ks\<lparr>draws := draws ks + Suc n, externalkubeclient := t\<rparr>))"
    using v(1) t1(1) r(1) by (simp add: Let_def)
  ultimately show ?case using r(2,3) v(5) by auto
qed

definition plan_draws :: "int list \<Rightarrow> nat" where
  "plan_draws ns = length ns + sum_list (map nat ns)"

definition record_access :: "access_map \<Rightarrow> access_map \<Rightarrow> access_map" where
  "record_access plan access = fold (\<lambda>(sw, l). AList.update sw l) plan access"

definition planned :: "access_map \<Rightarrow> node \<Rightarrow> bool" where
  "planned plan n \<longleftrightarrow> (\<exists>(sw, l) \<in> set plan. node_Name n \<in> set l \<and> on_switch sw n)"

lemma nodes_added_in: "nodes_added t t' names Q \<Longrightarrow> nodes_added t t' names (\<lambda>n. node_Name n \<in> set names \<and> Q n)"
proof -
  assume a: "nodes_added t t' names Q"
  have "\<exists>n. objs t' Nodes ([], nm) = Some (NodeObj n) \<and> node_Name n = nm \<and> node_Name n \<in> set names \<and> Q n"
    if "nm \<in> set names" for nm
    using nodes_added_new [OF a that] that by blast
  with a show ?thesis by (simp add: nodes_added_def)
qed

lemma add_switches_ok:
  assumes "cfg_ok cfg" and "tracker_wf (externalkubeclient ks)"
    and "names_free (plan_names (switch_plan env (draws ks) ns)) (externalkubeclient ks)"
  shows "\<exists>cfg' t. add_switches env ns access (cfg, ks) =
      (Ok (record_access (switch_plan env (draws ks) ns) access),
       (cfg', ks\<lparr>draws := draws ks + plan_draws ns, externalkubeclient := t\<rparr>)) \<and>
    cfg_ok cfg' \<and> NodeNumber cfg' = NodeNumber cfg \<and>
    nodes_added (externalkubeclient ks) t (plan_names (switch_plan env (draws ks) ns))
      (planned (switch_plan env (draws ks) ns))"
  using assms
proof (induction ns arbitrary: access cfg ks)
  case Nil
  then show ?case
    using nodes_added_none [OF Nil(2)]
    by (auto simp: plan_draws_def record_access_def plan_names_def intro!: exI [of _ "externalkubeclient ks"])
next
  case (Cons n ns)
  let ?sw = "''access'' @ take 7 (e_uuid env (draws ks))"
  let ?l = "fake_names env (Suc (draws ks)) (nat n)"
  let ?rest = "switch_plan env (Suc (draws ks) + nat n) ns"
  let ?k1 = "ks\<lparr>draws := Suc (draws ks)\<rparr>"
  have plan: "plan_names (switch_plan env (draws ks) (n # ns)) = ?l @ plan_names ?rest"
    by (simp add: plan_names_def)
  obtain ls where ls: "NodeLabels cfg = Some ls" using Cons.prems(1) by (auto simp: cfg_ok_def)
  let ?c1 = "cfg\<lparr>NodeLabels := Some (ls(''accessSwitch'' \<mapsto> ?sw))\<rparr>"
  have c1: "cfg_ok ?c1" "gm_get (NodeLabels ?c1) ''accessSwitch'' = Some ?sw"
    using Cons.prems(1) by (simp_all add: cfg_ok_def)
  have f1: "names_free (fake_names env (draws ?k1) (nat n)) (externalkubeclient ?k1)"
    using Cons.prems(3) unfolding plan by (simp add: names_free_def)
  obtain c2 t2 where r1: "add_on_switch env (nat n) [] (?c1, ?k1) =
      (Ok ([] @ fake_names env (draws ?k1) (nat n)),
       (c2, ?k1\<lparr>draws := draws ?k1 + nat n, externalkubeclient := t2\<rparr>))"
    "cfg_ok c2" "NodeNumber c2 = NodeNumber ?c1"
    "nodes_added (externalkubeclient ?k1) t2 (fake_names env (draws ?k1) (nat n)) (on_switch ?sw)"
    using add_on_switch_ok [OF c1, of ?k1 env "nat n" "[]"] f1 Cons.prems(2) by auto
  let ?k2 = "ks\<lparr>draws := Suc (draws ks) + nat n, externalkubeclient := t2\<rparr>"
  have a1: "nodes_added (externalkubeclient ks) t2 ?l (on_switch ?sw)" using r1(4) by simp
  have wf2: "tracker_wf (externalkubeclient ?k2)" using a1 by (simp add: nodes_added_def)
  have f2: "names_free (plan_names (switch_plan env (draws ?k2) ns)) (externalkubeclient ?k2)"
    using names_free_step [OF Cons.prems(3) [unfolded plan] a1] by simp
  obtain c3 t3 where r2: "add_switches env ns (AList.update ?sw ?l access) (c2, ?k2) =
      (Ok (record_access (switch_plan env (draws ?k2) ns) (AList.update ?sw ?l access)),
       (c3, ?k2\<lparr>draws := draws ?k2 + plan_draws ns, externalkubeclient := t3\<rparr>))"
    "cfg_ok c3" "NodeNumber c3 = NodeNumber c2"
    "nodes_added (externalkubeclient ?k2) t3 (plan_names (switch_plan env (draws ?k2) ns))
      (planned (switch_plan env (draws ?k2) ns))"
    using Cons.IH [OF r1(2) wf2 f2] by blast
  have a2: "nodes_added t2 t3 (plan_names ?rest) (planned ?rest)" using r2(4) by simp
  have "set ?l \<inter> set (plan_names ?rest) = {}"
    using Cons.prems(3) unfolding plan by (simp add: names_free_def)
  from a2 this have "nodes_added (externalkubeclient ks) t3 (?l @ plan_names ?rest)
      (planned (switch_plan env (draws ks) (n # ns)))"
    by (rule nodes_added_append [OF nodes_added_in [OF a1]]) (auto simp: planned_def)
  moreover have "add_switches env (n # ns) access (cfg, ks) =
      (Ok (record_access (switch_plan env (draws ks) (n # ns)) access),
       (c3, ks\<lparr>draws := draws ks + plan_draws (n # ns), externalkubeclient := t3\<rparr>))"
    using r1(1) r2(1) ls by (simp add: Let_def record_access_def plan_draws_def)
  ultimately show ?case using r1(3) r2(2,3) unfolding plan by auto
qed

text \<open>What \<open>addNodes\<close> needs: a complete configuration and free names.\<close>

definition can_add :: "env \<Rightarrow> node_config \<Rightarrow> kubesim \<Rightarrow> bool" where
  "can_add env cfg ks \<longleftrightarrow> cfg_ok cfg \<and> tracker_wf (externalkubeclient ks) \<and> 0 \<le> NodeNumber cfg \<and>
     names_free (plan_names (switch_plan env (draws ks) (switch_list ks cfg))) (externalkubeclient ks)"

lemma addNodes_ok:
  assumes "can_add env cfg ks"
  obtains cfg' t where "addNodes env (cfg, ks) =
      (Ok (record_access (switch_plan env (draws ks) (switch_list ks cfg)) []),
       (cfg', ks\<lparr>draws := draws ks + plan_draws (switch_list ks cfg), externalkubeclient := t\<rparr>))"
    and "cfg_ok cfg'" and "NodeNumber cfg' = NodeNumber cfg"
    and "nodes_added (externalkubeclient ks) t
      (plan_names (switch_plan env (draws ks) (switch_list ks cfg)))
      (planned (switch_plan env (draws ks) (switch_list ks cfg)))"
    and "int (length (plan_names (switch_plan env (draws ks) (switch_list ks cfg)))) = NodeNumber cfg"
  using assms add_switches_ok [of cfg ks env "switch_list ks cfg" "[]"] that
    length_plan_names [of "switch_list ks cfg" env "draws ks"] switch_list_sizes [of cfg ks]
  by (auto simp: can_add_def addNodes_def)

lemma node_count_card:
  assumes "tracker_wf t"
  shows "node_count t = int (card (dom (objs t Nodes)))"
proof -
  have "dom (objs t Nodes) = node_key ` set (list_nodes Everything t)"
  proof (intro set_eqI iffI)
    fix k assume "k \<in> dom (objs t Nodes)"
    then obtain x where "objs t Nodes k = Some x" by auto
    then obtain n where "objs t Nodes (node_key n) = Some (NodeObj n)" "k = node_key n"
      using node_stored [OF assms] by metis
    then show "k \<in> node_key ` set (list_nodes Everything t)" by (auto simp: in_list_nodes [OF assms])
  qed (auto simp: in_list_nodes [OF assms])
  then have "card (dom (objs t Nodes)) = card (set (map node_key (list_nodes Everything t)))" by simp
  then show ?thesis
    using distinct_card [OF distinct_list_nodes [OF assms, of Everything]] by (simp add: node_count_def)
qed

lemma finite_dom_objs [simp]: "finite (dom (objs t g))"
  by (simp add: objs_def finite_dom_map_of)

lemma nodes_added_count:
  assumes add: "nodes_added t t' names Q" and wf: "tracker_wf t" and free: "names_free names t"
  shows "node_count t' = node_count t + int (length names)"
proof -
  let ?new = "(\<lambda>nm. ([], nm)) ` set names"
  have "dom (objs t' Nodes) = dom (objs t Nodes) \<union> ?new"
  proof (intro set_eqI)
    fix k :: key
    obtain ns nm where k: "k = (ns, nm)" by fastforce
    show "k \<in> dom (objs t' Nodes) \<longleftrightarrow> k \<in> dom (objs t Nodes) \<union> ?new"
      using nodes_added_old [OF add, of ns nm] nodes_added_new [OF add, of nm] unfolding k
      by (cases "ns = [] \<and> nm \<in> set names") (auto simp: domIff image_iff)
  qed
  moreover have "dom (objs t Nodes) \<inter> ?new = {}"
    using free by (auto simp: names_free_def)
  moreover have "card ?new = length names"
    using free by (simp add: names_free_def card_image inj_on_def distinct_card)
  ultimately have "card (dom (objs t' Nodes)) = card (dom (objs t Nodes)) + length names"
    by (simp add: card_Un_disjoint)
  then show ?thesis
    using node_count_card [OF wf] node_count_card [of t'] add by (simp add: nodes_added_def)
qed

section \<open>Reaching a number of nodes\<close>

text \<open>
  The slice of the nodes to delete may reach beyond the length of the list, up to its capacity;
  the extra items are zero values, with an empty name.
\<close>

fun add_loop ::
  "nat \<Rightarrow> env \<Rightarrow> int \<Rightarrow> access_map \<Rightarrow> node_config \<times> kubesim \<Rightarrow>
   (node_config \<times> kubesim, access_map \<times> node_info_list) outcome"
where
  "add_loop 0 env nodeCount access s = (Hang, s)"
| "add_loop (Suc fuel) env nodeCount access (cfg, ks) =
     (let nodeinfolist = ListNodes env ks in
      if nl_NodeNumber nodeinfolist < nodeCount
      then
        (let failedNode = nodeCount - nl_NodeNumber nodeinfolist in
         case addNodes env (cfg\<lparr>NodeNumber := failedNode\<rparr>, ks) of
           (Ok access', s) \<Rightarrow> add_loop fuel env nodeCount access' s
         | (Err e, s) \<Rightarrow> (Err (Wrap ''Unable to create simulator node'' e), s)
         | (Panic p, s) \<Rightarrow> (Panic p, s)
         | (Hang, s) \<Rightarrow> (Hang, s))
      else if nl_NodeNumber nodeinfolist > nodeCount
      then
        (let deleteNodeCount = nat (nl_NodeNumber nodeinfolist - nodeCount);
             items = nl_NodeList nodeinfolist
         in if e_cap env (length items) < deleteNodeCount \<and> length items < deleteNodeCount
            then (Panic SliceBounds, (cfg, ks))
            else add_loop fuel env nodeCount access
              (cfg, ks\<lparr>externalkubeclient := delete_logged (delete_key Nodes)
                 (map node_key (take deleteNodeCount items) @
                  replicate (deleteNodeCount - length items) ([], [])) (externalkubeclient ks)\<rparr>))
      else (Ok (access, nodeinfolist), (cfg, ks)))"

definition AddNodes ::
  "nat \<Rightarrow> env \<Rightarrow> node_config \<times> kubesim \<Rightarrow>
   (node_config \<times> kubesim, access_map \<times> node_info_list) outcome" where
  "AddNodes fuel env = (\<lambda>(cfg, ks). add_loop fuel env (NodeNumber cfg) [] (cfg, ks))"

definition DeleteNodes :: "kubesim \<Rightarrow> kubesim" where
  "DeleteNodes ks =
     (let ks1 = snd (CleanPod ks);
          nodelist = list_nodes Everything (externalkubeclient ks1)
      in ks1\<lparr>externalkubeclient :=
           delete_logged (delete_key Nodes) (map node_key nodelist) (externalkubeclient ks1)\<rparr>)"

definition CreateFakeNode ::
  "nat \<Rightarrow> env \<Rightarrow> int \<Rightarrow> node_config \<times> kubesim \<Rightarrow> (node_config \<times> kubesim, access_map) outcome" where
  "CreateFakeNode fuel env nodeNumber = (\<lambda>(cfg, ks).
     (case AddNodes fuel env (cfg\<lparr>NodeNumber := nodeNumber\<rparr>, DeleteNodes ks) of
        (Ok (access, _), s) \<Rightarrow> (Ok access, s)
      | (Err e, s) \<Rightarrow> (Err (Msg ''failed to create nodes''), s)
      | (Panic p, s) \<Rightarrow> (Panic p, s)
      | (Hang, s) \<Rightarrow> (Hang, s)))"

lemma node_count_nonneg [simp]: "0 \<le> node_count t"
  by (simp add: node_count_def)

lemma add_loop_done:
  "node_count (externalkubeclient ks) = n \<Longrightarrow>
   add_loop (Suc fuel) env n access (cfg, ks) = (Ok (access, ListNodes env ks), (cfg, ks))"
  by (simp add: Let_def)

text \<open>Deleting the listed nodes of a list of keys.\<close>

lemma delete_nodes:
  assumes wf: "tracker_wf t" and sub: "set ns \<subseteq> set (list_nodes Everything t)" and d: "distinct (map node_key ns)"
  obtains t' where "delete_logged (delete_key Nodes) (map node_key ns) t = t'" and "tracker_wf t'"
    and "objs t' = (objs t)(Nodes := objs t Nodes |` (- node_key ` set ns))"
proof -
  have old: "objs t Nodes k \<noteq> None" if "k \<in> set (map node_key ns)" for k
    using that sub in_list_nodes [OF wf] by fastforce
  show thesis using ts.delete_each_old [OF wf d old] that by auto
qed

lemma list_nodes_restrict:
  assumes "tracker_wf t" and "tracker_wf t'" and "objs t' Nodes = objs t Nodes |` (- node_key ` set ns)"
    and "set ns \<subseteq> set (list_nodes Everything t)"
  shows "set (list_nodes Everything t') = set (list_nodes Everything t) - set ns"
proof (intro set_eqI)
  fix n
  have inj: "n \<in> set ns \<longleftrightarrow> node_key n \<in> node_key ` set ns" if "n \<in> set (list_nodes Everything t)"
  proof
    assume "node_key n \<in> node_key ` set ns"
    then obtain m where m: "m \<in> set ns" "node_key n = node_key m" by auto
    then have "objs t Nodes (node_key n) = Some (NodeObj m)"
      using assms(4) in_list_nodes [OF assms(1), of m Everything] by auto
    with that in_list_nodes [OF assms(1), of n Everything] m(1) show "n \<in> set ns" by simp
  qed simp
  have "n \<in> set (list_nodes Everything t') \<longleftrightarrow>
      n \<in> set (list_nodes Everything t) \<and> node_key n \<notin> node_key ` set ns"
    by (simp only: in_list_nodes [OF assms(1)] in_list_nodes [OF assms(2)] assms(3)
        restrict_map_def sel_matches.simps) auto
  then show "n \<in> set (list_nodes Everything t') \<longleftrightarrow> n \<in> set (list_nodes Everything t) - set ns"
    using inj by blast
qed

lemma distinct_nodes: "tracker_wf t \<Longrightarrow> distinct (list_nodes sel t)"
  using distinct_list_nodes [of t sel] by (rule distinct_map [THEN iffD1, THEN conjunct1])

lemma DeleteNodes_result:
  assumes "tracker_wf (externalkubeclient ks)"
  obtains t where "DeleteNodes ks = ks\<lparr>externalkubeclient := t\<rparr>" and "tracker_wf t"
    and "objs t = (objs (externalkubeclient ks))
      (Pods := drop_matching kubesim_selector (objs (externalkubeclient ks) Pods), Nodes := Map.empty)"
proof -
  obtain t1 where t1: "CleanPod ks = (Ok (), ks\<lparr>externalkubeclient := t1\<rparr>)" "tracker_wf t1"
    "objs t1 = (objs (externalkubeclient ks))
      (Pods := drop_matching kubesim_selector (objs (externalkubeclient ks) Pods))"
    using CleanPod_result [OF assms] by blast
  obtain t2 where t2: "delete_logged (delete_key Nodes) (map node_key (list_nodes Everything t1)) t1 = t2"
    "tracker_wf t2" "objs t2 = (objs t1)(Nodes := objs t1 Nodes |` (- node_key ` set (list_nodes Everything t1)))"
    by (rule delete_nodes [OF t1(2) subset_refl distinct_list_nodes [OF t1(2)]])
  have "objs t1 Nodes |` (- node_key ` set (list_nodes Everything t1)) = Map.empty"
  proof
    fix k
    show "(objs t1 Nodes |` (- node_key ` set (list_nodes Everything t1))) k = None"
    proof (cases "objs t1 Nodes k")
      case (Some x)
      then obtain n where "x = NodeObj n" "k = node_key n" by (rule node_stored [OF t1(2)])
      with Some have "n \<in> set (list_nodes Everything t1)" by (simp add: in_list_nodes [OF t1(2)])
      with \<open>k = node_key n\<close> show ?thesis by (simp add: restrict_map_def)
    qed (simp add: restrict_map_def)
  qed
  then have "objs t2 = (objs (externalkubeclient ks))
      (Pods := drop_matching kubesim_selector (objs (externalkubeclient ks) Pods), Nodes := Map.empty)"
    using t2(3) t1(3) by (intro ext) simp
  moreover have "DeleteNodes ks = ks\<lparr>externalkubeclient := t2\<rparr>"
    using t1(1) t2(1) by (simp add: DeleteNodes_def Let_def)
  ultimately show thesis using that t2(2) by blast
qed

text \<open>The loop ends after one step that adds or deletes.\<close>

lemma add_loop_fewer:
  assumes less: "node_count (externalkubeclient ks) < n"
    and can: "can_add env (cfg\<lparr>NodeNumber := n - node_count (externalkubeclient ks)\<rparr>) ks"
    and plan: "plan = switch_plan env (draws ks)
      (switch_list ks (cfg\<lparr>NodeNumber := n - node_count (externalkubeclient ks)\<rparr>))"
  obtains cfg' ks' d where "add_loop (Suc (Suc fuel)) env n access (cfg, ks) =
      (Ok (record_access plan [], ListNodes env ks'), (cfg', ks'))"
    and "node_count (externalkubeclient ks') = n"
    and "nodes_added (externalkubeclient ks) (externalkubeclient ks') (plan_names plan) (planned plan)"
    and "ks' = ks\<lparr>draws := d, externalkubeclient := externalkubeclient ks'\<rparr>" and "cfg_ok cfg'"
proof -
  let ?cfg = "cfg\<lparr>NodeNumber := n - node_count (externalkubeclient ks)\<rparr>"
  obtain cfg' t where r: "addNodes env (?cfg, ks) = (Ok (record_access plan []),
      (cfg', ks\<lparr>draws := draws ks + plan_draws (switch_list ks ?cfg), externalkubeclient := t\<rparr>))"
    "cfg_ok cfg'" "nodes_added (externalkubeclient ks) t (plan_names plan) (planned plan)"
    "int (length (plan_names plan)) = NodeNumber ?cfg"
    using addNodes_ok [OF can] unfolding plan by metis
  have "names_free (plan_names plan) (externalkubeclient ks)" "tracker_wf (externalkubeclient ks)"
    using can by (simp_all add: can_add_def plan)
  then have "node_count t = n"
    using nodes_added_count [OF r(3)] r(4) by simp
  then show thesis
    using that [of "ks\<lparr>draws := draws ks + plan_draws (switch_list ks ?cfg), externalkubeclient := t\<rparr>"
        cfg' "draws ks + plan_draws (switch_list ks ?cfg)"] r less
    by (simp add: Let_def)
qed

lemma delete_surplus:
  assumes wf: "tracker_wf t0" and more: "n < node_count t0" and n: "0 \<le> n"
    and items: "items = list_nodes Everything t0" and k: "k = nat (node_count t0 - n)"
  obtains t where "delete_logged (delete_key Nodes)
      (map node_key (take k items) @ replicate (k - length items) ([], [])) t0 = t"
    and "k \<le> length items" and "node_count t = n" and "tracker_wf t"
    and "objs t = (objs t0)(Nodes := objs t0 Nodes |` (- node_key ` set (take k items)))"
    and "set (list_nodes Everything t) = set (drop k items)"
proof -
  have kl: "k \<le> length items" "length items - k = nat n"
    using n more unfolding items k node_count_def by auto
  have sub: "set (take k items) \<subseteq> set (list_nodes Everything t0)"
    unfolding items by (rule set_take_subset)
  have "distinct (map node_key items)" unfolding items by (rule distinct_list_nodes [OF wf])
  then have d: "distinct (map node_key (take k items))" by (simp add: distinct_take flip: take_map)
  obtain t where t: "delete_logged (delete_key Nodes) (map node_key (take k items)) t0 = t"
    "tracker_wf t" "objs t = (objs t0)(Nodes := objs t0 Nodes |` (- node_key ` set (take k items)))"
    by (rule delete_nodes [OF wf sub d])
  have di: "distinct items" unfolding items by (rule distinct_nodes [OF wf])
  have left: "set (list_nodes Everything t) = set items - set (take k items)"
    using list_nodes_restrict [OF wf t(2) _ sub] t(3) by (simp add: items)
  moreover have "set items = set (take k items) \<union> set (drop k items)"
    by (metis append_take_drop_id set_append)
  moreover have "set (take k items) \<inter> set (drop k items) = {}"
    using di by (rule set_take_disj_set_drop_if_distinct) simp
  ultimately have rest: "set (list_nodes Everything t) = set (drop k items)" by auto
  have "card (set (list_nodes Everything t)) = length (drop k items)"
    unfolding rest using di by (intro distinct_card) simp
  then have "node_count t = n"
    using distinct_card [OF distinct_nodes [OF t(2), of Everything]] kl(2) n by (simp add: node_count_def)
  then show thesis using that [OF _ kl(1) _ t(2,3) rest] t(1) kl(1) by simp
qed

lemma add_loop_more:
  assumes wf: "tracker_wf (externalkubeclient ks)"
    and more: "n < node_count (externalkubeclient ks)" and n: "0 \<le> n"
    and items: "items = list_nodes Everything (externalkubeclient ks)"
    and k: "k = nat (node_count (externalkubeclient ks) - n)"
  obtains t where "add_loop (Suc (Suc fuel)) env n access (cfg, ks) =
      (Ok (access, ListNodes env (ks\<lparr>externalkubeclient := t\<rparr>)), (cfg, ks\<lparr>externalkubeclient := t\<rparr>))"
    and "node_count t = n" and "tracker_wf t"
    and "\<forall>g. g \<noteq> Nodes \<longrightarrow> objs t g = objs (externalkubeclient ks) g"
    and "set (list_nodes Everything t) = set (drop k items)"
proof -
  obtain t where t: "delete_logged (delete_key Nodes)
      (map node_key (take k items) @ replicate (k - length items) ([], [])) (externalkubeclient ks) = t"
    "k \<le> length items" "node_count t = n" "tracker_wf t"
    "objs t = (objs (externalkubeclient ks))
      (Nodes := objs (externalkubeclient ks) Nodes |` (- node_key ` set (take k items)))"
    "set (list_nodes Everything t) = set (drop k items)"
    by (rule delete_surplus [OF wf more n items k])
  have "add_loop (Suc (Suc fuel)) env n access (cfg, ks) =
      (Ok (access, ListNodes env (ks\<lparr>externalkubeclient := t\<rparr>)), (cfg, ks\<lparr>externalkubeclient := t\<rparr>))"
    using more t(1,2,3) by (simp add: Let_def flip: items k)
  then show thesis using that t(3-6) by simp
qed

declare add_loop.simps [simp del]

section \<open>Properties\<close>

text \<open>
  C21. \<open>AddNodes\<close> ends after at most two rounds of its loop with exactly the requested number of
  nodes in the cluster, and returns their list. When the cluster had fewer nodes, all of them are
  kept, and the new ones are the planned ones: at most 45 on each switch, labelled with their
  switch and as kubesim's. When it had more, the first nodes in name order are deleted, whether or
  not kubesim created them. Nothing but nodes changes.
\<close>

theorem AddNodes_reaches_count:
  assumes "tracker_wf (externalkubeclient ks)" and "0 \<le> NodeNumber cfg" and "2 \<le> fuel"
    and "n0 = node_count (externalkubeclient ks)"
    and "n0 < NodeNumber cfg \<Longrightarrow> can_add env (cfg\<lparr>NodeNumber := NodeNumber cfg - n0\<rparr>) ks"
    and "sizes = switch_list ks (cfg\<lparr>NodeNumber := NodeNumber cfg - n0\<rparr>)"
  shows "\<exists>access cfg' ks'.
    AddNodes fuel env (cfg, ks) = (Ok (access, ListNodes env ks'), (cfg', ks')) \<and>
    node_count (externalkubeclient ks') = NodeNumber cfg \<and>
    (\<forall>g. g \<noteq> Nodes \<longrightarrow> objs (externalkubeclient ks') g = objs (externalkubeclient ks) g) \<and>
    (if n0 < NodeNumber cfg
     then access = record_access (switch_plan env (draws ks) sizes) [] \<and>
       (\<forall>k \<in> set sizes. 0 \<le> k \<and> k \<le> 45) \<and> sum_list sizes = NodeNumber cfg - n0 \<and>
       nodes_added (externalkubeclient ks) (externalkubeclient ks')
         (plan_names (switch_plan env (draws ks) sizes)) (planned (switch_plan env (draws ks) sizes))
     else set (list_nodes Everything (externalkubeclient ks')) =
       set (drop (nat (n0 - NodeNumber cfg)) (list_nodes Everything (externalkubeclient ks))))"
proof -
  obtain f where f: "fuel = Suc (Suc f)" using assms(3) by (metis add_2_eq_Suc le_Suc_ex)
  have A: "AddNodes fuel env (cfg, ks) = add_loop (Suc (Suc f)) env (NodeNumber cfg) [] (cfg, ks)"
    by (simp add: AddNodes_def f)
  consider "n0 < NodeNumber cfg" | "NodeNumber cfg < n0" | "n0 = NodeNumber cfg" by linarith
  then show ?thesis
  proof cases
    case 1
    obtain cfg' ks' d where r: "add_loop (Suc (Suc f)) env (NodeNumber cfg) [] (cfg, ks) =
      (Ok (record_access (switch_plan env (draws ks) sizes) [], ListNodes env ks'), (cfg', ks'))"
      "node_count (externalkubeclient ks') = NodeNumber cfg"
      "nodes_added (externalkubeclient ks) (externalkubeclient ks')
        (plan_names (switch_plan env (draws ks) sizes)) (planned (switch_plan env (draws ks) sizes))"
      using add_loop_fewer [of ks "NodeNumber cfg" env cfg "switch_plan env (draws ks) sizes" f "[]"]
        1 assms(4,5,6) by metis
    moreover have "sum_list sizes = NodeNumber cfg - n0 \<and> (\<forall>k \<in> set sizes. 0 \<le> k \<and> k \<le> 45)"
      using switch_list_sizes [of "cfg\<lparr>NodeNumber := NodeNumber cfg - n0\<rparr>" ks] 1 assms(6) by simp
    moreover have "\<forall>g. g \<noteq> Nodes \<longrightarrow> objs (externalkubeclient ks') g = objs (externalkubeclient ks) g"
      using r(3) by (simp add: nodes_added_def)
    ultimately show ?thesis using A 1 by (intro exI conjI) auto
  next
    case 2
    then have lt: "NodeNumber cfg < node_count (externalkubeclient ks)" using assms(4) by simp
    obtain t where
      "add_loop (Suc (Suc f)) env (NodeNumber cfg) [] (cfg, ks) =
        (Ok ([], ListNodes env (ks\<lparr>externalkubeclient := t\<rparr>)), (cfg, ks\<lparr>externalkubeclient := t\<rparr>))"
      "node_count t = NodeNumber cfg" "tracker_wf t"
      "\<forall>g. g \<noteq> Nodes \<longrightarrow> objs t g = objs (externalkubeclient ks) g"
      "set (list_nodes Everything t) = set (drop (nat (node_count (externalkubeclient ks) - NodeNumber cfg))
        (list_nodes Everything (externalkubeclient ks)))"
      by (rule add_loop_more [OF assms(1) lt assms(2) refl refl])
    with A 2 assms(4) show ?thesis
      by (intro exI [of _ "[]"] exI [of _ cfg] exI [of _ "ks\<lparr>externalkubeclient := t\<rparr>"]) simp
  next
    case 3
    then have "add_loop (Suc (Suc f)) env (NodeNumber cfg) [] (cfg, ks) =
        (Ok ([], ListNodes env ks), (cfg, ks))"
      using assms(4) by (intro add_loop_done) simp
    with A 3 assms(4) show ?thesis by (intro exI [of _ "[]"] exI [of _ cfg] exI [of _ ks]) simp
  qed
qed

lemma objs_empty [simp]: "objs (\<lambda>_. []) g = Map.empty"
  by (simp add: objs_def)

lemma tracker_wf_Nil [simp]: "tracker_wf (\<lambda>_. [])"
  by (simp add: tracker_wf_def)

lemma node_count_empty [simp]: "node_count (\<lambda>_. []) = 0"
  by (simp add: node_count_card)

lemma example_can_add:
  "can_add (example_env sched) example_config (New ''addNode'' (\<lambda>_. []))"
proof -
  have "switch_list (New ''addNode'' (\<lambda>_. [])) example_config = [3]"
    by (simp add: switch_list_def buildNode_def example_config_def accessNum_def quot_def rem_def)
  then show ?thesis
    using example_config_ok
    by (simp add: can_add_def example_config_def plan_names_def names_free_def example_uuids
        eval_nat_numeral) (simp add: example_uuids flip: numeral_2_eq_2 numeral_3_eq_3)
qed

theorem AddNodes_reaches_count_witness:
  "\<exists>access cfg' ks'. AddNodes 2 (example_env (\<lambda>_. NotYet)) (example_config, New ''addNode'' (\<lambda>_. [])) =
      (Ok (access, ListNodes (example_env (\<lambda>_. NotYet)) ks'), (cfg', ks')) \<and>
    node_count (externalkubeclient ks') = 3"
proof -
  have n: "NodeNumber example_config = 3" by (simp add: example_config_def)
  have c: "example_config\<lparr>NodeNumber := 3\<rparr> = example_config" by (simp add: example_config_def)
  have z: "0 = node_count (externalkubeclient (New ''addNode'' (\<lambda>_. [])))" by simp
  show ?thesis
    using AddNodes_reaches_count [of "New ''addNode'' (\<lambda>_. [])" example_config 2, OF _ _ _ z _ refl,
        of "example_env (\<lambda>_. NotYet)"] example_can_add [of "\<lambda>_. NotYet"]
    by (auto simp: c n)
qed

lemma CreateFakeNode_ok:
  assumes "cfg_ok cfg" and "tracker_wf (externalkubeclient ks)" and "0 \<le> n" and "2 \<le> fuel"
    and "plan = switch_plan env (draws ks) (switch_list ks (cfg\<lparr>NodeNumber := n\<rparr>))"
    and "distinct (plan_names plan)"
  shows "\<exists>access cfg' ks'. CreateFakeNode fuel env n (cfg, ks) = (Ok access, (cfg', ks')) \<and>
    cfg_ok cfg' \<and> node_count (externalkubeclient ks') = n \<and>
    tracker_wf (externalkubeclient ks') \<and> (\<exists>d. ks' = ks\<lparr>draws := d, externalkubeclient := externalkubeclient ks'\<rparr>) \<and>
    (\<forall>nd \<in> set (list_nodes Everything (externalkubeclient ks')). planned plan nd) \<and>
    objs (externalkubeclient ks') Pods =
      drop_matching kubesim_selector (objs (externalkubeclient ks) Pods) \<and>
    (\<forall>g. g \<noteq> Nodes \<longrightarrow> g \<noteq> Pods \<longrightarrow> objs (externalkubeclient ks') g = objs (externalkubeclient ks) g) \<and>
    access = (if n = 0 then [] else record_access plan [])"
proof -
  obtain t where t: "DeleteNodes ks = ks\<lparr>externalkubeclient := t\<rparr>" "tracker_wf t"
    "objs t = (objs (externalkubeclient ks))
      (Pods := drop_matching kubesim_selector (objs (externalkubeclient ks) Pods), Nodes := Map.empty)"
    using DeleteNodes_result [OF assms(2)] by blast
  let ?ks = "ks\<lparr>externalkubeclient := t\<rparr>"
  obtain f where f: "fuel = Suc (Suc f)" using assms(4) by (metis add_2_eq_Suc le_Suc_ex)
  have count: "node_count t = 0" using node_count_card [OF t(2)] t(3) by simp
  have C: "CreateFakeNode fuel env n (cfg, ks) =
      (case add_loop (Suc (Suc f)) env n [] (cfg\<lparr>NodeNumber := n\<rparr>, ?ks) of
        (Ok (access, _), s) \<Rightarrow> (Ok access, s)
      | (Err e, s) \<Rightarrow> (Err (Msg ''failed to create nodes''), s)
      | (Panic p, s) \<Rightarrow> (Panic p, s) | (Hang, s) \<Rightarrow> (Hang, s))"
    by (simp add: CreateFakeNode_def AddNodes_def f t(1))
  show ?thesis
  proof (cases "n = 0")
    case True
    then have e: "add_loop (Suc (Suc f)) env n [] (cfg\<lparr>NodeNumber := n\<rparr>, ?ks) =
        (Ok ([], ListNodes env ?ks), (cfg\<lparr>NodeNumber := n\<rparr>, ?ks))"
      using count by (intro add_loop_done) simp
    have "list_nodes Everything t = []" using count by (simp add: node_count_def)
    then show ?thesis using C e True t(2,3) count assms(1)
      by (intro exI [of _ "[]"] exI [of _ "cfg\<lparr>NodeNumber := n\<rparr>"] exI [of _ ?ks])
        (simp add: cfg_ok_def, intro exI [of _ "draws ks"], simp)
  next
    case False
    have can: "can_add env (cfg\<lparr>NodeNumber := n - node_count (externalkubeclient ?ks), NodeNumber := n - node_count (externalkubeclient ?ks)\<rparr>) ?ks"
      using assms(1,3,5,6) count t(2,3)
      by (simp add: can_add_def cfg_ok_def names_free_def switch_list_def)
    have pl: "plan = switch_plan env (draws ?ks)
        (switch_list ?ks (cfg\<lparr>NodeNumber := n, NodeNumber := n - node_count (externalkubeclient ?ks)\<rparr>))"
      using assms(5) count by (simp add: switch_list_def)
    have less: "node_count (externalkubeclient ?ks) < n" using False assms(3) count by simp
    obtain cfg' ks' d where r: "add_loop (Suc (Suc f)) env n [] (cfg\<lparr>NodeNumber := n\<rparr>, ?ks) =
        (Ok (record_access plan [], ListNodes env ks'), (cfg', ks'))"
      "node_count (externalkubeclient ks') = n"
      "nodes_added (externalkubeclient ?ks) (externalkubeclient ks') (plan_names plan) (planned plan)"
      "ks' = ?ks\<lparr>draws := d, externalkubeclient := externalkubeclient ks'\<rparr>" "cfg_ok cfg'"
      by (rule add_loop_fewer [OF less _ pl]) (use can in simp)
    have wf': "tracker_wf (externalkubeclient ks')" using r(3) by (simp add: nodes_added_def)
    have "planned plan nd" if "nd \<in> set (list_nodes Everything (externalkubeclient ks'))" for nd
    proof -
      have s: "objs (externalkubeclient ks') Nodes ([], node_Name nd) = Some (NodeObj nd)"
        using that in_list_nodes [OF wf'] by (simp add: node_key_def)
      then have "node_Name nd \<in> set (plan_names plan)"
        using nodes_added_old [OF r(3), of "[]" "node_Name nd"] t(3) by force
      from nodes_added_new [OF r(3) this] s show ?thesis by auto
    qed
    moreover have "objs (externalkubeclient ks') g = objs t g" if "g \<noteq> Nodes" for g
      using r(3) that by (simp add: nodes_added_def)
    moreover have "\<exists>d. ks' = ks\<lparr>draws := d, externalkubeclient := externalkubeclient ks'\<rparr>"
      using r(4) by auto
    ultimately show ?thesis using C r(1,2,5) False t(3) wf'
      by (intro exI [of _ "record_access plan []"] exI [of _ cfg'] exI [of _ ks']) simp
  qed
qed

text \<open>
  \<open>CreateFakeNode\<close> replaces the nodes of the cluster: whatever nodes there were, also those copied
  from the real cluster, afterwards there are exactly the requested number, all of them created by
  kubesim on the planned switches. The pods of kubesim are gone; other objects are untouched.
\<close>

lemma CreateFakeNode_exact:
  assumes "cfg_ok cfg" and "tracker_wf (externalkubeclient ks)" and "0 \<le> n" and "2 \<le> fuel"
    and "plan = switch_plan env (draws ks) (switch_list ks (cfg\<lparr>NodeNumber := n\<rparr>))"
    and "distinct (plan_names plan)"
  shows "\<exists>access cfg' ks'. CreateFakeNode fuel env n (cfg, ks) = (Ok access, (cfg', ks')) \<and>
    cfg_ok cfg' \<and> node_count (externalkubeclient ks') = n \<and>
    (\<forall>nd \<in> set (list_nodes Everything (externalkubeclient ks')). planned plan nd) \<and>
    objs (externalkubeclient ks') Pods =
      drop_matching kubesim_selector (objs (externalkubeclient ks) Pods) \<and>
    (\<forall>g. g \<noteq> Nodes \<longrightarrow> g \<noteq> Pods \<longrightarrow> objs (externalkubeclient ks') g = objs (externalkubeclient ks) g) \<and>
    access = (if n = 0 then [] else record_access plan [])"
  using CreateFakeNode_ok [OF assms] by blast

lemma example_plan:
  "switch_plan (example_env sched) 0 (switch_list (New ''addNode'' c) example_config) =
     [(''access0'', [''fake-1'', ''fake-2'', ''fake-3''])]"
proof -
  have "switch_list (New ''addNode'' c) example_config = [3]"
    by (simp add: switch_list_def buildNode_def example_config_def accessNum_def quot_def rem_def)
  then show ?thesis
    by (simp add: example_uuids eval_nat_numeral) (simp add: example_uuids flip: numeral_2_eq_2 numeral_3_eq_3)
qed

lemma CreateFakeNode_exact_example:
  "\<exists>cfg' ks'. CreateFakeNode 2 (example_env (\<lambda>_. NotYet)) 3 (example_config, New ''addNode'' (\<lambda>_. [])) =
      (Ok [(''access0'', [''fake-1'', ''fake-2'', ''fake-3''])], (cfg', ks')) \<and>
    node_count (externalkubeclient ks') = 3"
proof -
  have c: "example_config\<lparr>NodeNumber := 3\<rparr> = example_config" by (simp add: example_config_def)
  show ?thesis
    using CreateFakeNode_exact [OF example_config_ok, of "New ''addNode'' (\<lambda>_. [])" 3 2, OF _ _ _ refl,
        of "example_env (\<lambda>_. NotYet)"]
    by (auto simp: c example_plan plan_names_def record_access_def)
qed

text \<open>
  \<open>ListNodes\<close> counts consistently: the nodes of the list are all nodes of the cluster; every pod
  of kubesim is either running or not, and either bound or not; the count of a node name in
  \<open>NodePods\<close> is the number of kubesim's pods on it; and each node is known to the scheduler's cache
  or not.
\<close>

lemma ListNodes_counts:
  assumes "tracker_wf (externalkubeclient ks)"
  shows "let l = ListNodes env ks; ps = list_pods [] kubesim_selector (externalkubeclient ks) in
    nl_NodeNumber l = int (length (nl_NodeList l)) \<and>
    nl_NodeNumber l = int (card (dom (objs (externalkubeclient ks) Nodes))) \<and>
    nl_PodNumber l = int (length ps) \<and>
    nl_RunningPod l = int (length (filter (\<lambda>p. Phase (pod_Status p) = PodRunning) ps)) \<and>
    nl_RunningPod l + nl_NotRunningPod l = nl_PodNumber l \<and>
    nl_BindFailed l = int (length (filter (\<lambda>p. NodeName (pod_Spec p) = []) ps)) \<and>
    nl_BindFailed l + nl_BindSuccess l = nl_PodNumber l \<and>
    nl_NodeInfoNumber l + nl_NotNodeInfoNumber l = nl_NodeNumber l \<and>
    (\<forall>n. nl_NodePods l n =
       (let c = count_list (map (\<lambda>p. NodeName (pod_Spec p)) ps) n in if c = 0 then None else Some (int c)))"
proof -
  let ?t = "externalkubeclient ks"
  let ?ps = "list_pods [] kubesim_selector ?t"
  let ?f = "fold tally_pod ?ps tally_start"
  obtain a b c where abc: "fold (tally_node (e_cache env ?t)) (list_nodes Everything ?t) (0, 0, 0) = (a, b, c)"
    by (metis prod_cases3)
  then have bc: "b + c = node_count ?t"
    unfolding tally_nodes using sum_length_filter_compl [of "\<lambda>n. node_Name n \<in> dom (map_of (e_cache env ?t))"
        "list_nodes Everything ?t"] by (auto simp: node_count_def)
  have L: "nl_PodNumber (ListNodes env ks) = int (length ?ps)"
    "nl_RunningPod (ListNodes env ks) = runingPod ?f" "nl_NotRunningPod (ListNodes env ks) = notRununingPod ?f"
    "nl_BindFailed (ListNodes env ks) = bindfailed ?f" "nl_BindSuccess (ListNodes env ks) = bindsuccess ?f"
    "nl_NodeInfoNumber (ListNodes env ks) = b" "nl_NotNodeInfoNumber (ListNodes env ks) = c"
    "nl_NodePods (ListNodes env ks) = nodepod ?f"
    using abc by (simp_all add: ListNodes_def Let_def)
  have F: "runingPod ?f = int (length (filter (\<lambda>p. Phase (pod_Status p) = PodRunning) ?ps))"
    "notRununingPod ?f = int (length (filter (\<lambda>p. \<not> Phase (pod_Status p) = PodRunning) ?ps))"
    "bindfailed ?f = int (length (filter (\<lambda>p. NodeName (pod_Spec p) = []) ?ps))"
    "bindsuccess ?f = int (length (filter (\<lambda>p. \<not> NodeName (pod_Spec p) = []) ?ps))"
    "nodepod ?f n = (let c = count_list (map (\<lambda>p. NodeName (pod_Spec p)) ?ps) n
       in if c = 0 then None else Some (int c))" for n
    unfolding tally_pods_fields by (auto simp add: tally_start_def Let_def count_list_0_iff)
  show ?thesis
    unfolding Let_def L F using bc node_count_card [OF assms]
      sum_length_filter_compl [of "\<lambda>p. Phase (pod_Status p) = PodRunning" ?ps]
      sum_length_filter_compl [of "\<lambda>p. NodeName (pod_Spec p) = []" ?ps]
    by (simp add: Let_def) (simp add: node_count_def flip: of_nat_add)
qed

lemma ListNodes_counts_example:
  "let l = ListNodes (example_env (\<lambda>_. NotYet)) (New ''addNode'' (\<lambda>_. []))
   in nl_RunningPod l + nl_NotRunningPod l = nl_PodNumber l"
  using ListNodes_counts [of "New ''addNode'' (\<lambda>_. [])" "example_env (\<lambda>_. NotYet)"] by (simp add: Let_def)

text \<open>
  \<open>DeleteNodes\<close>, documented as deleting the simulator's nodes, deletes every node of the
  simulated cluster, those copied from the real cluster included. The pods labelled as kubesim's
  are deleted first; everything else is kept.
\<close>

lemma DeleteNodes_deletes_all:
  assumes "tracker_wf (externalkubeclient ks)"
  shows "\<exists>t. DeleteNodes ks = ks\<lparr>externalkubeclient := t\<rparr> \<and> tracker_wf t \<and> list_nodes Everything t = [] \<and>
    objs t Pods = drop_matching kubesim_selector (objs (externalkubeclient ks) Pods) \<and>
    (\<forall>g. g \<noteq> Nodes \<longrightarrow> g \<noteq> Pods \<longrightarrow> objs t g = objs (externalkubeclient ks) g)"
proof -
  obtain t where t: "DeleteNodes ks = ks\<lparr>externalkubeclient := t\<rparr>" "tracker_wf t"
    "objs t = (objs (externalkubeclient ks))
      (Pods := drop_matching kubesim_selector (objs (externalkubeclient ks) Pods), Nodes := Map.empty)"
    using DeleteNodes_result [OF assms] by blast
  then have "list_nodes Everything t = []"
    using node_count_card [OF t(2)] by (simp add: node_count_def)
  with t show ?thesis by (intro exI [of _ t]) simp
qed

lemma DeleteNodes_deletes_all_example:
  "\<exists>t. DeleteNodes (New ''addNode'' (\<lambda>_. [])) = New ''addNode'' t \<and> list_nodes Everything t = []"
  using DeleteNodes_deletes_all [of "New ''addNode'' (\<lambda>_. [])"]
  by (auto simp: New_def)

lemma AddNodes_nil_labels:
  assumes "NodeLabels cfg = None" and "node_count (externalkubeclient ks) < NodeNumber cfg"
  shows "\<exists>s. AddNodes (Suc fuel) env (cfg, ks) = (Panic NilMapWrite, s) \<and>
    externalkubeclient (snd s) = externalkubeclient ks"
proof -
  let ?cfg = "cfg\<lparr>NodeNumber := NodeNumber cfg - node_count (externalkubeclient ks)\<rparr>"
  have pos: "0 < NodeNumber ?cfg" using assms(2) by simp
  then have "switch_list ks ?cfg \<noteq> []"
    using switch_list_sizes [of ?cfg ks] by fastforce
  then obtain n ns where "switch_list ks ?cfg = n # ns" by (cases "switch_list ks ?cfg") auto
  then show ?thesis
    using assms by (simp add: AddNodes_def add_loop.simps addNodes_def Let_def)
qed

text \<open>
  A configuration without labels, which the JSON of a request may leave out, does not give an
  error: when nodes are missing, \<open>AddNodes\<close> panics on the nil map before it creates any.
\<close>

lemma AddNodes_nil_labels_panics:
  assumes "NodeLabels cfg = None" and "node_count (externalkubeclient ks) < NodeNumber cfg"
  shows "\<exists>s. AddNodes (Suc fuel) env (cfg, ks) = (Panic NilMapWrite, s) \<and>
    externalkubeclient (snd s) = externalkubeclient ks"
  using assms by (rule AddNodes_nil_labels)

lemma AddNodes_nil_labels_panics_example:
  "\<exists>s. AddNodes 2 (example_env (\<lambda>_. NotYet))
      (example_config\<lparr>NodeLabels := nil_map\<rparr>, New ''addNode'' (\<lambda>_. [])) = (Panic NilMapWrite, s)"
proof -
  have "NodeLabels (example_config\<lparr>NodeLabels := nil_map\<rparr>) = None" by (simp add: nil_map_def)
  moreover have "node_count (externalkubeclient (New ''addNode'' (\<lambda>_. []))) <
      NodeNumber (example_config\<lparr>NodeLabels := nil_map\<rparr>)"
    by (simp add: example_config_def)
  ultimately show ?thesis
    using AddNodes_nil_labels_panics [of "example_config\<lparr>NodeLabels := nil_map\<rparr>" "New ''addNode'' (\<lambda>_. [])"
        "Suc 0" "example_env (\<lambda>_. NotYet)"] unfolding numeral_2_eq_2 by blast
qed

end
