(* ===== verification/Probe_Clusters.thy ===== *)
theory Probe_Clusters
  imports Nodes
begin

text \<open>
  The nodes that the probes of one prediction make. \<open>BuildNode\<close> writes labels into the configuration it
  is given, and the prediction hands the same configuration to every probe, so the configuration
  drifts; this theory states what it keeps (\<open>derived_config\<close>), and that every node made from it is one of
  the job's nodes (\<open>node_like\<close>): with exactly the resources the job asked for, ready, and with the
  labels of the job's configuration but for the ones kubesim manages. \<open>probe_cluster\<close> is the
  cluster a probe sees: a number of such nodes and nothing else.
\<close>

section \<open>The nodes of a configuration\<close>

definition managed_labels :: "string list" where
  "managed_labels = [''kubernetes.io/arch'', ''kubernetes.io/hostname'', ''kubernetes.io/os'',
     ''node-role.kubernetes.io/node'', ''provisioner'', ''accessSwitch'']"

definition node_resources :: "node_capacity \<Rightarrow> resource_list" where
  "node_resources c =
     [(''cpu'', sint (CPU c) * 10 ^ 6),
      (''memory'', sint (Memory c * 2 ^ 20) * 10 ^ 9),
      (''ephemeral-storage'', sint (Storage c * 2 ^ 30) * 10 ^ 9),
      (''pods'', 100 * 10 ^ 9),
      (''nvidia.com/gpu'', sint (GPUNumber c) * 10 ^ 9)]"

definition derived_config :: "node_config \<Rightarrow> node_config \<Rightarrow> bool" where
  "derived_config cfg cfg' \<longleftrightarrow> cfg_ok cfg' \<and> NodeCapacity cfg' = NodeCapacity cfg \<and>
     (\<forall>l. l \<notin> set managed_labels \<longrightarrow> gm_get (NodeLabels cfg') l = gm_get (NodeLabels cfg) l)"

definition node_like :: "node_config \<Rightarrow> node \<Rightarrow> bool" where
  "node_like cfg nd \<longleftrightarrow> take 5 (node_Name nd) = ''fake-'' \<and>
     Some (node_Capacity nd) = map_option node_resources (NodeCapacity cfg) \<and>
     node_Allocatable nd = node_Capacity nd \<and>
     (\<exists>c \<in> set (node_Conditions nd). nc_Type c = ''Ready'' \<and> nc_Status c = ''True'') \<and>
     gm_get (node_Labels nd) ''provisioner'' = Some ''kubesim'' \<and>
     gm_get (node_Labels nd) ''kubernetes.io/hostname'' = Some (node_Name nd) \<and>
     (\<forall>l. l \<notin> set managed_labels \<longrightarrow> gm_get (node_Labels nd) l = gm_get (NodeLabels cfg) l)"

definition nodes_like :: "node_config \<Rightarrow> tracker \<Rightarrow> bool" where
  "nodes_like cfg t \<longleftrightarrow> (\<forall>k nd. objs t Nodes k = Some (NodeObj nd) \<longrightarrow> node_like cfg nd)"

lemma derived_refl: "cfg_ok cfg \<Longrightarrow> derived_config cfg cfg"
  by (simp add: derived_config_def)

lemma derived_count [simp]: "derived_config cfg (cfg'\<lparr>NodeNumber := n\<rparr>) = derived_config cfg cfg'"
  by (simp add: derived_config_def cfg_ok_def)

lemma derived_base [simp]: "derived_config (cfg\<lparr>NodeNumber := n\<rparr>) cfg' = derived_config cfg cfg'"
  by (simp add: derived_config_def)

lemma node_like_count [simp]: "node_like (cfg\<lparr>NodeNumber := n\<rparr>) nd = node_like cfg nd"
  by (simp add: node_like_def)

section \<open>Every operation that makes nodes makes these\<close>

lemma build_resources:
  assumes "NodeCapacity c = Some k"
  shows "buildNodeCapacity c = Ok (node_resources k)" and "buildNodeAllocatable c = Ok (node_resources k)"
proof -
  have "w * 1024 * 1024 = w * 2 ^ 20" "w * 1024 * 1024 * 1024 = w * 2 ^ 30" for w :: "64 word"
    by (simp_all add: mult.assoc)
  then show "buildNodeCapacity c = Ok (node_resources k)" "buildNodeAllocatable c = Ok (node_resources k)"
    using assms
    by (simp_all add: buildNodeCapacity_def buildNodeAllocatable_def node_resources_def NewMilliQuantity_def
        NewQuantity_def nodeGPU_def mult.commute)
qed

lemma node_labels_kept: "l \<notin> set managed_labels \<Longrightarrow> node_labels nm ls l = ls l"
  by (simp add: node_labels_def managed_labels_def)

lemma BuildNode_like:
  assumes "derived_config cfg c" and "BuildNode c (''fake-'' @ u) = (r, c')"
  shows "derived_config cfg c'" and "r = Ok nd \<Longrightarrow> node_like cfg nd"
proof -
  obtain ls k where k: "NodeLabels c = Some ls" "NodeCapacity c = Some k"
    using assms(1) by (auto simp: derived_config_def cfg_ok_def)
  have kc: "NodeCapacity cfg = Some k" using assms(1) k by (simp add: derived_config_def)
  have b: "r = Ok \<lparr>node_Name = ''fake-'' @ u, node_Labels = Some (node_labels (''fake-'' @ u) ls),
      node_Capacity = node_resources k, node_Allocatable = node_resources k, node_Info = Some buildNodeSystemInfo,
      node_Conditions = buildNodeCondition,
      node_Addresses = [(''ExternalIP'', ''127.0.0.1''), (''InternalIP'', ''127.0.0.1'')]\<rparr>"
    "c' = c\<lparr>NodeLabels := Some (node_labels (''fake-'' @ u) ls)\<rparr>"
    using assms(2) k
    by (simp_all add: BuildNode_def build_resources Let_def)
  show "derived_config cfg c'"
    using assms(1) k kc by (auto simp: derived_config_def b(2) cfg_ok_def node_labels_kept)
  show "node_like cfg nd" if "r = Ok nd"
  proof -
    have ls': "l \<notin> set managed_labels \<Longrightarrow> node_labels (''fake-'' @ u) ls l = gm_get (NodeLabels cfg) l" for l
      using assms(1) k by (simp add: derived_config_def node_labels_kept)
    have "nd = \<lparr>node_Name = ''fake-'' @ u, node_Labels = Some (node_labels (''fake-'' @ u) ls),
      node_Capacity = node_resources k, node_Allocatable = node_resources k, node_Info = Some buildNodeSystemInfo,
      node_Conditions = buildNodeCondition,
      node_Addresses = [(''ExternalIP'', ''127.0.0.1''), (''InternalIP'', ''127.0.0.1'')]\<rparr>"
      using that b(1) by simp
    then show ?thesis
      using ls' kc by (simp add: node_like_def buildNodeCondition_def ConditionTrue_def) (simp add: node_labels_def)
  qed
qed

lemma nodes_like_create:
  assumes "nodes_like cfg t" and "node_like cfg nd" and "create_obj Nodes (NodeObj nd) t = Inr t'"
  shows "nodes_like cfg t'"
  using assms by (auto simp: nodes_like_def create_obj_eq objs_update split: option.splits if_splits)

lemma nodes_like_delete:
  "nodes_like cfg t \<Longrightarrow> nodes_like cfg (delete_logged (delete_key Nodes) ks t)"
proof (induction ks arbitrary: t)
  case (Cons k ks)
  have "nodes_like cfg t'" if "delete_key Nodes k t = Inr t'" for t'
    using that Cons.prems by (auto simp: nodes_like_def delete_key_eq objs_delete split: option.splits if_splits)
  then show ?case using Cons by (simp split: sum.split)
qed simp

lemma add_on_switch_like:
  "add_on_switch env n acc (c, ks) = (r, (c', ks')) \<Longrightarrow> derived_config cfg c \<Longrightarrow> nodes_like cfg (externalkubeclient ks) \<Longrightarrow>
   derived_config cfg c' \<and> nodes_like cfg (externalkubeclient ks')"
proof (induction n arbitrary: acc c ks)
  case (Suc n)
  let ?nm = "''fake-'' @ e_uuid env (draws ks)" and ?ks = "ks\<lparr>draws := Suc (draws ks)\<rparr>"
  obtain r1 c1 where b: "BuildNode c ?nm = (r1, c1)" by fastforce
  note d = BuildNode_like [OF Suc.prems(2) b]
  show ?case
  proof (cases r1)
    case (Ok v)
    show ?thesis
    proof (cases "create_obj Nodes (NodeObj v) (externalkubeclient ?ks)")
      case (Inl e)
      then show ?thesis using Suc.prems b Ok d(1) by (auto simp: Let_def)
    next
      case (Inr t)
      then have "add_on_switch env n (acc @ [?nm]) (c1, ?ks\<lparr>externalkubeclient := t\<rparr>) = (r, (c', ks'))"
        using Suc.prems(1) b Ok by (simp add: Let_def)
      moreover have "nodes_like cfg (externalkubeclient (?ks\<lparr>externalkubeclient := t\<rparr>))"
        using nodes_like_create [OF _ d(2) [OF Ok] Inr] Suc.prems(3) by simp
      ultimately show ?thesis using Suc.IH d(1) by blast
    qed
  qed (use Suc.prems b d(1) in \<open>auto simp: Let_def\<close>)
qed simp

lemma add_switches_like:
  "add_switches env ns access (c, ks) = (r, (c', ks')) \<Longrightarrow> derived_config cfg c \<Longrightarrow> nodes_like cfg (externalkubeclient ks) \<Longrightarrow>
   derived_config cfg c' \<and> nodes_like cfg (externalkubeclient ks')"
proof (induction ns arbitrary: access c ks)
  case (Cons n ns)
  let ?sw = "''access'' @ take 7 (e_uuid env (draws ks))" and ?ks = "ks\<lparr>draws := Suc (draws ks)\<rparr>"
  obtain ls where ls: "NodeLabels c = Some ls" using Cons.prems(2) by (auto simp: derived_config_def cfg_ok_def)
  let ?c = "c\<lparr>NodeLabels := Some (ls(''accessSwitch'' \<mapsto> ?sw))\<rparr>"
  obtain r1 c1 ks1 where a: "add_on_switch env (nat n) [] (?c, ?ks) = (r1, (c1, ks1))" by (metis prod.exhaust)
  have "derived_config cfg ?c"
    using Cons.prems(2) ls by (auto simp: derived_config_def cfg_ok_def) (auto simp: managed_labels_def)
  then have d: "derived_config cfg c1 \<and> nodes_like cfg (externalkubeclient ks1)"
    using add_on_switch_like [OF a] Cons.prems(3) by simp
  show ?case
  proof (cases r1)
    case (Ok l)
    then have "add_switches env ns (AList.update ?sw l access) (c1, ks1) = (r, (c', ks'))"
      using Cons.prems(1) ls a by (simp add: Let_def)
    then show ?thesis using Cons.IH d by blast
  qed (use Cons.prems(1) ls a d in \<open>auto simp: Let_def\<close>)
qed simp

lemma add_loop_like:
  "add_loop fuel env m access (c, ks) = (r, (c', ks')) \<Longrightarrow> derived_config cfg c \<Longrightarrow> nodes_like cfg (externalkubeclient ks) \<Longrightarrow>
   derived_config cfg c' \<and> nodes_like cfg (externalkubeclient ks')"
proof (induction fuel arbitrary: access c ks)
  case 0
  then show ?case by (simp add: add_loop.simps)
next
  case (Suc fuel)
  let ?n = "nl_NodeNumber (ListNodes env ks)"
  obtain r1 c1 ks1 where a: "addNodes env (c\<lparr>NodeNumber := m - ?n\<rparr>, ks) = (r1, (c1, ks1))" by (metis prod.exhaust)
  have d: "derived_config cfg c1 \<and> nodes_like cfg (externalkubeclient ks1)"
    using add_switches_like [of env _ "[]"] a Suc.prems(2,3) unfolding addNodes_def by simp
  note run = Suc.prems(1) [unfolded add_loop.simps Let_def a prod.case]
  consider "?n < m" | "m < ?n" | "?n = m" by linarith
  then show ?case
  proof cases
    case 1
    then show ?thesis
    proof (cases r1)
      case (Ok access')
      then have "add_loop fuel env m access' (c1, ks1) = (r, (c', ks'))" using run 1 by simp
      then show ?thesis using Suc.IH d by blast
    qed (use run d in auto)
  next
    case 2
    show ?thesis
    proof (cases "e_cap env (length (nl_NodeList (ListNodes env ks))) < nat (?n - m) \<and>
        length (nl_NodeList (ListNodes env ks)) < nat (?n - m)")
      case True
      then show ?thesis using run 2 Suc.prems(2,3) by simp
    next
      case False
      have n: "\<not> ?n < m" using 2 by simp
      note run' = run [unfolded if_not_P [OF n] if_P [OF 2] if_not_P [OF False]]
      from Suc.IH [OF run' Suc.prems(2)] show ?thesis using nodes_like_delete [OF Suc.prems(3)] by simp
    qed
  next
    case 3
    then show ?thesis using run Suc.prems(2,3) by simp
  qed
qed

lemma AddNodes_like:
  assumes "AddNodes fuel env (c, ks) = (r, (c', ks'))" and "derived_config cfg c" and "nodes_like cfg (externalkubeclient ks)"
  shows "derived_config cfg c' \<and> nodes_like cfg (externalkubeclient ks')"
  using assms add_loop_like unfolding AddNodes_def by simp

text \<open>A probe deletes whatever nodes there were before, so all nodes are the job's.\<close>

lemma CreateFakeNode_like:
  assumes "CreateFakeNode fuel env n (c, ks) = (r, (c', ks'))" and "derived_config cfg c"
    and "tracker_wf (externalkubeclient ks)"
  shows "derived_config cfg c' \<and> nodes_like cfg (externalkubeclient ks')"
proof -
  obtain t where t: "DeleteNodes ks = ks\<lparr>externalkubeclient := t\<rparr>" "objs t = (objs (externalkubeclient ks))
      (Pods := drop_matching kubesim_selector (objs (externalkubeclient ks) Pods), Nodes := Map.empty)"
    by (rule DeleteNodes_result [OF assms(3)])
  have none: "nodes_like cfg (externalkubeclient (DeleteNodes ks))" by (simp add: nodes_like_def t)
  obtain r1 c1 ks1 where a: "AddNodes fuel env (c\<lparr>NodeNumber := n\<rparr>, DeleteNodes ks) = (r1, (c1, ks1))"
    by (metis prod.exhaust)
  have "(c', ks') = (c1, ks1)"
    using assms(1) by (cases r1) (auto simp: CreateFakeNode_def a split: prod.splits)
  then show ?thesis using AddNodes_like [OF a] assms(2) none by simp
qed

section \<open>The cluster of a probe\<close>

text \<open>
  The cluster a probe on \<open>n\<close> nodes for the configuration \<open>cfg\<close> schedules on: exactly \<open>n\<close> nodes, all of them
  the job's, the pods \<open>base\<close> and the other objects of \<open>base\<close>; nothing is recorded in the status yet.
\<close>

definition probe_cluster :: "(gvr \<Rightarrow> key \<rightharpoonup> kobj) \<Rightarrow> node_config \<Rightarrow> int \<Rightarrow> kubesim \<Rightarrow> bool" where
  "probe_cluster base cfg n ks \<longleftrightarrow> tracker_wf (externalkubeclient ks) \<and> st_Pods (status ks) = [] \<and>
     (\<forall>g. g \<noteq> Nodes \<longrightarrow> objs (externalkubeclient ks) g = base g) \<and>
     int (card (dom (objs (externalkubeclient ks) Nodes))) = n \<and> nodes_like cfg (externalkubeclient ks)"


text \<open>
  An access map that is true of a cluster: every node name it lists under a switch is a node of the
  cluster with the label of that switch. Switch names are seven characters of a UUID; when two of them
  collide the later one wins, so a node may be missing from the map, but what is in it is true.
\<close>

definition access_true :: "access_map \<Rightarrow> tracker \<Rightarrow> bool" where
  "access_true access t \<longleftrightarrow> (\<forall>(sw, l) \<in> set access. \<forall>nm \<in> set l.
     \<exists>nd. objs t Nodes ([], nm) = Some (NodeObj nd) \<and> gm_get (node_Labels nd) ''accessSwitch'' = Some sw)"

lemma record_access_subset: "set (record_access plan access) \<subseteq> set plan \<union> set access"
proof (induction plan arbitrary: access)
  case (Cons x plan)
  obtain sw l where x: "x = (sw, l)" by fastforce
  have "set (AList.update sw l access) \<subseteq> insert (sw, l) (set access)"
    by (induction access) auto
  then show ?case using Cons.IH [of "AList.update sw l access"] by (auto simp: record_access_def x)
qed (simp add: record_access_def)

lemma plan_entry_unique:
  "distinct (plan_names plan) \<Longrightarrow> (sw, l) \<in> set plan \<Longrightarrow> (sw', l') \<in> set plan \<Longrightarrow> nm \<in> set l \<Longrightarrow> nm \<in> set l' \<Longrightarrow> sw = sw'"
proof (induction plan)
  case (Cons x plan)
  then show ?case by (auto simp: plan_names_def) fastforce+
qed simp

lemma CreateFakeNode_access:
  assumes "cfg_ok c" and wf: "tracker_wf (externalkubeclient ks)" and n: "0 \<le> n" and fuel: "2 \<le> fuel"
    and plan: "plan = switch_plan env (draws ks) (switch_list ks (c\<lparr>NodeNumber := n\<rparr>))"
    and d: "distinct (plan_names plan)"
    and r: "CreateFakeNode fuel env n (c, ks) = (Ok access, (c', ks'))"
  shows "access_true access (externalkubeclient ks')"
proof (cases "n = 0")
  case True
  then have "access = []" using CreateFakeNode_ok [OF assms(1) wf n fuel plan d] r by auto
  then show ?thesis by (simp add: access_true_def)
next
  case False
  have k: "node_count (externalkubeclient ks') = n" "tracker_wf (externalkubeclient ks')"
    "\<forall>nd \<in> set (list_nodes Everything (externalkubeclient ks')). planned plan nd" "access = record_access plan []"
    using CreateFakeNode_ok [OF assms(1) wf n fuel plan d] r False by auto
  let ?L = "list_nodes Everything (externalkubeclient ks')"
  have "int (length (plan_names plan)) = n"
    using length_plan_names [of "switch_list ks (c\<lparr>NodeNumber := n\<rparr>)" env "draws ks"]
      switch_list_sizes [of "c\<lparr>NodeNumber := n\<rparr>" ks] n by (auto simp: plan)
  moreover have "int (length ?L) = n" using k(1) by (simp add: node_count_def)
  moreover have "distinct (map node_Name ?L)"
    using distinct_list_nodes [OF k(2), of Everything] by (simp add: distinct_map node_key_def inj_on_def)
  ultimately have card: "card (set (plan_names plan)) = card (node_Name ` set ?L)"
    using distinct_card [OF d] distinct_card [of "map node_Name ?L"] by simp
  have sub: "node_Name ` set ?L \<subseteq> set (plan_names plan)"
  proof
    fix nm assume "nm \<in> node_Name ` set ?L"
    then obtain nd where nd: "nd \<in> set ?L" "nm = node_Name nd" by blast
    then obtain sw l where "(sw, l) \<in> set plan" "nm \<in> set l" using k(3) by (auto simp: planned_def)
    then show "nm \<in> set (plan_names plan)" unfolding plan_names_def by (force intro: bexI [of _ "(sw, l)"])
  qed
  have all: "set (plan_names plan) = node_Name ` set ?L"
    using card_subset_eq [OF _ sub] card by simp
  have "\<exists>nd. objs (externalkubeclient ks') Nodes ([], nm) = Some (NodeObj nd) \<and>
      gm_get (node_Labels nd) ''accessSwitch'' = Some sw" if e: "(sw, l) \<in> set access" and m: "nm \<in> set l" for sw l nm
  proof -
    have p: "(sw, l) \<in> set plan" using e k(4) record_access_subset [of plan "[]"] by auto
    then have "nm \<in> set (plan_names plan)" using m unfolding plan_names_def by (force intro: bexI [of _ "(sw, l)"])
    then obtain nd where nd: "nd \<in> set ?L" "node_Name nd = nm" unfolding all by auto
    then obtain sw' l' where s: "(sw', l') \<in> set plan" "nm \<in> set l'" "on_switch sw' nd"
      using k(3) by (auto simp: planned_def)
    have "sw' = sw" by (rule plan_entry_unique [OF d s(1) p s(2) m])
    then show ?thesis using s(3) nd in_list_nodes [OF k(2), of nd Everything] by (auto simp: on_switch_def node_key_def)
  qed
  then show ?thesis unfolding access_true_def by blast
qed

end
