(* ===== verification/Prediction.thy ===== *)
theory Prediction
  imports Node_Search Capacity Probe_Clusters
begin

text \<open>
  The job of kind Prediction in \<open>simulator.go\<close>: \<open>CreateApps\<close>, \<open>SavePrediction\<close> and \<open>PredictionEmulator\<close>,
  and the emulator of the deprecated prediction route in \<open>scheduler_emulator.go\<close>.

  \<open>prediction_loop\<close> is the search of the theory \<open>Node_Search\<close> with each probe carried out: the nodes
  are replaced (\<open>CreateFakeNode\<close>), the applications are scheduled (\<open>CreateApps\<close>), and the reports and
  the access map of the last probe that scheduled everything are kept as backup. Its first
  argument bounds the probes, the second the decisions of one request and the rounds of \<open>AddNodes\<close>.
  \<open>linear_prediction\<close> is a reference that probes every number of nodes; the two agree.

  What the scheduler does is a parameter. The hypotheses about it (\<open>fits_from\<close>, \<open>never_fits\<close>) speak only of
  the clusters the job's own probes can meet: nodes of the job's configuration and the pods that are
  there anyway. The examples discharge them for a scheduler that counts resources.
\<close>

section \<open>One probe\<close>

definition no_prediction :: scheduler_prediction where
  "no_prediction = \<lparr>SuccessAppsName = [], SuccessAppsCount = 0, FailedAppsCount = 0,
     FirstAppfailedReason = [], PredictionGo = True, ReportList = Some []\<rparr>"

definition add_report :: "review \<Rightarrow> scheduler_prediction \<Rightarrow> scheduler_prediction" where
  "add_report rv sp = sp\<lparr>ReportList := map_option (\<lambda>l. l @ [rv]) (ReportList sp)\<rparr>"

fun create_apps_loop ::
  "nat \<Rightarrow> env \<Rightarrow> pod_request list \<Rightarrow> scheduler_prediction \<Rightarrow> kubesim \<Rightarrow> (kubesim, scheduler_prediction) outcome"
where
  "create_apps_loop fuel env [] sp ks = (Ok sp, ks)"
| "create_apps_loop fuel env (app # apps) sp ks =
     seq (with_err (Wrap ''Unable to create next pod to schedule'')
            (SchedulerPod fuel env (UpdatePodRequest (pr_Pod app) (pr_Replicas app) ks)))
       (\<lambda>_ ks1. seq (Report env ks1)
          (\<lambda>report ks2. let ks3 = CleanStatusPods ks2; sp1 = add_report report sp in
             case rev_Reason (rev_Status report) of
               None \<Rightarrow> (Panic NilDereference, ks3)
             | Some reason \<Rightarrow>
                 if fr_Type reason = ''Unschedulable''
                 then (Ok (sp1\<lparr>FirstAppfailedReason := fr_Message reason, PredictionGo := False\<rparr>), ks3)
                 else (case pr_Pod app of
                     None \<Rightarrow> (Panic NilDereference, ks3)
                   | Some p \<Rightarrow> create_apps_loop fuel env apps
                       (sp1\<lparr>SuccessAppsName := SuccessAppsName sp1 @ [pod_Name p],
                            SuccessAppsCount := SuccessAppsCount sp1 + 1\<rparr>) ks3)) id) id"

definition CreateApps ::
  "nat \<Rightarrow> env \<Rightarrow> pod_request list \<Rightarrow> kubesim \<Rightarrow> (kubesim, scheduler_prediction) outcome" where
  "CreateApps fuel env apps ks =
     seq (create_apps_loop fuel env apps no_prediction ks)
       (\<lambda>sp ks1. (Ok (sp\<lparr>FailedAppsCount := word_of_nat (length apps) - SuccessAppsCount sp\<rparr>),
                  snd (CleanPod ks1))) id"

text \<open>The emulator of the deprecated route runs the same loop but keeps no reports.\<close>

definition DeprecatedPredictionEmulator ::
  "nat \<Rightarrow> env \<Rightarrow> pod_request list \<Rightarrow> kubesim \<Rightarrow> (kubesim, scheduler_prediction) outcome" where
  "DeprecatedPredictionEmulator fuel env requests ks =
     seq (create_apps_loop fuel env requests (no_prediction\<lparr>ReportList := None\<rparr>) ks)
       (\<lambda>sp ks1. (Ok (sp\<lparr>FailedAppsCount := word_of_nat (length requests) - SuccessAppsCount sp\<rparr>),
                  snd (CleanPod ks1))) id"

section \<open>The result\<close>

definition access_switches :: "env \<Rightarrow> access_map \<Rightarrow> access_switch list" where
  "access_switches env access =
     map (\<lambda>(name, value). \<lparr>as_Name = name, as_NodeNumber = word_of_nat (length value), as_NodeNameList = value\<rparr>)
       (e_order env access)"

definition SavePrediction ::
  "env \<Rightarrow> access_map \<Rightarrow> string \<Rightarrow> int \<Rightarrow> int \<Rightarrow> int \<Rightarrow> review list option \<Rightarrow> kubesim \<Rightarrow> kubesim" where
  "SavePrediction env access key mn mx pn reportList ks =
     ks\<lparr>predictionNode := (predictionNode ks)(key \<mapsto>
          \<lparr>MinNode = word_of_int mn, MaxNode = word_of_int mx, PredictionNode = word_of_int pn,
           StatusPredictionNode = word_of_int pn, Access = access_switches env access\<rparr>),
        emulatorResult := (emulatorResult ks)(key \<mapsto> reportList)\<rparr>"

section \<open>The search with its probes\<close>

text \<open>
  \<open>CreateApps\<close> returns nil with its error, which is dropped: the next read of the result is a nil
  dereference.
\<close>

fun or_nil :: "('s, 'a) outcome \<Rightarrow> ('s, 'a) outcome" where
  "or_nil (Err e, s) = (Panic NilDereference, s)"
| "or_nil (r, s) = (r, s)"

definition last_try ::
  "nat \<Rightarrow> env \<Rightarrow> app_group \<Rightarrow> string \<Rightarrow> review list option \<Rightarrow> access_map \<Rightarrow> kubesim \<Rightarrow>
   (kubesim, review list option) outcome" where
  "last_try fuel env g key backupEmulator backupPrediction ks =
     seq (or_nil (CreateApps fuel env (ag_Apps g) (DeleteNodes ks)))
       (\<lambda>sp ks1. if PredictionGo sp
          then (Ok (ReportList sp), SavePrediction env [] key 0 1 0 (ReportList sp) ks1)
          else (Ok backupEmulator, SavePrediction env backupPrediction key 0 1 1 backupEmulator ks1)) id"

fun prediction_loop ::
  "nat \<Rightarrow> nat \<Rightarrow> env \<Rightarrow> app_group \<Rightarrow> string \<Rightarrow> search \<Rightarrow> review list option \<Rightarrow> access_map \<Rightarrow>
   node_config \<times> kubesim \<Rightarrow> (kubesim, review list option) outcome"
where
  "prediction_loop 0 fuel env g key s backupEmulator backupPrediction (cfg, ks) = (Hang, ks)"
| "prediction_loop (Suc n) fuel env g key s backupEmulator backupPrediction (cfg, ks) =
     (case CreateFakeNode fuel env (predictionNodeCount s) (cfg, ks) of
        (Err e, (cfg1, ks1)) \<Rightarrow> (Err (Msg ''failed to create nodes''), ks1)
      | (Panic p, (cfg1, ks1)) \<Rightarrow> (Panic p, ks1)
      | (Hang, (cfg1, ks1)) \<Rightarrow> (Hang, ks1)
      | (Ok access, (cfg1, ks1)) \<Rightarrow>
          seq (or_nil (CreateApps fuel env (ag_Apps g) ks1))
            (\<lambda>sp ks2.
               let go = PredictionGo sp;
                   be = (if go then ReportList sp else backupEmulator);
                   bp = (if go then access else backupPrediction)
               in case search_next (search_update go s) of
                    Found s' \<Rightarrow>
                      (let ks3 = DeleteNodes ks2 in
                       if go
                       then (Ok (ReportList sp), SavePrediction env access key (minNode s') (maxNode s')
                               (predictionNodeCount s') (ReportList sp) ks3)
                       else (Ok be, SavePrediction env bp key (minNode s') (maxNode s')
                               (predictionNodeCount s') be ks3))
                  | AtZero s' \<Rightarrow> last_try fuel env g key be bp ks2
                  | Again s' \<Rightarrow> prediction_loop n fuel env g key s' be bp (cfg1, ks2)) id)"

text \<open>The configuration is the last one of the request, or the zero value when there is none.\<close>

definition last_config :: "node_config list \<Rightarrow> node_config" where
  "last_config nodes = (if nodes = [] then empty_node_config else last nodes)"

definition PredictionEmulator ::
  "nat \<Rightarrow> nat \<Rightarrow> env \<Rightarrow> app_group \<Rightarrow> string \<Rightarrow> kubesim \<Rightarrow> (kubesim, review list option) outcome" where
  "PredictionEmulator n fuel env appgroup key ks =
     (let nodeConfig = last_config (ag_Nodes appgroup) in
      prediction_loop n fuel env appgroup key (search_start (NodeNumber nodeConfig)) None [] (nodeConfig, ks))"

section \<open>What a saved prediction rests on\<close>

definition good_report :: "review \<Rightarrow> bool" where
  "good_report rv \<longleftrightarrow> rev_Reason (rev_Status rv) \<noteq> None \<and> \<not> unscheduled rv"

lemma create_apps_loop_go:
  assumes "create_apps_loop fuel env apps sp ks = (Ok sp', ks')" and "PredictionGo sp'"
    and "ReportList sp = Some acc"
  shows "\<exists>rvs. ReportList sp' = Some (acc @ rvs) \<and> length rvs = length apps \<and> (\<forall>rv \<in> set rvs. good_report rv)"
  using assms
proof (induction apps arbitrary: sp ks acc)
  case (Cons app apps)
  from Cons.prems(1) obtain ks0 rv ks2 where l: "(let ks3 = CleanStatusPods ks2; sp1 = add_report rv sp in
             case rev_Reason (rev_Status rv) of
               None \<Rightarrow> (Panic NilDereference, ks3)
             | Some reason \<Rightarrow>
                 if fr_Type reason = ''Unschedulable''
                 then (Ok (sp1\<lparr>FirstAppfailedReason := fr_Message reason, PredictionGo := False\<rparr>), ks3)
                 else (case pr_Pod app of
                     None \<Rightarrow> (Panic NilDereference, ks3)
                   | Some p \<Rightarrow> create_apps_loop fuel env apps
                       (sp1\<lparr>SuccessAppsName := SuccessAppsName sp1 @ [pod_Name p],
                            SuccessAppsCount := SuccessAppsCount sp1 + 1\<rparr>) ks3)) = (Ok sp', ks')"
    unfolding create_apps_loop.simps seq_Ok by blast
  obtain r where rv: "rev_Reason (rev_Status rv) = Some r"
    using l by (cases "rev_Reason (rev_Status rv)") (simp_all add: Let_def)
  have go: "fr_Type r \<noteq> ''Unschedulable''"
  proof
    assume "fr_Type r = ''Unschedulable''"
    then have "\<not> PredictionGo sp'" using l rv by (auto simp: Let_def)
    with Cons.prems(2) show False by simp
  qed
  obtain p where p: "pr_Pod app = Some p"
    using l rv go by (cases "pr_Pod app") (simp_all add: Let_def)
  have rest: "create_apps_loop fuel env apps ((add_report rv sp)\<lparr>SuccessAppsName := SuccessAppsName sp @ [pod_Name p],
      SuccessAppsCount := SuccessAppsCount sp + 1\<rparr>) (CleanStatusPods ks2) = (Ok sp', ks')"
    using l rv go p by (simp add: Let_def add_report_def)
  have "ReportList ((add_report rv sp)\<lparr>SuccessAppsName := SuccessAppsName sp @ [pod_Name p],
      SuccessAppsCount := SuccessAppsCount sp + 1\<rparr>) = Some (acc @ [rv])"
    using Cons.prems(3) by (simp add: add_report_def)
  from Cons.IH [OF rest Cons.prems(2) this] obtain rvs where
    "ReportList sp' = Some ((acc @ [rv]) @ rvs)" "length rvs = length apps" "\<forall>rv \<in> set rvs. good_report rv"
    by blast
  moreover have "good_report rv" using rv go by (simp add: good_report_def unscheduled_def)
  ultimately show ?case by (intro exI [of _ "rv # rvs"]) simp
qed simp

section \<open>The search ends\<close>

lemma or_nil_Ok [simp]: "or_nil m = (Ok x, s) \<longleftrightarrow> m = (Ok x, s)"
proof -
  obtain r s0 where "m = (r, s0)" by fastforce
  then show ?thesis by (cases r) auto
qed

lemma seq_Ok_I: "m = (Ok y, s1) \<Longrightarrow> seq m f k = f y s1"
  by simp

lemma create_apps_one:
  assumes "run_apps fuel env [app] [] ks = (Ok [rv], ks')" and "report_of env app rv"
  obtains sp1 where "create_apps_loop fuel env (app # apps) sp ks = (Ok sp1, ks')" and "\<not> PredictionGo sp1"
  | sp1 where "create_apps_loop fuel env (app # apps) sp ks = create_apps_loop fuel env apps sp1 ks'"
proof -
  from assms(1) obtain ks1 ks2 where r:
    "with_err (Wrap ''Unable to create next pod to schedule'')
       (SchedulerPod fuel env (UpdatePodRequest (pr_Pod app) (pr_Replicas app) ks)) = (Ok (), ks1)"
    "Report env ks1 = (Ok rv, ks2)" "ks' = CleanStatusPods ks2"
    unfolding run_apps.simps seq_Ok by auto
  from assms(2) obtain p reason where p: "pr_Pod app = Some p" "rev_Reason (rev_Status rv) = Some reason"
    by (auto simp: report_of_def)
  show thesis
  proof (cases "fr_Type reason = ''Unschedulable''")
    case True
    then show thesis
      using that(1) [of "(add_report rv sp)\<lparr>FirstAppfailedReason := fr_Message reason, PredictionGo := False\<rparr>"]
      unfolding create_apps_loop.simps seq_Ok_I [OF r(1)] seq_Ok_I [OF r(2)] by (simp add: p r(3) Let_def)
  next
    case False
    then show thesis
      using that(2) [of "(add_report rv sp)\<lparr>SuccessAppsName := SuccessAppsName (add_report rv sp) @ [pod_Name p],
        SuccessAppsCount := SuccessAppsCount (add_report rv sp) + 1\<rparr>"]
      unfolding create_apps_loop.simps seq_Ok_I [OF r(1)] seq_Ok_I [OF r(2)] by (simp add: p r(3) Let_def)
  qed
qed

text \<open>The loop ends, and leaves nothing but pods of kubesim.\<close>

definition only_added :: "kubesim \<Rightarrow> kubesim \<Rightarrow> bool" where
  "only_added ks ks' \<longleftrightarrow> tracker_wf (externalkubeclient ks') \<and> st_Pods (status ks') = [] \<and> same_books ks ks' \<and>
     (\<exists>added. objs (externalkubeclient ks') = (objs (externalkubeclient ks))
        (Pods := objs (externalkubeclient ks) Pods ++ added) \<and>
      dom added \<inter> dom (objs (externalkubeclient ks) Pods) = {} \<and> kubesim_pods added)"

lemma only_added_trans:
  assumes "only_added a b" and "only_added b c"
  shows "only_added a c"
proof -
  obtain x y where x: "objs (externalkubeclient b) = (objs (externalkubeclient a))(Pods := objs (externalkubeclient a) Pods ++ x)"
    "dom x \<inter> dom (objs (externalkubeclient a) Pods) = {}" "kubesim_pods x"
    and y: "objs (externalkubeclient c) = (objs (externalkubeclient b))(Pods := objs (externalkubeclient b) Pods ++ y)"
    "dom y \<inter> dom (objs (externalkubeclient b) Pods) = {}" "kubesim_pods y"
    using assms unfolding only_added_def by blast
  have "objs (externalkubeclient c) = (objs (externalkubeclient a))(Pods := objs (externalkubeclient a) Pods ++ (x ++ y))"
    using x(1) y(1) by simp
  moreover have "dom (x ++ y) \<inter> dom (objs (externalkubeclient a) Pods) = {}" using x(1,2) y(2) by auto
  moreover have "kubesim_pods (x ++ y)" using x(3) y(3) by (auto simp: kubesim_pods_def map_add_Some_iff)
  ultimately show ?thesis using assms same_books_trans unfolding only_added_def by blast
qed

lemma create_apps_loop_ok:
  assumes "requests_ok fuel env apps ks"
  shows "\<exists>sp' ks'. create_apps_loop fuel env apps sp ks = (Ok sp', ks') \<and> only_added ks ks'"
  using assms
proof (induction apps arbitrary: sp ks)
  case Nil
  have "objs (externalkubeclient ks) = (objs (externalkubeclient ks))
      (Pods := objs (externalkubeclient ks) Pods ++ Map.empty)" by simp
  then have "only_added ks ks"
    using Nil unfolding only_added_def by (intro conjI exI [of _ Map.empty]) (simp_all add: requests_ok_def kubesim_pods_def)
  then show ?case by simp
next
  case (Cons app apps)
  obtain bound rv ks1 where one:
    "\<And>apps acc. run_apps fuel env (app # apps) acc ks = run_apps fuel env apps (acc @ [rv]) ks1"
    "report_of env app rv" "requests_ok fuel env apps ks1" "same_books ks ks1"
    "objs (externalkubeclient ks1) = (objs (externalkubeclient ks))(Pods := objs (externalkubeclient ks) Pods ++ pods_map bound)"
    "dom (pods_map bound) \<inter> dom (objs (externalkubeclient ks) Pods) = {}" "kubesim_pods (pods_map bound)"
    by (rule requests_step [OF Cons.prems]) blast
  have step: "only_added ks ks1"
    using one(3-7) unfolding only_added_def requests_ok_def by blast
  have r: "run_apps fuel env [app] [] ks = (Ok [rv], ks1)" using one(1) [of "[]" "[]"] by simp
  show ?case
  proof (rule create_apps_one [OF r one(2), where apps = apps and sp = sp])
    fix sp1 assume "create_apps_loop fuel env (app # apps) sp ks = (Ok sp1, ks1)"
    then show ?thesis using step by blast
  next
    fix sp1 assume eq: "create_apps_loop fuel env (app # apps) sp ks = create_apps_loop fuel env apps sp1 ks1"
    from Cons.IH [OF one(3), of sp1] obtain sp' ks' where
      "create_apps_loop fuel env apps sp1 ks1 = (Ok sp', ks')" "only_added ks1 ks'" by blast
    then show ?thesis using eq only_added_trans [OF step] by auto
  qed
qed

text \<open>
  A cluster on which a prediction can run: its pods that are not kubesim's are \<open>base\<close>.
\<close>

definition ready :: "(gvr \<Rightarrow> key \<rightharpoonup> kobj) \<Rightarrow> kubesim \<Rightarrow> bool" where
  "ready base ks \<longleftrightarrow> tracker_wf (externalkubeclient ks) \<and> st_Pods (status ks) = [] \<and>
     drop_matching kubesim_selector (objs (externalkubeclient ks) Pods) = base Pods \<and>
     (\<forall>g. g \<noteq> Pods \<longrightarrow> g \<noteq> Nodes \<longrightarrow> objs (externalkubeclient ks) g = base g)"

lemma CreateApps_ok:
  assumes "requests_ok fuel env apps ks"
  obtains sp ks' where "CreateApps fuel env apps ks = (Ok sp, ks')"
    and "tracker_wf (externalkubeclient ks')" and "st_Pods (status ks') = []" and "same_books ks ks'"
    and "objs (externalkubeclient ks') = (objs (externalkubeclient ks))
      (Pods := drop_matching kubesim_selector (objs (externalkubeclient ks) Pods))"
proof -
  obtain sp ks1 where l: "create_apps_loop fuel env apps no_prediction ks = (Ok sp, ks1)" and a: "only_added ks ks1"
    using create_apps_loop_ok [OF assms] by blast
  from a obtain added where added: "objs (externalkubeclient ks1) = (objs (externalkubeclient ks))
        (Pods := objs (externalkubeclient ks) Pods ++ added)"
    "dom added \<inter> dom (objs (externalkubeclient ks) Pods) = {}" "kubesim_pods added"
    "tracker_wf (externalkubeclient ks1)" "st_Pods (status ks1) = []" "same_books ks ks1"
    unfolding only_added_def by blast
  obtain t where t: "CleanPod ks1 = (Ok (), ks1\<lparr>externalkubeclient := t\<rparr>)" "tracker_wf t"
    "objs t = (objs (externalkubeclient ks1))
      (Pods := drop_matching kubesim_selector (objs (externalkubeclient ks1) Pods))"
    by (rule CleanPod_result [OF added(4)])
  have "objs t = (objs (externalkubeclient ks))
      (Pods := drop_matching kubesim_selector (objs (externalkubeclient ks) Pods))"
    using t(3) added(1) drop_matching_added [OF added(2,3)] by simp
  moreover have "CreateApps fuel env apps ks =
      (Ok (sp\<lparr>FailedAppsCount := word_of_nat (length apps) - SuccessAppsCount sp\<rparr>), ks1\<lparr>externalkubeclient := t\<rparr>)"
    using l t(1) by (simp add: CreateApps_def)
  moreover have "same_books ks (ks1\<lparr>externalkubeclient := t\<rparr>)" using added(6) by (simp add: same_books_def)
  ultimately show thesis using that t(2) added(5) by simp
qed

text \<open>Names that are free at every probe, although the pods are cleaned away between the probes.\<close>

definition always_unique :: "env \<Rightarrow> pod_request list \<Rightarrow> (key \<rightharpoonup> kobj) \<Rightarrow> bool" where
  "always_unique env apps store \<longleftrightarrow> inj (e_uuid env) \<and>
     (\<forall>d. unique_draws env (request_pods apps) d (2 * total_replicas apps) store)"

definition prediction_ok :: "nat \<Rightarrow> env \<Rightarrow> pod_request list \<Rightarrow> (gvr \<Rightarrow> key \<rightharpoonup> kobj) \<Rightarrow> bool" where
  "prediction_ok fuel env apps base \<longleftrightarrow> answers env \<and> 2 \<le> fuel \<and>
     (\<forall>app \<in> set apps. valid_request fuel app) \<and> always_unique env apps (base Pods)"

lemma fake_names_draws: "set (fake_names env d n) = (\<lambda>i. ''fake-'' @ e_uuid env i) ` {d..<d + n}"
proof (induction n arbitrary: d)
  case (Suc n)
  have "{d..<d + Suc n} = insert d {Suc d..<Suc d + n}" by auto
  then show ?case using Suc by simp
qed simp

lemma plan_names_draws:
  "set (plan_names (switch_plan env d ns)) \<subseteq> (\<lambda>i. ''fake-'' @ e_uuid env i) ` {Suc d..}"
proof (induction ns arbitrary: d)
  case (Cons n ns)
  have "set (plan_names (switch_plan env (Suc d + nat n) ns)) \<subseteq> (\<lambda>i. ''fake-'' @ e_uuid env i) ` {Suc (Suc d + nat n)..}"
    by (rule Cons.IH)
  also have "\<dots> \<subseteq> (\<lambda>i. ''fake-'' @ e_uuid env i) ` {Suc d..}" by (rule image_mono) auto
  finally have "set (plan_names (switch_plan env (Suc d + nat n) ns)) \<subseteq> (\<lambda>i. ''fake-'' @ e_uuid env i) ` {Suc d..}" .
  moreover have "set (fake_names env (Suc d) (nat n)) \<subseteq> (\<lambda>i. ''fake-'' @ e_uuid env i) ` {Suc d..}"
    unfolding fake_names_draws by (rule image_mono) auto
  ultimately show ?case by (simp add: plan_names_def)
qed (simp add: plan_names_def)

lemma distinct_plan_names:
  assumes "inj (e_uuid env)"
  shows "distinct (plan_names (switch_plan env d ns))"
proof (induction ns arbitrary: d)
  case (Cons n ns)
  let ?f = "\<lambda>i. ''fake-'' @ e_uuid env i"
  have inj: "inj ?f" using assms by (auto simp: inj_def)
  have "distinct (fake_names env e k)" for e k
  proof (induction k arbitrary: e)
    case (Suc k)
    have "?f e \<notin> ?f ` {Suc e..<Suc e + k}" unfolding inj_image_mem_iff [OF inj] by simp
    with Suc show ?case by (simp only: fake_names.simps distinct.simps fake_names_draws simp_thms)
  qed simp
  moreover have "?f ` {Suc d..<Suc d + nat n} \<inter> ?f ` {Suc (Suc d + nat n)..} = {}"
    unfolding image_Int [OF inj, symmetric] by auto
  then have "set (fake_names env (Suc d) (nat n)) \<inter> set (plan_names (switch_plan env (Suc d + nat n) ns)) = {}"
    using plan_names_draws [of env "Suc d + nat n" ns] unfolding fake_names_draws by blast
  ultimately show ?case using Cons.IH [of "Suc d + nat n"] by (simp add: plan_names_def)
qed (simp add: plan_names_def)

lemma ready_base_clean: "ready base ks \<Longrightarrow> drop_matching kubesim_selector (base Pods) = base Pods"
  unfolding ready_def using drop_matching_idem by metis

text \<open>One probe, on new nodes and on none.\<close>

lemma probe_CreateApps:
  assumes ok: "prediction_ok fuel env apps base" and pc: "probe_cluster base cfg n ks"
    and clean: "drop_matching kubesim_selector (base Pods) = base Pods"
  obtains sp ks' where "CreateApps fuel env apps ks = (Ok sp, ks')" and "ready base ks'"
    and "objs (externalkubeclient ks') = objs (externalkubeclient ks)"
proof -
  have p: "tracker_wf (externalkubeclient ks)" "st_Pods (status ks) = []"
    "\<forall>g. g \<noteq> Nodes \<longrightarrow> objs (externalkubeclient ks) g = base g"
    using pc by (simp_all add: probe_cluster_def)
  then have "requests_ok fuel env apps ks"
    using ok by (simp add: requests_ok_def prediction_ok_def always_unique_def)
  then obtain sp ks' where c: "CreateApps fuel env apps ks = (Ok sp, ks')"
    "tracker_wf (externalkubeclient ks')" "st_Pods (status ks') = []" "same_books ks ks'"
    "objs (externalkubeclient ks') = (objs (externalkubeclient ks))
      (Pods := drop_matching kubesim_selector (objs (externalkubeclient ks) Pods))"
    by (rule CreateApps_ok)
  have o: "objs (externalkubeclient ks') = objs (externalkubeclient ks)"
    using c(5) p(3) clean by (intro ext) simp
  have "ready base ks'" using c(2,3) o p(3) clean by (simp add: ready_def)
  then show thesis using that c(1) o by blast
qed

lemma probe_nodes:
  assumes ok: "prediction_ok fuel env apps base" and rd: "ready base ks"
    and cfg: "derived_config cfg cur" and n: "0 \<le> n"
  obtains access cfg1 ks1 sp ks2 where "CreateFakeNode fuel env n (cur, ks) = (Ok access, (cfg1, ks1))"
    and "derived_config cfg cfg1" and "probe_cluster base cfg n ks1" and "access_true access (externalkubeclient ks1)"
    and "CreateApps fuel env apps ks1 = (Ok sp, ks2)" and "ready base ks2"
proof -
  let ?plan = "switch_plan env (draws ks) (switch_list ks (cur\<lparr>NodeNumber := n\<rparr>))"
  have d: "distinct (plan_names ?plan)"
    using ok by (intro distinct_plan_names) (simp add: prediction_ok_def always_unique_def)
  have wf: "tracker_wf (externalkubeclient ks)" and f: "2 \<le> fuel" and cur: "cfg_ok cur"
    using rd ok cfg by (simp_all add: ready_def prediction_ok_def derived_config_def)
  obtain access cfg1 ks1 where c: "CreateFakeNode fuel env n (cur, ks) = (Ok access, (cfg1, ks1))"
    "node_count (externalkubeclient ks1) = n" "tracker_wf (externalkubeclient ks1)"
    "\<exists>d. ks1 = ks\<lparr>draws := d, externalkubeclient := externalkubeclient ks1\<rparr>"
    "objs (externalkubeclient ks1) Pods = drop_matching kubesim_selector (objs (externalkubeclient ks) Pods)"
    "\<forall>g. g \<noteq> Nodes \<longrightarrow> g \<noteq> Pods \<longrightarrow> objs (externalkubeclient ks1) g = objs (externalkubeclient ks) g"
    using CreateFakeNode_ok [OF cur wf n f refl d] by blast
  obtain e where e: "ks1 = ks\<lparr>draws := e, externalkubeclient := externalkubeclient ks1\<rparr>" using c(4) ..
  have "status ks1 = status ks" by (subst e) simp
  then have s: "st_Pods (status ks1) = []" using rd by (simp add: ready_def)
  have o: "objs (externalkubeclient ks1) g = base g" if "g \<noteq> Nodes" for g
    using that c(5,6) rd by (cases "g = Pods") (simp_all add: ready_def)
  note like = CreateFakeNode_like [OF c(1) cfg wf]
  have pc: "probe_cluster base cfg n ks1"
    using c(2,3) s o like node_count_card [OF c(3)] by (simp add: probe_cluster_def)
  obtain sp ks2 where "CreateApps fuel env apps ks1 = (Ok sp, ks2)" "ready base ks2"
    by (rule probe_CreateApps [OF ok pc ready_base_clean [OF rd]])
  then show thesis
    using that [OF c(1) conjunct1 [OF like] pc CreateFakeNode_access [OF cur wf n f refl d c(1)]] by blast
qed

lemma probe_none:
  assumes ok: "prediction_ok fuel env apps base" and rd: "ready base ks"
  obtains sp ks2 where "probe_cluster base cfg 0 (DeleteNodes ks)" and "CreateApps fuel env apps (DeleteNodes ks) = (Ok sp, ks2)"
    and "ready base ks2" and "objs (externalkubeclient ks2) Nodes = Map.empty"
proof -
  have "tracker_wf (externalkubeclient ks)" using rd by (simp add: ready_def)
  then obtain t where t: "DeleteNodes ks = ks\<lparr>externalkubeclient := t\<rparr>" "tracker_wf t"
    "objs t = (objs (externalkubeclient ks))
      (Pods := drop_matching kubesim_selector (objs (externalkubeclient ks) Pods), Nodes := Map.empty)"
    by (rule DeleteNodes_result)
  have pc: "probe_cluster base cfg 0 (DeleteNodes ks)"
    using t rd by (simp add: probe_cluster_def ready_def nodes_like_def)
  obtain sp ks2 where "CreateApps fuel env apps (DeleteNodes ks) = (Ok sp, ks2)" "ready base ks2"
    "objs (externalkubeclient ks2) = objs (externalkubeclient (DeleteNodes ks))"
    by (rule probe_CreateApps [OF ok pc ready_base_clean [OF rd]])
  then show thesis using that pc t(1,3) by simp
qed

section \<open>The least sufficient number of nodes\<close>

text \<open>
  \<open>fits_from fuel env apps base cfg T\<close>: with the pods \<open>base\<close> in the cluster and nodes of the configuration
  \<open>cfg\<close>, the scheduler places all the applications exactly when there are at least \<open>T\<close> nodes.
  \<open>never_fits\<close>: it does so on no number of such nodes.
\<close>

definition fits_from ::
  "nat \<Rightarrow> env \<Rightarrow> pod_request list \<Rightarrow> (gvr \<Rightarrow> key \<rightharpoonup> kobj) \<Rightarrow> node_config \<Rightarrow> int \<Rightarrow> bool" where
  "fits_from fuel env apps base cfg T \<longleftrightarrow>
     (\<forall>n ks sp ks'. probe_cluster base cfg n ks \<and> CreateApps fuel env apps ks = (Ok sp, ks') \<longrightarrow>
        PredictionGo sp = (T \<le> n))"

definition never_fits ::
  "nat \<Rightarrow> env \<Rightarrow> pod_request list \<Rightarrow> (gvr \<Rightarrow> key \<rightharpoonup> kobj) \<Rightarrow> node_config \<Rightarrow> bool" where
  "never_fits fuel env apps base cfg \<longleftrightarrow>
     (\<forall>n ks sp ks'. probe_cluster base cfg n ks \<and> CreateApps fuel env apps ks = (Ok sp, ks') \<longrightarrow> \<not> PredictionGo sp)"

lemma fits_fromD: "fits_from fuel env apps base cfg T \<Longrightarrow> probe_cluster base cfg n ks \<Longrightarrow>
   CreateApps fuel env apps ks = (Ok sp, ks') \<Longrightarrow> PredictionGo sp = (T \<le> n)"
  unfolding fits_from_def by blast

lemma never_fitsD: "never_fits fuel env apps base cfg \<Longrightarrow> probe_cluster base cfg n ks \<Longrightarrow>
   CreateApps fuel env apps ks = (Ok sp, ks') \<Longrightarrow> PredictionGo sp = False"
  unfolding never_fits_def by blast

text \<open>
  The loop follows the search against the oracle \<open>T \<le> n\<close>. At its end no node is left in the cluster,
  and everything else is as it was, kubesim's pods apart.
\<close>

definition prediction_end :: "(gvr \<Rightarrow> key \<rightharpoonup> kobj) \<Rightarrow> string \<Rightarrow> int \<Rightarrow> kubesim \<Rightarrow> bool" where
  "prediction_end base key m ks \<longleftrightarrow> ready base ks \<and> objs (externalkubeclient ks) Nodes = Map.empty \<and>
     (\<exists>pr. predictionNode ks key = Some pr \<and> PredictionNode pr = word_of_int m)"

lemma prediction_end_save:
  assumes "ready base ks" and "objs (externalkubeclient ks) Nodes = Map.empty"
  shows "prediction_end base key m (SavePrediction env access key mn mx m r ks)"
  using assms by (simp add: prediction_end_def ready_def SavePrediction_def)

lemma ready_DeleteNodes:
  assumes "ready base ks"
  shows "ready base (DeleteNodes ks) \<and> objs (externalkubeclient (DeleteNodes ks)) Nodes = Map.empty"
proof -
  have "tracker_wf (externalkubeclient ks)" using assms by (simp add: ready_def)
  then obtain t where "DeleteNodes ks = ks\<lparr>externalkubeclient := t\<rparr>" "tracker_wf t"
    "objs t = (objs (externalkubeclient ks))
      (Pods := drop_matching kubesim_selector (objs (externalkubeclient ks) Pods), Nodes := Map.empty)"
    by (rule DeleteNodes_result)
  then show ?thesis using assms ready_base_clean [OF assms] by (simp add: ready_def)
qed

lemma prediction_loop_search:
  assumes ok: "prediction_ok fuel env (ag_Apps g) base" and th: "fits_from fuel env (ag_Apps g) base cfg T"
  shows "search_run n (\<lambda>m. T \<le> m) s = Some m \<Longrightarrow> search_nonneg s \<Longrightarrow> ready base ks \<Longrightarrow> derived_config cfg cur \<Longrightarrow>
    \<exists>r ks'. prediction_loop n fuel env g key s be bp (cur, ks) = (Ok r, ks') \<and> prediction_end base key m ks'"
proof (induction n arbitrary: s be bp cur ks)
  case (Suc n)
  have pos: "0 \<le> predictionNodeCount s" using Suc.prems(2) by (simp add: search_nonneg_def)
  obtain access cfg1 ks1 sp ks2 where c: "CreateFakeNode fuel env (predictionNodeCount s) (cur, ks) = (Ok access, (cfg1, ks1))"
    and cfg1: "derived_config cfg cfg1" and pc: "probe_cluster base cfg (predictionNodeCount s) ks1"
    and a: "CreateApps fuel env (ag_Apps g) ks1 = (Ok sp, ks2)" and rd: "ready base ks2"
    by (rule probe_nodes [OF ok Suc.prems(3,4) pos])
  note go = fits_fromD [OF th pc a]
  have a': "or_nil (CreateApps fuel env (ag_Apps g) ks1) = (Ok sp, ks2)" using a by simp
  define s1 where "s1 = search_update (T \<le> predictionNodeCount s) s"
  note loop = prediction_loop.simps(2) [of n fuel env g key s be bp cur ks, unfolded c prod.case res.case seq_Ok_I [OF a'] go Let_def,
      folded s1_def]
  show ?case
  proof (cases "search_next s1")
    case (Found s')
    then have m: "m = predictionNodeCount s'" using Suc.prems(1) by (simp add: s1_def)
    show ?thesis unfolding loop Found m
      using ready_DeleteNodes [OF rd] by (simp add: prediction_end_save)
  next
    case (AtZero s')
    then have m: "m = (if T \<le> 0 then 0 else 1)" using Suc.prems(1) by (simp add: s1_def)
    obtain sp' ks3 where l: "probe_cluster base cfg 0 (DeleteNodes ks2)" "CreateApps fuel env (ag_Apps g) (DeleteNodes ks2) = (Ok sp', ks3)"
      "ready base ks3" "objs (externalkubeclient ks3) Nodes = Map.empty"
      by (rule probe_none [OF ok rd])
    note go0 = fits_fromD [OF th l(1,2)]
    have l': "or_nil (CreateApps fuel env (ag_Apps g) (DeleteNodes ks2)) = (Ok sp', ks3)" using l(2) by simp
    show ?thesis unfolding loop AtZero search_end.case last_try_def seq_Ok_I [OF l'] go0 m
      using prediction_end_save [OF l(3,4)] by simp
  next
    case (Again s')
    then have run: "search_run n (\<lambda>m. T \<le> m) s' = Some m" using Suc.prems(1) by (simp add: s1_def)
    have "search_nonneg s'"
      using search_nonneg_next [OF search_nonneg_update [OF Suc.prems(2)]] Again unfolding s1_def by blast
    from Suc.IH [OF run this rd cfg1] show ?thesis unfolding loop Again search_end.case .
  qed
qed simp

lemma prediction_finds:
  assumes "prediction_ok fuel env (ag_Apps g) base" and "ready base ks"
    and "last_config (ag_Nodes g) = cfg" and "cfg_ok cfg" and "0 \<le> NodeNumber cfg" and "NodeNumber cfg \<le> 2 ^ 53"
    and "\<not> in_gap (NodeNumber cfg)" and "fits_from fuel env (ag_Apps g) base cfg T" and "0 \<le> T"
  shows "\<exists>n0. \<forall>n \<ge> n0. \<exists>r ks'. PredictionEmulator n fuel env g key ks = (Ok r, ks') \<and>
    prediction_end base key T ks'"
proof -
  obtain n0 where n0: "search_run n0 (\<lambda>m. T \<le> m) (search_start (NodeNumber cfg)) = Some T"
    using search_run_finds [OF search_start_inv [OF assms(5-7)] assms(9)] ..
  have "\<exists>r ks'. PredictionEmulator n fuel env g key ks = (Ok r, ks') \<and> prediction_end base key T ks'"
    if n: "n0 \<le> n" for n
    using prediction_loop_search [OF assms(1,8) search_run_more [OF n0 n] search_nonneg_start [OF assms(5)] assms(2) derived_refl [OF assms(4)]]
    unfolding PredictionEmulator_def Let_def assms(3) .
  then show ?thesis by blast
qed

text \<open>
  C7. When the applications fit exactly from \<open>T\<close> nodes of the job's configuration on, a job of kind Prediction
  ends and reports
  \<open>T\<close>, for every start value up to \<open>2 ^ 53\<close> outside the gap of \<open>generateMaxNode\<close>, also when \<open>T\<close> lies
  above its first upper bound or below the start value. It leaves a cluster without any node, the
  nodes copied from the real cluster included; the other objects are as before.
\<close>

theorem PredictionEmulator_finds_least:
  assumes "prediction_ok fuel env (ag_Apps g) base" and "ready base ks"
    and "last_config (ag_Nodes g) = cfg" and "cfg_ok cfg" and "0 \<le> NodeNumber cfg" and "NodeNumber cfg \<le> 2 ^ 53"
    and "\<not> in_gap (NodeNumber cfg)" and "fits_from fuel env (ag_Apps g) base cfg T" and "0 \<le> T"
  shows "\<exists>n0. \<forall>n \<ge> n0. \<exists>r ks'. PredictionEmulator n fuel env g key ks = (Ok r, ks') \<and>
    prediction_end base key T ks'"
  using assms by (rule prediction_finds)

section \<open>Searches that never end\<close>

lemma prediction_gap:
  assumes ok: "prediction_ok fuel env (ag_Apps g) base"
  shows "maxNode s \<le> minNode s \<Longrightarrow> 0 \<le> maxNode s \<Longrightarrow> predictionNodeCount s = (minNode s + maxNode s) div 2 \<Longrightarrow>
    ready base ks \<Longrightarrow> derived_config cfg cur \<Longrightarrow>
    fst (prediction_loop n fuel env g key s be bp (cur, ks)) = Hang"
proof (induction n arbitrary: s be bp cur ks)
  case (Suc n)
  have pos: "0 \<le> predictionNodeCount s" using Suc.prems(1-3) by simp
  obtain access cfg1 ks1 sp ks2 where c: "CreateFakeNode fuel env (predictionNodeCount s) (cur, ks) = (Ok access, (cfg1, ks1))"
    "derived_config cfg cfg1" "CreateApps fuel env (ag_Apps g) ks1 = (Ok sp, ks2)" "ready base ks2"
    by (rule probe_nodes [OF ok Suc.prems(4,5) pos])
  have a: "or_nil (CreateApps fuel env (ag_Apps g) ks1) = (Ok sp, ks2)" using c(3) by simp
  obtain s' where s': "search_next (search_update (PredictionGo sp) s) = Again s'"
    "maxNode s' \<le> minNode s'" "0 \<le> maxNode s'" "predictionNodeCount s' = (minNode s' + maxNode s') div 2"
    using gap_update [OF Suc.prems(1-3), of "PredictionGo sp"] by blast
  show ?case
    unfolding prediction_loop.simps c(1) prod.case res.case seq_Ok_I [OF a] Let_def s'(1) search_end.case
    by (rule Suc.IH [OF s'(2-4) c(4,2)])
qed simp

lemma prediction_never:
  assumes ok: "prediction_ok fuel env (ag_Apps g) base" and never: "never_fits fuel env (ag_Apps g) base cfg"
  shows "0 \<le> minNode s \<Longrightarrow> minNode s < maxNode s \<Longrightarrow> maxNode s = FmaxNode s \<Longrightarrow>
    predictionNodeCount s = (minNode s + maxNode s) div 2 \<Longrightarrow> ready base ks \<Longrightarrow> derived_config cfg cur \<Longrightarrow>
    fst (prediction_loop n fuel env g key s be bp (cur, ks)) = Hang"
proof (induction n arbitrary: s be bp cur ks)
  case (Suc n)
  have pos: "0 \<le> predictionNodeCount s" using Suc.prems(1-4) by simp
  obtain access cfg1 ks1 sp ks2 where c: "CreateFakeNode fuel env (predictionNodeCount s) (cur, ks) = (Ok access, (cfg1, ks1))"
    "derived_config cfg cfg1" "probe_cluster base cfg (predictionNodeCount s) ks1"
    "CreateApps fuel env (ag_Apps g) ks1 = (Ok sp, ks2)" "ready base ks2"
    by (rule probe_nodes [OF ok Suc.prems(5,6) pos])
  have a: "or_nil (CreateApps fuel env (ag_Apps g) ks1) = (Ok sp, ks2)" using c(4) by simp
  note go = never_fitsD [OF never c(3,4)]
  obtain s' where s': "search_next (search_update False s) = Again s'" "0 \<le> minNode s'"
    "minNode s' < maxNode s'" "maxNode s' = FmaxNode s'" "predictionNodeCount s' = (minNode s' + maxNode s') div 2"
    using never_update [OF Suc.prems(1-4)] by blast
  show ?case
    unfolding prediction_loop.simps c(1) prod.case res.case seq_Ok_I [OF a] Let_def go s'(1) search_end.case
    by (rule Suc.IH [OF s'(2-5) c(5,2)])
qed simp

lemma prediction_gap_start:
  assumes "prediction_ok fuel env (ag_Apps g) base" and "ready base ks"
    and "last_config (ag_Nodes g) = cfg" and "cfg_ok cfg" and "in_gap (NodeNumber cfg)"
  shows "fst (PredictionEmulator n fuel env g key ks) = Hang"
  unfolding PredictionEmulator_def Let_def assms(3) using assms(5)
  by (intro prediction_gap [OF assms(1) _ _ _ assms(2) derived_refl [OF assms(4)]])
    (simp_all add: search_start_def generateMaxNode_gap quot_nonneg in_gap_def)

lemma prediction_never_fits:
  assumes "prediction_ok fuel env (ag_Apps g) base" and "ready base ks"
    and "last_config (ag_Nodes g) = cfg" and "cfg_ok cfg" and "0 \<le> NodeNumber cfg" and "NodeNumber cfg \<le> 2 ^ 53"
    and "never_fits fuel env (ag_Apps g) base cfg"
  shows "fst (PredictionEmulator n fuel env g key ks) = Hang"
proof (cases "in_gap (NodeNumber cfg)")
  case True
  then show ?thesis by (rule prediction_gap_start [OF assms(1-4)])
next
  case False
  with assms(6) have "NodeNumber cfg + 2 \<le> generateMaxNode (NodeNumber cfg)" by (intro generateMaxNode_above)
  then show ?thesis unfolding PredictionEmulator_def Let_def assms(3) using assms(5)
    by (intro prediction_never [OF assms(1,7) _ _ _ _ assms(2) derived_refl [OF assms(4)]])
      (simp_all add: search_start_def quot_nonneg)
qed

text \<open>
  C34. Applications that fit on no number of nodes of the job's configuration, as when a pod requests more
  than such a node has, keep the search raising its upper bound for ever. The emulator does not return, nor
  does it fail or panic: every probe is carried out, and with every bound on the number of probes the
  model's answer is \<open>Hang\<close>.
\<close>

theorem PredictionEmulator_never_fitting:
  assumes "prediction_ok fuel env (ag_Apps g) base" and "ready base ks"
    and "last_config (ag_Nodes g) = cfg" and "cfg_ok cfg" and "0 \<le> NodeNumber cfg" and "NodeNumber cfg \<le> 2 ^ 53"
    and "never_fits fuel env (ag_Apps g) base cfg"
  shows "fst (PredictionEmulator n fuel env g key ks) = Hang"
  using assms by (rule prediction_never_fits)

text \<open>
  C33. For a start value between 3001 and 4000 \<open>generateMaxNode\<close> has no case and returns 0, and the
  search never ends: whatever a scheduler that always answers does, every probe is carried out, and with
  every bound on the number of probes the model's answer is \<open>Hang\<close>.
\<close>

theorem PredictionEmulator_gap:
  assumes "prediction_ok fuel env (ag_Apps g) base" and "ready base ks"
    and "last_config (ag_Nodes g) = cfg" and "cfg_ok cfg" and "in_gap (NodeNumber cfg)"
  shows "fst (PredictionEmulator n fuel env g key ks) = Hang"
  using assms by (rule prediction_gap_start)

section \<open>What a saved prediction rests on\<close>

text \<open>
  \<open>ran_on\<close>: on a cluster of exactly \<open>n\<close> nodes of the job's configuration, of which the access map is true, all
  applications were scheduled, with reports \<open>rvs\<close>. \<open>failed_on\<close>: on such a cluster some were not.
\<close>

definition scheduled_all :: "nat \<Rightarrow> env \<Rightarrow> pod_request list \<Rightarrow> kubesim \<Rightarrow> review list \<Rightarrow> bool" where
  "scheduled_all fuel env apps ks rvs \<longleftrightarrow>
     (\<exists>sp ks'. CreateApps fuel env apps ks = (Ok sp, ks') \<and> PredictionGo sp \<and> ReportList sp = Some rvs)"

definition ran_on ::
  "nat \<Rightarrow> env \<Rightarrow> pod_request list \<Rightarrow> (gvr \<Rightarrow> key \<rightharpoonup> kobj) \<Rightarrow> node_config \<Rightarrow> int \<Rightarrow> access_map \<Rightarrow> review list \<Rightarrow> bool" where
  "ran_on fuel env apps base cfg n access rvs \<longleftrightarrow>
     (\<exists>ks. probe_cluster base cfg n ks \<and> access_true access (externalkubeclient ks) \<and> scheduled_all fuel env apps ks rvs)"

definition failed_on ::
  "nat \<Rightarrow> env \<Rightarrow> pod_request list \<Rightarrow> (gvr \<Rightarrow> key \<rightharpoonup> kobj) \<Rightarrow> node_config \<Rightarrow> int \<Rightarrow> bool" where
  "failed_on fuel env apps base cfg n \<longleftrightarrow>
     (\<exists>ks sp ks'. probe_cluster base cfg n ks \<and> CreateApps fuel env apps ks = (Ok sp, ks') \<and> \<not> PredictionGo sp)"

lemma CreateApps_reports:
  assumes "CreateApps fuel env apps ks = (Ok sp, ks')" and "PredictionGo sp"
  obtains rvs where "ReportList sp = Some rvs" and "scheduled_all fuel env apps ks rvs"
    and "length rvs = length apps" and "\<forall>rv \<in> set rvs. good_report rv"
proof -
  obtain sp0 ks1 where l: "create_apps_loop fuel env apps no_prediction ks = (Ok sp0, ks1)"
    and sp: "sp = sp0\<lparr>FailedAppsCount := word_of_nat (length apps) - SuccessAppsCount sp0\<rparr>"
    using assms(1) by (auto simp: CreateApps_def seq_Ok)
  have "PredictionGo sp0" using assms(2) sp by simp
  moreover have "ReportList no_prediction = Some []" by (simp add: no_prediction_def)
  ultimately obtain rvs where r: "ReportList sp0 = Some ([] @ rvs)" "length rvs = length apps" "\<forall>rv \<in> set rvs. good_report rv"
    using create_apps_loop_go [OF l] by blast
  have "scheduled_all fuel env apps ks rvs" using assms r(1) sp by (auto simp: scheduled_all_def)
  then show thesis using that r sp by simp
qed

lemma ran_on_good:
  assumes "ran_on fuel env apps base cfg n access rvs"
  shows "length rvs = length apps \<and> (\<forall>rv \<in> set rvs. good_report rv)"
proof -
  obtain ks sp ks' where c: "CreateApps fuel env apps ks = (Ok sp, ks')" "PredictionGo sp" "ReportList sp = Some rvs"
    using assms unfolding ran_on_def scheduled_all_def by blast
  obtain rvs' where "ReportList sp = Some rvs'" "length rvs' = length apps" "\<forall>rv \<in> set rvs'. good_report rv"
    using CreateApps_reports [OF c(1,2)] by metis
  with c(3) show ?thesis by simp
qed

text \<open>What the search knows: its bounds, where it moved them, come from probes.\<close>

definition backed ::
  "nat \<Rightarrow> env \<Rightarrow> pod_request list \<Rightarrow> (gvr \<Rightarrow> key \<rightharpoonup> kobj) \<Rightarrow> node_config \<Rightarrow> search \<Rightarrow> review list option \<Rightarrow> access_map \<Rightarrow> bool" where
  "backed fuel env apps base cfg s be bp \<longleftrightarrow>
     (maxNode s \<noteq> FmaxNode s \<longrightarrow> (\<exists>rvs. be = Some rvs \<and> ran_on fuel env apps base cfg (maxNode s) bp rvs)) \<and>
     (minNode s \<noteq> FminNode s \<longrightarrow> failed_on fuel env apps base cfg (minNode s))"

lemma search_next_Found:
  "search_next s = Found s' \<Longrightarrow> maxNode s' = maxNode s \<and> minNode s' = minNode s \<and>
   predictionNodeCount s' = maxNode s \<and> maxNode s \<noteq> FmaxNode s \<and> minNode s \<noteq> FminNode s \<and> maxNode s - minNode s = 1"
  by (auto simp: search_next_def Let_def split: if_splits)

lemma search_next_AtZero:
  "search_next s = AtZero s' \<Longrightarrow> maxNode s \<noteq> FmaxNode s \<and> maxNode s - minNode s = 1 \<and>
   quot (maxNode s + minNode s) 2 = 0"
  by (auto simp: search_next_def Let_def split: if_splits)

lemma search_next_Again:
  "search_next s = Again s' \<Longrightarrow> (maxNode s' = FmaxNode s' \<or> maxNode s' = maxNode s \<and> FmaxNode s' = FmaxNode s) \<and>
   (minNode s' = FminNode s' \<or> minNode s' = minNode s \<and> FminNode s' = FminNode s)"
  by (auto simp: search_next_def Let_def split: if_splits)

text \<open>What the loop saves when it ends.\<close>

definition saved ::
  "nat \<Rightarrow> env \<Rightarrow> pod_request list \<Rightarrow> (gvr \<Rightarrow> key \<rightharpoonup> kobj) \<Rightarrow> node_config \<Rightarrow> string \<Rightarrow> kubesim \<Rightarrow> review list option \<Rightarrow> int \<Rightarrow> bool" where
  "saved fuel env apps base cfg key ks r m \<longleftrightarrow>
     (\<exists>rvs access pr. r = Some rvs \<and> emulatorResult ks key = Some (Some rvs) \<and> predictionNode ks key = Some pr \<and>
        PredictionNode pr = word_of_int m \<and> StatusPredictionNode pr = word_of_int m \<and>
        Access pr = access_switches env access \<and> (MaxNode pr - MinNode pr = 1) \<and>
        ran_on fuel env apps base cfg m access rvs \<and> (m = 0 \<or> failed_on fuel env apps base cfg (m - 1)))"

lemma SavePrediction_simps [simp]:
  "emulatorResult (SavePrediction env access key mn mx pn r ks) = (emulatorResult ks)(key \<mapsto> r)"
  "predictionNode (SavePrediction env access key mn mx pn r ks) = (predictionNode ks)(key \<mapsto>
     \<lparr>MinNode = word_of_int mn, MaxNode = word_of_int mx, PredictionNode = word_of_int pn,
      StatusPredictionNode = word_of_int pn, Access = access_switches env access\<rparr>)"
  by (simp_all add: SavePrediction_def)

lemma savedI:
  assumes "ran_on fuel env apps base cfg m access rvs" and "m = 0 \<or> failed_on fuel env apps base cfg (m - 1)"
    and "mx - mn = 1"
  shows "saved fuel env apps base cfg key (SavePrediction env access key mn mx m (Some rvs) ks) (Some rvs) m"
proof -
  have "(word_of_int mx :: 32 word) - word_of_int mn = word_of_int (mx - mn)" by simp
  then show ?thesis using assms by (auto simp: saved_def)
qed

text \<open>The state a prediction leaves: no node, and everything else as before, kubesim's pods apart.\<close>

definition left_empty :: "(gvr \<Rightarrow> key \<rightharpoonup> kobj) \<Rightarrow> kubesim \<Rightarrow> bool" where
  "left_empty base ks \<longleftrightarrow> ready base ks \<and> objs (externalkubeclient ks) Nodes = Map.empty"

lemma left_empty_Save [simp]: "left_empty base (SavePrediction env access key mn mx pn r ks) = left_empty base ks"
  by (simp add: left_empty_def ready_def SavePrediction_def)

lemma backed_probe:
  assumes b: "backed fuel env apps base cfg s be bp" and pc: "probe_cluster base cfg (predictionNodeCount s) ks"
    and ac: "access_true access (externalkubeclient ks)" and c: "CreateApps fuel env apps ks = (Ok sp, ks')"
  shows "backed fuel env apps base cfg (search_update (PredictionGo sp) s)
    (if PredictionGo sp then ReportList sp else be) (if PredictionGo sp then access else bp)"
proof (cases "PredictionGo sp")
  case True
  obtain rvs where "ReportList sp = Some rvs" "scheduled_all fuel env apps ks rvs" by (rule CreateApps_reports [OF c True])
  then have "\<exists>rvs. ReportList sp = Some rvs \<and> ran_on fuel env apps base cfg (predictionNodeCount s) access rvs"
    using pc ac unfolding ran_on_def by blast
  then show ?thesis using b True by (simp add: backed_def search_update_def Let_def)
next
  case False
  then have "failed_on fuel env apps base cfg (predictionNodeCount s)" using pc c unfolding failed_on_def by blast
  then show ?thesis using b False by (simp add: backed_def search_update_def Let_def)
qed

lemma last_try_saved:
  assumes ok: "prediction_ok fuel env (ag_Apps g) base" and rd: "ready base ks"
    and one: "ran_on fuel env (ag_Apps g) base cfg 1 bp rvs"
    and run: "last_try fuel env g key (Some rvs) bp ks = (Ok r, ks')"
  shows "\<exists>m. saved fuel env (ag_Apps g) base cfg key ks' r m \<and> left_empty base ks'"
proof -
  obtain sp ks1 where p: "probe_cluster base cfg 0 (DeleteNodes ks)" "CreateApps fuel env (ag_Apps g) (DeleteNodes ks) = (Ok sp, ks1)"
    "ready base ks1" "objs (externalkubeclient ks1) Nodes = Map.empty"
    by (rule probe_none [OF ok rd])
  have l: "left_empty base ks1" using p(3,4) by (simp add: left_empty_def)
  have a: "or_nil (CreateApps fuel env (ag_Apps g) (DeleteNodes ks)) = (Ok sp, ks1)" using p(2) by simp
  note run' = run [unfolded last_try_def seq_Ok_I [OF a]]
  show ?thesis
  proof (cases "PredictionGo sp")
    case True
    obtain rvs' where v: "ReportList sp = Some rvs'" "scheduled_all fuel env (ag_Apps g) (DeleteNodes ks) rvs'"
      by (rule CreateApps_reports [OF p(2) True])
    have "ran_on fuel env (ag_Apps g) base cfg 0 [] rvs'"
      unfolding ran_on_def using p(1) v(2) by (intro exI [of _ "DeleteNodes ks"]) (simp add: access_true_def)
    then have "saved fuel env (ag_Apps g) base cfg key ks' r 0"
      using savedI [of fuel env "ag_Apps g" base cfg 0 "[]" rvs' 1 0 key ks1] run' True v(1) by auto
    then show ?thesis using run' True l by auto
  next
    case False
    then have "failed_on fuel env (ag_Apps g) base cfg 0" using p(1,2) unfolding failed_on_def by blast
    then have "saved fuel env (ag_Apps g) base cfg key ks' r 1"
      using savedI [of fuel env "ag_Apps g" base cfg 1 bp rvs 1 0 key ks1] run' False one by auto
    then show ?thesis using run' False l by auto
  qed
qed

lemma prediction_loop_saved:
  assumes ok: "prediction_ok fuel env (ag_Apps g) base"
  shows "prediction_loop n fuel env g key s be bp (cur, ks) = (Ok r, ks') \<Longrightarrow> backed fuel env (ag_Apps g) base cfg s be bp \<Longrightarrow>
    search_nonneg s \<Longrightarrow> ready base ks \<Longrightarrow> derived_config cfg cur \<Longrightarrow>
    \<exists>m. saved fuel env (ag_Apps g) base cfg key ks' r m \<and> left_empty base ks'"
proof (induction n arbitrary: s be bp cur ks)
  case (Suc n)
  have pos: "0 \<le> predictionNodeCount s" using Suc.prems(3) by (simp add: search_nonneg_def)
  obtain access cfg1 ks1 sp ks2 where c: "CreateFakeNode fuel env (predictionNodeCount s) (cur, ks) = (Ok access, (cfg1, ks1))"
    "derived_config cfg cfg1" "probe_cluster base cfg (predictionNodeCount s) ks1" "access_true access (externalkubeclient ks1)"
    "CreateApps fuel env (ag_Apps g) ks1 = (Ok sp, ks2)" "ready base ks2"
    by (rule probe_nodes [OF ok Suc.prems(4,5) pos])
  have a: "or_nil (CreateApps fuel env (ag_Apps g) ks1) = (Ok sp, ks2)" using c(5) by simp
  define be' bp' s1 where "be' = (if PredictionGo sp then ReportList sp else be)"
    and "bp' = (if PredictionGo sp then access else bp)" and "s1 = search_update (PredictionGo sp) s"
  have b: "backed fuel env (ag_Apps g) base cfg s1 be' bp'"
    unfolding be'_def bp'_def s1_def by (rule backed_probe [OF Suc.prems(2) c(3-5)])
  note rest = Suc.prems(1) [unfolded prediction_loop.simps c(1) prod.case res.case seq_Ok_I [OF a] Let_def,
      folded be'_def bp'_def s1_def]
  have dn: "left_empty base (DeleteNodes ks2)" using ready_DeleteNodes [OF c(6)] by (simp add: left_empty_def)
  show ?case
  proof (cases "search_next s1")
    case (Found s')
    note f = search_next_Found [OF this]
    obtain rvs where v: "be' = Some rvs" "ran_on fuel env (ag_Apps g) base cfg (maxNode s1) bp' rvs"
      "failed_on fuel env (ag_Apps g) base cfg (minNode s1)"
      using b f by (auto simp: backed_def)
    have mn: "minNode s1 = maxNode s1 - 1" using f by simp
    have "saved fuel env (ag_Apps g) base cfg key (SavePrediction env bp' key (minNode s') (maxNode s') (maxNode s1)
        (Some rvs) (DeleteNodes ks2)) (Some rvs) (maxNode s1)"
      using v(2) v(3) [unfolded mn] f by (intro savedI) simp_all
    moreover have "ks' = SavePrediction env bp' key (minNode s') (maxNode s') (maxNode s1) (Some rvs) (DeleteNodes ks2)"
      "r = Some rvs"
      using rest Found f v(1) by (cases "PredictionGo sp"; simp add: be'_def bp'_def)+
    ultimately show ?thesis using dn by auto
  next
    case (AtZero s')
    note z = search_next_AtZero [OF this]
    obtain rvs where be: "be' = Some rvs" "ran_on fuel env (ag_Apps g) base cfg (maxNode s1) bp' rvs"
      using b z by (auto simp: backed_def)
    have "maxNode s1 = 1"
      using z search_nonneg_update [OF Suc.prems(3), of "PredictionGo sp"]
      by (auto simp: search_nonneg_def s1_def quot_nonneg)
    with be(2) have one: "ran_on fuel env (ag_Apps g) base cfg 1 bp' rvs" by simp
    have "last_try fuel env g key (Some rvs) bp' ks2 = (Ok r, ks')" using rest AtZero be(1) by simp
    then show ?thesis by (rule last_try_saved [OF ok c(6) one])
  next
    case (Again s')
    then have "backed fuel env (ag_Apps g) base cfg s' be' bp'"
      using search_next_Again [OF Again] b unfolding backed_def by metis
    moreover have "prediction_loop n fuel env g key s' be' bp' (cfg1, ks2) = (Ok r, ks')" using rest Again by simp
    moreover have "search_nonneg s'"
      using search_nonneg_next [OF search_nonneg_update [OF Suc.prems(3)]] Again by (simp add: s1_def)
    ultimately show ?thesis using Suc.IH c(2,6) by blast
  qed
qed simp

lemma prediction_saved:
  assumes "prediction_ok fuel env (ag_Apps g) base" and "ready base ks"
    and "last_config (ag_Nodes g) = cfg" and "cfg_ok cfg" and "0 \<le> NodeNumber cfg" and "ag_Apps g \<noteq> []"
    and "PredictionEmulator n fuel env g key ks = (Ok r, ks')"
  shows "\<exists>m rvs jr pr. saved fuel env (ag_Apps g) base cfg key ks' r m \<and> left_empty base ks' \<and> r = Some rvs \<and>
    length rvs = length (ag_Apps g) \<and> EmulatorReport key ks' = Ok jr \<and> job_Report jr = rvs \<and>
    PredictionNodeR jr = Some pr \<and> PredictionNode pr = word_of_int m \<and> job_Status jr = JobSucceed"
proof -
  have "backed fuel env (ag_Apps g) base cfg (search_start (NodeNumber cfg)) None []"
    by (simp add: backed_def search_start_def)
  then obtain m where m: "saved fuel env (ag_Apps g) base cfg key ks' r m" "left_empty base ks'"
    using prediction_loop_saved [OF assms(1) _ _ search_nonneg_start [OF assms(5)] assms(2) derived_refl [OF assms(4)]] assms(7)
    unfolding PredictionEmulator_def Let_def assms(3) by blast
  then obtain rvs access pr where r: "r = Some rvs" "emulatorResult ks' key = Some (Some rvs)"
    "predictionNode ks' key = Some pr" "PredictionNode pr = word_of_int m"
    "ran_on fuel env (ag_Apps g) base cfg m access rvs"
    unfolding saved_def by blast
  have good: "length rvs = length (ag_Apps g)" "\<forall>rv \<in> set rvs. good_report rv"
    using ran_on_good [OF r(5)] by blast+
  then have reasons: "\<forall>rv \<in> set rvs. rev_Reason (rev_Status rv) \<noteq> None"
    and sched: "\<not> (\<exists>rv \<in> set rvs. unscheduled rv)"
    by (auto simp: good_report_def)
  obtain jr where jr: "EmulatorReport key ks' = Ok jr" "JobID jr = key" "job_Report jr = rvs"
    "job_Status jr = (if \<exists>rv \<in> set rvs. unscheduled rv then JobFailed else if rvs = [] then JobNone else JobSucceed)"
    by (rule EmulatorReport_done [OF r(2) reasons])
  have "PredictionNodeR jr = Some pr"
    using jr(1) r(2,3) verdict_eq [OF reasons] by (auto simp: EmulatorReport_def Let_def)
  moreover have "job_Status jr = JobSucceed" using jr(4) sched good(1) assms(6) by auto
  ultimately show ?thesis using m r(1,4) good(1) jr(1,3) by blast
qed

text \<open>
  C8. When a job of kind Prediction ends, whatever a scheduler that always answers did, what it
  saved is sound. For a job with at least one application, a complete configuration and a start value that is
  not negative, the number \<open>m\<close> it reports is one for which a probe ran on a cluster of exactly \<open>m\<close>
  nodes of the job's configuration, with the job's resources and labels, and scheduled all applications;
  unless \<open>m\<close> is 0, a probe on \<open>m - 1\<close> such nodes did not. The reported access switches are true of the first
  cluster, there is one report per application, and the report handler answers Succeed. The job leaves
  no node in the cluster.
\<close>

theorem PredictionEmulator_saved:
  assumes "prediction_ok fuel env (ag_Apps g) base" and "ready base ks"
    and "last_config (ag_Nodes g) = cfg" and "cfg_ok cfg" and "0 \<le> NodeNumber cfg" and "ag_Apps g \<noteq> []"
    and "PredictionEmulator n fuel env g key ks = (Ok r, ks')"
  shows "\<exists>m rvs jr pr. saved fuel env (ag_Apps g) base cfg key ks' r m \<and> left_empty base ks' \<and> r = Some rvs \<and>
    length rvs = length (ag_Apps g) \<and> EmulatorReport key ks' = Ok jr \<and> job_Report jr = rvs \<and>
    PredictionNodeR jr = Some pr \<and> PredictionNode pr = word_of_int m \<and> job_Status jr = JobSucceed"
  using assms by (rule prediction_saved)

section \<open>The search that tries every number\<close>

text \<open>
  A reference for the binary search: the same probe on 0, 1, 2, \<open>\<dots>\<close> nodes, until one succeeds. It looks
  neither at the start value nor at any bound.
\<close>

fun linear_prediction ::
  "nat \<Rightarrow> nat \<Rightarrow> env \<Rightarrow> app_group \<Rightarrow> string \<Rightarrow> nat \<Rightarrow> node_config \<times> kubesim \<Rightarrow> (kubesim, review list option) outcome"
where
  "linear_prediction 0 fuel env g key k (cfg, ks) = (Hang, ks)"
| "linear_prediction (Suc n) fuel env g key k (cfg, ks) =
     (case CreateFakeNode fuel env (int k) (cfg, ks) of
        (Err e, (cfg1, ks1)) \<Rightarrow> (Err e, ks1)
      | (Panic p, (cfg1, ks1)) \<Rightarrow> (Panic p, ks1)
      | (Hang, (cfg1, ks1)) \<Rightarrow> (Hang, ks1)
      | (Ok access, (cfg1, ks1)) \<Rightarrow>
          seq (or_nil (CreateApps fuel env (ag_Apps g) ks1))
            (\<lambda>sp ks2. if PredictionGo sp
               then (Ok (ReportList sp), SavePrediction env access key (int k) (int k) (int k) (ReportList sp) (DeleteNodes ks2))
               else linear_prediction n fuel env g key (Suc k) (cfg1, ks2)) id)"

lemma linear_finds:
  assumes ok: "prediction_ok fuel env (ag_Apps g) base" and th: "fits_from fuel env (ag_Apps g) base cfg (int T)"
  shows "k \<le> T \<Longrightarrow> T < k + n \<Longrightarrow> ready base ks \<Longrightarrow> derived_config cfg cur \<Longrightarrow>
    \<exists>r ks'. linear_prediction n fuel env g key k (cur, ks) = (Ok r, ks') \<and> prediction_end base key (int T) ks'"
proof (induction n arbitrary: k cur ks)
  case (Suc n)
  obtain access cfg1 ks1 sp ks2 where c: "CreateFakeNode fuel env (int k) (cur, ks) = (Ok access, (cfg1, ks1))"
    and cfg1: "derived_config cfg cfg1" and pc: "probe_cluster base cfg (int k) ks1"
    and a: "CreateApps fuel env (ag_Apps g) ks1 = (Ok sp, ks2)" and rd: "ready base ks2"
    by (rule probe_nodes [OF ok Suc.prems(3,4) of_nat_0_le_iff])
  note go = fits_fromD [OF th pc a]
  have a': "or_nil (CreateApps fuel env (ag_Apps g) ks1) = (Ok sp, ks2)" using a by simp
  note loop = linear_prediction.simps(2) [of n fuel env g key k cur ks, unfolded c prod.case res.case seq_Ok_I [OF a'] go]
  show ?case
  proof (cases "T = k")
    case True
    then show ?thesis unfolding loop using ready_DeleteNodes [OF rd] by (simp add: prediction_end_save)
  next
    case False
    then have "Suc k \<le> T" "T < Suc k + n" using Suc.prems(1,2) by simp_all
    from Suc.IH [OF this rd cfg1] show ?thesis unfolding loop using False Suc.prems(1) by simp
  qed
qed simp

lemma linear_never:
  assumes ok: "prediction_ok fuel env (ag_Apps g) base" and never: "never_fits fuel env (ag_Apps g) base cfg"
  shows "ready base ks \<Longrightarrow> derived_config cfg cur \<Longrightarrow> fst (linear_prediction n fuel env g key k (cur, ks)) = Hang"
proof (induction n arbitrary: k cur ks)
  case (Suc n)
  obtain access cfg1 ks1 sp ks2 where c: "CreateFakeNode fuel env (int k) (cur, ks) = (Ok access, (cfg1, ks1))"
    "derived_config cfg cfg1" "probe_cluster base cfg (int k) ks1"
    "CreateApps fuel env (ag_Apps g) ks1 = (Ok sp, ks2)" "ready base ks2"
    by (rule probe_nodes [OF ok Suc.prems of_nat_0_le_iff])
  have a: "or_nil (CreateApps fuel env (ag_Apps g) ks1) = (Ok sp, ks2)" using c(4) by simp
  note go = never_fitsD [OF never c(3,4)]
  show ?case unfolding linear_prediction.simps c(1) prod.case res.case seq_Ok_I [OF a] go if_False
    by (rule Suc.IH [OF c(5,2)])
qed simp

text \<open>
  How a prediction ended, and when it returned, the number it reported and the cluster it left,
  kubesim's pods apart. Errors, panics and the bound being reached are kept apart.
\<close>

definition prediction_view ::
  "string \<Rightarrow> (kubesim, 'a) outcome \<Rightarrow> (32 word option \<times> (gvr \<Rightarrow> key \<rightharpoonup> kobj)) res" where
  "prediction_view key m =
     (case m of
        (Ok r, ks) \<Rightarrow> Ok (map_option PredictionNode (predictionNode ks key),
          (objs (externalkubeclient ks))(Pods := drop_matching kubesim_selector (objs (externalkubeclient ks) Pods)))
      | (Err e, ks) \<Rightarrow> Err e
      | (Panic p, ks) \<Rightarrow> Panic p
      | (Hang, ks) \<Rightarrow> Hang)"

lemma prediction_end_view:
  assumes "prediction_end base key m ks"
  shows "prediction_view key (Ok r, ks) = Ok (Some (word_of_int m), base(Nodes := Map.empty))"
proof -
  have "((objs (externalkubeclient ks))(Pods := drop_matching kubesim_selector (objs (externalkubeclient ks) Pods))) g =
      (base(Nodes := Map.empty)) g" for g
    using assms by (auto simp: prediction_end_def ready_def)
  then have "(objs (externalkubeclient ks))(Pods := drop_matching kubesim_selector (objs (externalkubeclient ks) Pods)) =
      base(Nodes := Map.empty)" by blast
  then show ?thesis using assms by (auto simp: prediction_end_def prediction_view_def)
qed

lemma prediction_view_Hang: "fst m = Hang \<Longrightarrow> prediction_view key m = Hang"
  by (cases m) (simp add: prediction_view_def)

text \<open>
  C9. The binary search is equivalent to trying every number of nodes from 0 on: for applications that
  fit from some number of nodes of the job's configuration on, or on none at all, and for every start value up to
  \<open>2 ^ 53\<close> outside the gap of \<open>generateMaxNode\<close>, both end the same way. They report the same number and leave the
  same cluster, or both probe for ever; neither fails or panics. So the start value and its
  upper bound only decide how many probes are run.
\<close>

theorem PredictionEmulator_linear:
  assumes "prediction_ok fuel env (ag_Apps g) base" and "ready base ks"
    and "last_config (ag_Nodes g) = cfg" and "cfg_ok cfg" and "0 \<le> NodeNumber cfg" and "NodeNumber cfg \<le> 2 ^ 53"
    and "\<not> in_gap (NodeNumber cfg)"
    and "(\<exists>T. fits_from fuel env (ag_Apps g) base cfg (int T)) \<or> never_fits fuel env (ag_Apps g) base cfg"
  shows "\<exists>n0. \<forall>n \<ge> n0. prediction_view key (PredictionEmulator n fuel env g key ks) =
      prediction_view key (linear_prediction n fuel env g key 0 (cfg, ks)) \<and>
    (prediction_view key (PredictionEmulator n fuel env g key ks) = Hang \<or>
     (\<exists>T. prediction_view key (PredictionEmulator n fuel env g key ks) = Ok (Some (word_of_int T), base(Nodes := Map.empty))))"
proof (cases "never_fits fuel env (ag_Apps g) base cfg")
  case True
  have "prediction_view key (PredictionEmulator n fuel env g key ks) = Hang"
    "prediction_view key (linear_prediction n fuel env g key 0 (cfg, ks)) = Hang" for n
    using prediction_never_fits [OF assms(1-6) True] linear_never [OF assms(1) True assms(2) derived_refl [OF assms(4)]]
    by (simp_all add: prediction_view_Hang)
  then show ?thesis by simp
next
  case False
  with assms(8) obtain T where T: "fits_from fuel env (ag_Apps g) base cfg (int T)" by blast
  obtain n0 where n0: "\<forall>n \<ge> n0. \<exists>r ks'. PredictionEmulator n fuel env g key ks = (Ok r, ks') \<and>
      prediction_end base key (int T) ks'"
    using prediction_finds [OF assms(1-7) T, of key] by auto
  let ?v = "Ok (Some (word_of_int (int T)), base(Nodes := Map.empty))"
  have "prediction_view key (PredictionEmulator n fuel env g key ks) = ?v \<and>
      prediction_view key (linear_prediction n fuel env g key 0 (cfg, ks)) = ?v" if n: "max n0 (Suc T) \<le> n" for n
  proof -
    have le: "n0 \<le> n" "T < 0 + n" using n by simp_all
    obtain r ks' where "PredictionEmulator n fuel env g key ks = (Ok r, ks')" "prediction_end base key (int T) ks'"
      using n0 le(1) by blast
    moreover obtain r' ks'' where "linear_prediction n fuel env g key 0 (cfg, ks) = (Ok r', ks'')"
      "prediction_end base key (int T) ks''"
      using linear_finds [OF assms(1) T le0 le(2) assms(2) derived_refl [OF assms(4)]] by blast
    ultimately show ?thesis by (simp add: prediction_end_view)
  qed
  then show ?thesis by metis
qed

section \<open>Predictions with a scheduler that counts resources\<close>

text \<open>
  For one application of \<open>r\<close> pods that request \<open>q\<close> each, on nodes with \<open>c\<close> each, the first-fit scheduler
  places everything exactly when \<open>r\<close> is at most \<open>c div q\<close> times the number of nodes.
\<close>

lemma probe_equal_nodes:
  assumes pc: "probe_cluster base cfg n ks" and empty: "base Pods = Map.empty"
    and k: "NodeCapacity cfg = Some k" "0 \<le> sint (CPU k)" and q: "0 < q"
  shows "equal_nodes (sint (CPU k) * 10 ^ 6) q (externalkubeclient ks)"
    and "int (card (node_names (externalkubeclient ks))) = n"
    and "total_on (objs (externalkubeclient ks) Pods) (node_names (externalkubeclient ks)) = 0"
proof -
  let ?t = "externalkubeclient ks"
  have wf: "tracker_wf ?t" and pods: "objs ?t Pods = Map.empty"
    and n: "int (card (dom (objs ?t Nodes))) = n" and like: "nodes_like cfg ?t"
    using pc empty by (simp_all add: probe_cluster_def)
  have nd: "node_like cfg nd" if "nd \<in> set (list_nodes Everything ?t)" for nd
    using that like in_list_nodes [OF wf] unfolding nodes_like_def by blast
  have cpu: "cpu_of (node_Allocatable nd) = sint (CPU k) * 10 ^ 6" if "nd \<in> set (list_nodes Everything ?t)" for nd
    using nd [OF that] k(1) by (simp add: node_like_def cpu_of_def node_resources_def)
  have ne: "[] \<notin> node_names ?t"
  proof
    assume "[] \<in> node_names ?t"
    then obtain x where "x \<in> set (list_nodes Everything ?t)" "node_Name x = []" by (auto simp: node_names_def)
    with nd [of x] show False by (simp add: node_like_def)
  qed
  have none: "pods_on (objs ?t Pods) nm = {}" for nm by (simp add: pods_on_def pods)
  have "fair q s (node_names ?t) (objs ?t Pods)" for s
    using ne none by (simp add: fair_def node_names_def uniform_on_def pods)
  then show "equal_nodes (sint (CPU k) * 10 ^ 6) q ?t"
    using wf cpu k(2) q by (simp add: equal_nodes_def)
  show "total_on (objs ?t Pods) (node_names ?t) = 0" by (simp add: total_on_def none)
  have "distinct (map node_Name (list_nodes Everything ?t))"
    using distinct_list_nodes [OF wf, of Everything] by (simp add: distinct_map node_key_def inj_on_def)
  then have "card (node_names ?t) = length (list_nodes Everything ?t)"
    using distinct_card by (fastforce simp: node_names_def)
  then show "int (card (node_names ?t)) = n" using n node_count_card [OF wf] by (simp add: node_count_def)
qed

lemma first_fit_probe:
  assumes env: "fits_first env" and pc: "probe_cluster base cfg n ks" and empty: "base Pods = Map.empty"
    and k: "NodeCapacity cfg = Some k" "0 \<le> sint (CPU k)" and q: "0 < q" "cpu_request p = q" and app: "pr_Pod app = Some p"
    and ok: "prediction_ok fuel env [app] base" and run: "CreateApps fuel env [app] ks = (Ok sp, ks')"
  shows "PredictionGo sp = (replicas_of app \<le> nat n * nat (sint (CPU k) * 10 ^ 6 div q))"
proof -
  note e = probe_equal_nodes [OF pc empty k q(1)]
  have v: "unmarked p" "0 < sint (pr_Replicas app)" "replicas_of app \<le> fuel" "tracker_wf (externalkubeclient ks)"
    using ok pc app by (auto simp: prediction_ok_def valid_request_def probe_cluster_def)
  have u: "unique_draws env [p] (draws ks) (2 * replicas_of app) (objs (externalkubeclient ks) Pods)"
    using ok pc app
    by (simp add: prediction_ok_def always_unique_def probe_cluster_def request_pods_def map_filter_simps total_replicas_def)
  have "fresh_names env p (draws ks) (replicas_of app) (objs (externalkubeclient ks) Pods)"
    by (rule unique_draws_fresh [OF u]) simp_all
  then have "request_ok fuel env p (pr_Replicas app) ks"
    using v fits_first_answers [OF env] by (simp add: request_ok_def replicas_of_def)
  from first_fit_round [OF env e(1) this q(2) refl refl] obtain ks1 where r:
    "SchedulerPod fuel env (UpdatePodRequest (Some p) (pr_Replicas app) ks) = (Ok (), ks1)"
    "ends_with (replicas_of app \<le> nat n * nat (sint (CPU k) * 10 ^ 6 div q)) ks1"
    using e(2,3) by (auto simp: replicas_of_def)
  obtain sp1 ks2 where l: "create_apps_loop fuel env [app] no_prediction ks = (Ok sp1, ks2)" "PredictionGo sp = PredictionGo sp1"
    using run by (auto simp: CreateApps_def seq_Ok)
  have w: "with_err (Wrap ''Unable to create next pod to schedule'')
      (SchedulerPod fuel env (UpdatePodRequest (pr_Pod app) (pr_Replicas app) ks)) = (Ok (), ks1)"
    using r(1) app by simp
  obtain rv ks3 where rv: "Report env ks1 = (Ok rv, ks3)"
    using l(1) unfolding create_apps_loop.simps seq_Ok_I [OF w] seq_Ok by blast
  note loop = l(1) [unfolded create_apps_loop.simps seq_Ok_I [OF w] seq_Ok_I [OF rv] Let_def]
  have un: "unscheduled rv = (\<not> replicas_of app \<le> nat n * nat (sint (CPU k) * 10 ^ 6 div q))"
    by (rule Report_ends [OF r(2) rv])
  obtain reason where reason: "rev_Reason (rev_Status rv) = Some reason"
    using loop by (cases "rev_Reason (rev_Status rv)") simp_all
  then have "PredictionGo sp1 = (\<not> unscheduled rv)"
    using loop app by (auto simp: unscheduled_def no_prediction_def add_report_def split: if_splits)
  then show ?thesis using un l(2) by simp
qed

text \<open>So the least sufficient number is \<open>r\<close> divided by \<open>c div q\<close>, rounded up; a pod that is too large never fits.\<close>

lemma ceil_div_le: "0 < s \<Longrightarrow> (r + s - 1) div s \<le> n \<longleftrightarrow> r \<le> n * (s :: nat)"
proof -
  assume s: "0 < s"
  have "(r + s - 1) div s \<le> n \<longleftrightarrow> r + s - 1 < s * Suc n"
    using s by (metis div_less_iff_less_mult less_Suc_eq_le mult.commute)
  also have "\<dots> \<longleftrightarrow> r \<le> n * s" using s by (simp add: mult.commute) linarith
  finally show ?thesis .
qed

lemma first_fit_fits:
  assumes "fits_first env" and "base Pods = Map.empty" and "NodeCapacity cfg = Some k" and "0 \<le> sint (CPU k)"
    and "0 < q" and "cpu_request p = q" and "pr_Pod app = Some p" and "prediction_ok fuel env [app] base"
    and s: "s = nat (sint (CPU k) * 10 ^ 6 div q)" "0 < s"
  shows "fits_from fuel env [app] base cfg (int ((replicas_of app + s - 1) div s))"
proof -
  have "PredictionGo sp = (int ((replicas_of app + s - 1) div s) \<le> n)"
    if pc: "probe_cluster base cfg n ks" and run: "CreateApps fuel env [app] ks = (Ok sp, ks')" for n ks sp ks'
  proof -
    have n: "0 \<le> n" using pc by (auto simp: probe_cluster_def)
    have "PredictionGo sp = (replicas_of app \<le> nat n * s)"
      unfolding s by (rule first_fit_probe [OF assms(1) pc assms(2-8) run])
    also have "\<dots> = ((replicas_of app + s - 1) div s \<le> nat n)" using ceil_div_le [OF s(2)] by simp
    finally show ?thesis using n by linarith
  qed
  then show ?thesis unfolding fits_from_def by blast
qed

lemma first_fit_never:
  assumes "fits_first env" and "base Pods = Map.empty" and "NodeCapacity cfg = Some k" and "0 \<le> sint (CPU k)"
    and "sint (CPU k) * 10 ^ 6 < q" and "cpu_request p = q" and "pr_Pod app = Some p" and ok: "prediction_ok fuel env [app] base"
  shows "never_fits fuel env [app] base cfg"
proof -
  have "0 \<le> sint (CPU k) * 10 ^ 6" using assms(4) by simp
  with assms(5) have q: "0 < q" by linarith
  have "0 < replicas_of app" using ok by (simp add: prediction_ok_def valid_request_def replicas_of_def)
  moreover have "sint (CPU k) * 10 ^ 6 div q = 0" using assms(4,5) by (intro div_pos_pos_trivial) simp_all
  ultimately have "\<not> PredictionGo sp"
    if "probe_cluster base cfg n ks" and "CreateApps fuel env [app] ks = (Ok sp, ks')" for n ks sp ks'
    using first_fit_probe [OF assms(1) that(1) assms(2-4) q assms(6-8) that(2)] by simp
  then show ?thesis unfolding never_fits_def by blast
qed

section \<open>Examples\<close>

text \<open>
  Pods that request \<open>m\<close> thousandths of a core, on nodes of four cores, under the first-fit scheduler.
  UUIDs are told apart by their first letter, which repeats after 26, and by their length.
\<close>

definition first_fit_env :: env where
  "first_fit_env = (example_env (\<lambda>_. NotYet))
     \<lparr>e_schedule := (\<lambda>i d t p. first_fit t p),
      e_uuid := (\<lambda>i. char_of (97 + i mod 26) # replicate i CHR ''x'')\<rparr>"

definition cpu_pod :: "int \<Rightarrow> pod" where
  "cpu_pod m = (let p = example_pod ''web'' [] in
     p\<lparr>pod_Spec := (pod_Spec p)\<lparr>Containers := [\<lparr>c_Name = ''web'', c_Requests = [(''cpu'', m * 10 ^ 6)]\<rparr>]\<rparr>\<rparr>)"

definition cpu_group :: "int \<Rightarrow> 32 word \<Rightarrow> app_group" where
  "cpu_group m r = \<lparr>EmulatorType = ''Prediction'', ag_Nodes = [example_config\<lparr>NodeNumber := 1\<rparr>],
     ag_Apps = [zero_request\<lparr>pr_Pod := Some (cpu_pod m), pr_Replicas := r\<rparr>],
     ag_OldPods = [], ag_PodsConfig = None\<rparr>"

lemma first_fit_env_facts: "fits_first first_fit_env" "answers first_fit_env" "\<forall>i. e_uuid first_fit_env i \<noteq> []"
proof -
  show f: "fits_first first_fit_env" by (simp add: fits_first_def first_fit_env_def)
  show "answers first_fit_env" by (rule fits_first_answers [OF f])
  show "\<forall>i. e_uuid first_fit_env i \<noteq> []" by (simp add: first_fit_env_def)
qed

lemma first_fit_inj: "inj (e_uuid first_fit_env)"
proof (rule injI)
  fix i j assume "e_uuid first_fit_env i = e_uuid first_fit_env j"
  then have "length (e_uuid first_fit_env i) = length (e_uuid first_fit_env j)" by simp
  then show "i = j" by (simp add: first_fit_env_def)
qed

lemma first_fit_unique:
  assumes "e_uuid env = e_uuid first_fit_env" and "m \<le> 26"
  shows "unique_draws env [sp] d m Map.empty"
proof -
  have "i = j" if i: "d \<le> i" "i < d + m" and j: "d \<le> j" "j < d + m" and eq: "next_key env i sp = next_key env j sp" for i j
  proof -
    have "(char_of (97 + i mod 26) :: char) = char_of (97 + j mod 26)"
      using eq assms(1) by (simp add: next_key_def) (simp add: first_fit_env_def)
    then have "(of_char (char_of (97 + i mod 26) :: char) :: nat) = of_char (char_of (97 + j mod 26) :: char)" by simp
    then have m: "i mod 26 = j mod 26" by (simp add: of_char_of)
    show "i = j"
    proof (rule ccontr)
      assume "i \<noteq> j"
      then consider "i < j" | "j < i" by linarith
      then show False
      proof cases
        case 1
        then have "26 dvd j - i" using m by (metis less_or_eq_imp_le mod_eq_dvd_iff_nat)
        then show False using 1 i j assms(2) by (auto dest: dvd_imp_le)
      next
        case 2
        then have "26 dvd i - j" using m by (metis less_or_eq_imp_le mod_eq_dvd_iff_nat)
        then show False using 2 i j assms(2) by (auto dest: dvd_imp_le)
      qed
    qed
  qed
  then show ?thesis by (auto simp: unique_draws_def)
qed

lemma cpu_group_simps [simp]:
  "ag_Apps (cpu_group m r) = [zero_request\<lparr>pr_Pod := Some (cpu_pod m), pr_Replicas := r\<rparr>]"
  "last_config (ag_Nodes (cpu_group m r)) = example_config\<lparr>NodeNumber := 1\<rparr>"
  "cpu_request (cpu_pod m) = m * 10 ^ 6" "unmarked (cpu_pod m)"
  by (simp_all add: cpu_group_def last_config_def cpu_pod_def cpu_request_def cpu_of_def unmarked_def example_pod_def
      Let_def empty_status_def)

lemma cpu_group_ok:
  assumes "0 < sint r" and "nat (sint r) \<le> fuel" and "sint r \<le> 13" and "2 \<le> fuel"
  shows "prediction_ok fuel first_fit_env (ag_Apps (cpu_group m r)) (\<lambda>_. Map.empty)"
proof -
  have t: "total_replicas (ag_Apps (cpu_group m r)) = nat (sint r)"
    "request_pods (ag_Apps (cpu_group m r)) = [cpu_pod m]"
    by (simp_all add: total_replicas_def replicas_of_def request_pods_def map_filter_simps)
  have "always_unique first_fit_env (ag_Apps (cpu_group m r)) Map.empty"
    unfolding always_unique_def t using first_fit_inj first_fit_unique [OF refl, of "2 * nat (sint r)"] assms(3) by simp
  then show ?thesis
    using assms first_fit_env_facts(2) by (simp add: prediction_ok_def valid_request_def replicas_of_def)
qed

lemma example_capacity: "\<exists>k. NodeCapacity (example_config\<lparr>NodeNumber := n\<rparr>) = Some k \<and> sint (CPU k) = 4000"
  by (simp add: example_config_def)

text \<open>Pods of three cores: one per node. Pods of five cores: none.\<close>

lemma three_cores_fit:
  assumes "0 < sint r" and "nat (sint r) \<le> fuel" and "sint r \<le> 13" and "2 \<le> fuel"
  shows "fits_from fuel first_fit_env (ag_Apps (cpu_group 3000 r)) (\<lambda>_. Map.empty) (example_config\<lparr>NodeNumber := n\<rparr>) (sint r)"
proof -
  obtain k where k: "NodeCapacity (example_config\<lparr>NodeNumber := n\<rparr>) = Some k" "sint (CPU k) = 4000"
    using example_capacity [of n] by blast
  have one: "1 = nat (sint (CPU k) * 10 ^ 6 div (3000 * 10 ^ 6))" using k(2) by simp
  have "fits_from fuel first_fit_env (ag_Apps (cpu_group 3000 r)) (\<lambda>_. Map.empty) (example_config\<lparr>NodeNumber := n\<rparr>)
      (int ((replicas_of (zero_request\<lparr>pr_Pod := Some (cpu_pod 3000), pr_Replicas := r\<rparr>) + 1 - 1) div 1))"
    unfolding cpu_group_simps(1)
    by (rule first_fit_fits [OF first_fit_env_facts(1) refl k(1) _ _ _ _ _ one])
      (use k(2) cpu_group_ok [OF assms, of 3000] in simp_all)
  then show ?thesis using assms(1) by (simp add: replicas_of_def)
qed

lemma five_cores_never:
  assumes "0 < sint r" and "nat (sint r) \<le> fuel" and "sint r \<le> 13" and "2 \<le> fuel"
  shows "never_fits fuel first_fit_env (ag_Apps (cpu_group 5000 r)) (\<lambda>_. Map.empty) (example_config\<lparr>NodeNumber := n\<rparr>)"
proof -
  obtain k where k: "NodeCapacity (example_config\<lparr>NodeNumber := n\<rparr>) = Some k" "sint (CPU k) = 4000"
    using example_capacity [of n] by blast
  show ?thesis unfolding cpu_group_simps(1)
    by (rule first_fit_never [OF first_fit_env_facts(1) refl k(1), of "5000 * 10 ^ 6"])
      (use k(2) cpu_group_ok [OF assms, of 5000] in simp_all)
qed

lemma small_word: "sint (1 :: 32 word) = 1" "sint (2 :: 32 word) = 2" "sint (7 :: 32 word) = 7"
  by simp_all

lemma example_start:
  "ready (\<lambda>_. Map.empty) (New ''addNode'' (\<lambda>_. []))"
  "cfg_ok (example_config\<lparr>NodeNumber := n\<rparr>)"
  using example_config_ok by (simp_all add: ready_def drop_matching_def cfg_ok_def)

text \<open>Two pods of three cores need two nodes.\<close>

lemma two_pods_hyps:
  "prediction_ok 2 first_fit_env (ag_Apps (cpu_group 3000 2)) (\<lambda>_. Map.empty)"
  "ready (\<lambda>_. Map.empty) (New ''addNode'' (\<lambda>_. []))"
  "last_config (ag_Nodes (cpu_group 3000 2)) = example_config\<lparr>NodeNumber := 1\<rparr>"
  "cfg_ok (example_config\<lparr>NodeNumber := 1\<rparr>)" "0 \<le> NodeNumber (example_config\<lparr>NodeNumber := 1\<rparr>)"
  "NodeNumber (example_config\<lparr>NodeNumber := 1\<rparr>) \<le> 2 ^ 53" "\<not> in_gap (NodeNumber (example_config\<lparr>NodeNumber := 1\<rparr>))"
  "fits_from 2 first_fit_env (ag_Apps (cpu_group 3000 2)) (\<lambda>_. Map.empty) (example_config\<lparr>NodeNumber := 1\<rparr>) 2"
  using example_start cpu_group_ok [of 2 2 3000] three_cores_fit [of 2 2 1] by (simp_all add: in_gap_def)

lemma two_pods_run:
  "\<exists>n r ks'. PredictionEmulator n 2 first_fit_env (cpu_group 3000 2) ''job'' (New ''addNode'' (\<lambda>_. [])) = (Ok r, ks')"
  using prediction_finds [OF two_pods_hyps zero_le_numeral, of "''job''"] by (meson order_refl)

theorem PredictionEmulator_finds_least_witness:
  "\<exists>n r ks'. PredictionEmulator n 2 first_fit_env (cpu_group 3000 2) ''job'' (New ''addNode'' (\<lambda>_. [])) = (Ok r, ks') \<and>
    prediction_end (\<lambda>_. Map.empty) ''job'' 2 ks'"
  using PredictionEmulator_finds_least [OF two_pods_hyps zero_le_numeral, of "''job''"] by (meson order_refl)

theorem PredictionEmulator_linear_witness:
  "\<exists>n. prediction_view ''job'' (PredictionEmulator n 2 first_fit_env (cpu_group 3000 2) ''job'' (New ''addNode'' (\<lambda>_. []))) =
      Ok (Some 2, (\<lambda>_. Map.empty)) \<and>
    prediction_view ''job'' (linear_prediction n 2 first_fit_env (cpu_group 3000 2) ''job'' 0
        (example_config\<lparr>NodeNumber := 1\<rparr>, New ''addNode'' (\<lambda>_. []))) = Ok (Some 2, (\<lambda>_. Map.empty))"
proof -
  let ?run = "\<lambda>n. PredictionEmulator n 2 first_fit_env (cpu_group 3000 2) ''job'' (New ''addNode'' (\<lambda>_. []))"
  have f: "(\<exists>T. fits_from 2 first_fit_env (ag_Apps (cpu_group 3000 2)) (\<lambda>_. Map.empty) (example_config\<lparr>NodeNumber := 1\<rparr>) (int T)) \<or>
      never_fits 2 first_fit_env (ag_Apps (cpu_group 3000 2)) (\<lambda>_. Map.empty) (example_config\<lparr>NodeNumber := 1\<rparr>)"
    using two_pods_hyps(8) by (metis of_nat_numeral)
  obtain n0 where n0: "\<forall>n \<ge> n0. prediction_view ''job'' (?run n) =
      prediction_view ''job'' (linear_prediction n 2 first_fit_env (cpu_group 3000 2) ''job'' 0
        (example_config\<lparr>NodeNumber := 1\<rparr>, New ''addNode'' (\<lambda>_. [])))"
    using PredictionEmulator_linear [OF two_pods_hyps(1-7) f, of "''job''"] by blast
  obtain n1 where n1: "\<forall>n \<ge> n1. \<exists>r ks'. ?run n = (Ok r, ks') \<and> prediction_end (\<lambda>_. Map.empty) ''job'' 2 ks'"
    using prediction_finds [OF two_pods_hyps zero_le_numeral, of "''job''"] by blast
  have m: "n0 \<le> max n0 n1" "n1 \<le> max n0 n1" by simp_all
  obtain r ks' where "?run (max n0 n1) = (Ok r, ks')" "prediction_end (\<lambda>_. Map.empty) ''job'' 2 ks'" using n1 m(2) by blast
  then have "prediction_view ''job'' (?run (max n0 n1)) = Ok (Some 2, (\<lambda>_. Map.empty))"
    by (simp add: prediction_end_view fun_upd_idem)
  then show ?thesis using n0 m(1) by metis
qed

theorem PredictionEmulator_saved_witness:
  "\<exists>n r ks' m jr. PredictionEmulator n 2 first_fit_env (cpu_group 3000 2) ''job'' (New ''addNode'' (\<lambda>_. [])) = (Ok r, ks') \<and>
    saved 2 first_fit_env (ag_Apps (cpu_group 3000 2)) (\<lambda>_. Map.empty) (example_config\<lparr>NodeNumber := 1\<rparr>) ''job'' ks' r m \<and>
    EmulatorReport ''job'' ks' = Ok jr \<and> job_Status jr = JobSucceed"
proof -
  obtain n r ks' where r: "PredictionEmulator n 2 first_fit_env (cpu_group 3000 2) ''job'' (New ''addNode'' (\<lambda>_. [])) = (Ok r, ks')"
    using two_pods_run by blast
  have "ag_Apps (cpu_group 3000 2) \<noteq> []" by simp
  from PredictionEmulator_saved [OF two_pods_hyps(1-5) this r] show ?thesis using r by blast
qed

theorem PredictionEmulator_gap_witness:
  "\<forall>n. fst (PredictionEmulator n 2 first_fit_env ((cpu_group 3000 2)\<lparr>ag_Nodes := [example_config\<lparr>NodeNumber := 3500\<rparr>]\<rparr>) ''job''
     (New ''addNode'' (\<lambda>_. []))) = Hang"
proof -
  let ?g = "(cpu_group 3000 2)\<lparr>ag_Nodes := [example_config\<lparr>NodeNumber := 3500\<rparr>]\<rparr>"
  have "prediction_ok 2 first_fit_env (ag_Apps ?g) (\<lambda>_. Map.empty)" using two_pods_hyps(1) by simp
  moreover have "last_config (ag_Nodes ?g) = example_config\<lparr>NodeNumber := 3500\<rparr>" by (simp add: last_config_def)
  ultimately show ?thesis
    by (intro allI) (rule PredictionEmulator_gap [OF _ example_start(1) _ example_start(2)], assumption, assumption, simp add: in_gap_def)
qed

theorem PredictionEmulator_never_fitting_witness:
  "\<forall>n. fst (PredictionEmulator n 2 first_fit_env (cpu_group 5000 1) ''job'' (New ''addNode'' (\<lambda>_. []))) = Hang"
  by (intro allI) (rule PredictionEmulator_never_fitting [OF _ example_start(1) cpu_group_simps(2) example_start(2)],
    use cpu_group_ok [of 1 2 5000] five_cores_never [of 1 2 1] in simp_all)

text \<open>
  A prediction request without a node configuration is not refused: its first probe panics on
  the nil label map, after the nodes of the cluster have been deleted.
\<close>

lemma PredictionEmulator_without_nodes:
  assumes "ag_Nodes g = []" and "tracker_wf (externalkubeclient ks)"
  shows "\<exists>ks'. PredictionEmulator (Suc n) (Suc fuel) env g key ks = (Panic NilMapWrite, ks') \<and>
    objs (externalkubeclient ks') Nodes = Map.empty"
proof -
  obtain t where t: "DeleteNodes ks = ks\<lparr>externalkubeclient := t\<rparr>" "tracker_wf t"
    "objs t = (objs (externalkubeclient ks))
      (Pods := drop_matching kubesim_selector (objs (externalkubeclient ks) Pods), Nodes := Map.empty)"
    by (rule DeleteNodes_result [OF assms(2)])
  let ?cfg = "empty_node_config\<lparr>NodeNumber := 5\<rparr>"
  have s: "predictionNodeCount (search_start 0) = 5"
    by (simp add: search_start_def generateMaxNode_def quot_def)
  have "NodeLabels ?cfg = None" by (simp add: empty_node_config_def nil_map_def)
  moreover have "node_count (externalkubeclient (DeleteNodes ks)) < NodeNumber ?cfg"
    using t node_count_card [OF t(2)] by simp
  ultimately obtain s' where p: "AddNodes (Suc fuel) env (?cfg, DeleteNodes ks) = (Panic NilMapWrite, s')"
    "externalkubeclient (snd s') = externalkubeclient (DeleteNodes ks)"
    using AddNodes_nil_labels by blast
  obtain cfg' ks' where s': "s' = (cfg', ks')" by fastforce
  have "PredictionEmulator (Suc n) (Suc fuel) env g key ks = (Panic NilMapWrite, ks')"
    using p(1) assms(1)
    by (simp add: PredictionEmulator_def last_config_def s CreateFakeNode_def s' empty_node_config_def)
  moreover have "objs (externalkubeclient ks') Nodes = Map.empty" using p(2) t(1,3) s' by simp
  ultimately show ?thesis by blast
qed

lemma PredictionEmulator_without_nodes_example:
  "\<exists>ks'. PredictionEmulator 1 1 first_fit_env ((cpu_group 3000 2)\<lparr>ag_Nodes := []\<rparr>) ''job'' (New ''addNode'' (\<lambda>_. [])) =
     (Panic NilMapWrite, ks')"
  using PredictionEmulator_without_nodes [of "(cpu_group 3000 2)\<lparr>ag_Nodes := []\<rparr>" "New ''addNode'' (\<lambda>_. [])" 0 0] by auto

end
