(* ===== verification/Frames.thy ===== *)
theory Frames
  imports Prediction
begin

text \<open>
  What the operations of a job leave alone: the queue, the saved results and predictions, and the
  strategy; UUIDs are only drawn, never given back; a well-formed simulated cluster stays well
  formed. The relation \<open>keeps\<close> is proved for every operation in every state, also on the paths that
  end in an error, a panic or without return. An emulator then changes the books at its own key only
  (\<open>keeps_but\<close>).
\<close>

section \<open>Operations on the store keep it well formed\<close>

lemma create_obj_wf: "create_obj g x t = Inr t' \<Longrightarrow> tracker_wf t \<Longrightarrow> kind_ok g x \<Longrightarrow> tracker_wf t'"
  unfolding create_obj_def tracker_Create_def by (rule tracker_add_wf)

lemma update_obj_wf: "update_obj g x t = Inr t' \<Longrightarrow> tracker_wf t \<Longrightarrow> kind_ok g x \<Longrightarrow> tracker_wf t'"
  unfolding update_obj_def tracker_Update_def by (rule tracker_add_wf)

lemma delete_key_wf: "delete_key g k t = Inr t' \<Longrightarrow> tracker_wf t \<Longrightarrow> tracker_wf t'"
  unfolding delete_key_def by (rule tracker_Delete_wf)

lemma strategy_Add_wf: "strategy_Add (PodObj p) t = Inr t' \<Longrightarrow> tracker_wf t \<Longrightarrow> tracker_wf t'"
  by (auto simp: strategy_Add_def addPod_def split: sum.splits elim: update_obj_wf)

lemma delete_each_wf: "tracker_wf t \<Longrightarrow> delete_each (delete_key g) ks t = (r, t') \<Longrightarrow> tracker_wf t'"
  by (induction ks arbitrary: t) (auto split: sum.splits dest: delete_key_wf)

lemma delete_logged_wf: "tracker_wf t \<Longrightarrow> tracker_wf (delete_logged (delete_key g) ks t)"
  by (induction ks arbitrary: t) (auto split: sum.splits dest: delete_key_wf)

lemma create_each_wf:
  "tracker_wf t \<Longrightarrow> \<forall>x \<in> set xs. kind_ok g x \<Longrightarrow> create_each (create_obj g) xs t = (r, t') \<Longrightarrow> tracker_wf t'"
  by (induction xs arbitrary: t) (auto split: sum.splits dest: create_obj_wf)

lemma clean_loop_wf: "tracker_wf t \<Longrightarrow> tracker_wf (snd (clean_loop t))"
proof (induction t rule: clean_loop.induct)
  case (1 t)
  let ?items = "list_pods [] kubesim_selector t"
  obtain r t' where d: "delete_each (delete_key Pods) (map pod_key ?items) t = (r, t')" by fastforce
  have wf: "tracker_wf t'" using "1.prems" d by (rule delete_each_wf)
  show ?case
  proof (cases "?items = []")
    case False
    have "tracker_wf (snd (clean_loop t'))" if "r = None"
      by (rule "1.IH" [OF refl False d [symmetric] that wf])
    then show ?thesis using wf False by (cases r) (simp_all add: clean_loop.simps [of t] Let_def d)
  qed (use "1.prems" in \<open>simp add: clean_loop.simps [of t]\<close>)
qed

lemmas store_wf = create_obj_wf update_obj_wf delete_key_wf strategy_Add_wf tracker_Delete_wf

section \<open>Operations that keep the books\<close>

definition keeps :: "kubesim \<Rightarrow> kubesim \<Rightarrow> bool" where
  "keeps ks ks' \<longleftrightarrow> same_books ks ks' \<and> draws ks \<le> draws ks' \<and>
     (tracker_wf (externalkubeclient ks) \<longrightarrow> tracker_wf (externalkubeclient ks'))"

named_theorems keeping \<open>the operations that keep the books\<close>

lemma keeps_refl [simp]: "keeps ks ks"
  by (simp add: keeps_def)

lemma keeps_trans: "keeps a b \<Longrightarrow> keeps b c \<Longrightarrow> keeps a c"
  using same_books_trans by (auto simp: keeps_def)

lemma keeps_seq:
  assumes "keeps ks (snd m)" and "\<And>x s. keeps s (snd (f x s))"
  shows "keeps ks (snd (seq m f id))"
proof -
  obtain r s where m: "m = (r, s)" by fastforce
  show ?thesis using assms keeps_trans by (cases r) (auto simp: m)
qed

lemma keeps_with_err [simp]: "keeps ks (snd (with_err f m)) = keeps ks (snd m)"
proof -
  obtain r s where "m = (r, s)" by fastforce
  then show ?thesis by (cases r) auto
qed

lemma keeps_or_nil [simp]: "keeps ks (snd (or_nil m)) = keeps ks (snd m)"
proof -
  obtain r s where "m = (r, s)" by fastforce
  then show ?thesis by (cases r) auto
qed

text \<open>Assignments to the other fields.\<close>

lemma keeps_cluster [simp]:
  "keeps ks (ks\<lparr>externalkubeclient := t\<rparr>) \<longleftrightarrow> (tracker_wf (externalkubeclient ks) \<longrightarrow> tracker_wf t)"
  by (simp add: keeps_def same_books_def)

lemma keeps_updates [simp]:
  "keeps ks (ks\<lparr>status := st\<rparr>)" "keeps ks (ks\<lparr>stop := c\<rparr>)"
  "keeps ks (ks\<lparr>ks_report := rv\<rparr>)" "keeps ks (ks\<lparr>stopped := b\<rparr>)" "keeps ks (ks\<lparr>schedulerCh := c\<rparr>)"
  "keeps ks (ks\<lparr>draws := Suc (draws ks)\<rparr>)"
  by (simp_all add: keeps_def same_books_def)

lemma keeps_UpdatePodRequest [simp]: "keeps ks (UpdatePodRequest p n ks)"
  by (simp add: keeps_def same_books_def UpdatePodRequest_def)

lemma keeps_CleanStatusPods [simp]: "keeps ks (CleanStatusPods ks)"
  by (simp add: keeps_def same_books_def CleanStatusPods_def)

lemma keeps_Close [keeping]: "keeps ks (snd (Close ks))"
  by (auto simp: Close_def Let_def keeps_def same_books_def split: res.splits)

lemma keeps_nextPod [keeping]: "keeps ks (snd (nextPod env ks))"
  by (auto simp: nextPod_def Let_def keeps_def same_books_def split: option.splits sum.splits intro: create_obj_wf)

lemma keeps_Report [keeping]: "keeps ks (snd (Report env ks))"
  by (auto simp: Report_def split: option.splits res.splits)

lemma keeps_CleanPod [keeping]: "keeps ks (snd (CleanPod ks))"
  using clean_loop_wf [of "externalkubeclient ks"] by (simp add: CleanPod_def split_beta)

lemma keeps_clean_up [simp]: "keeps ks (clean_up ks)"
  unfolding clean_up_def using keeps_CleanPod keeps_CleanStatusPods by (rule keeps_trans)

lemma keeps_CleanPendingPod [keeping]: "keeps ks (snd (CleanPendingPod p ks))"
  by (auto simp: CleanPendingPod_def split: sum.splits intro: tracker_Delete_wf)

lemma keeps_Update [keeping]: "keeps ks (snd (Update p c ks))"
proof (cases "is_unschedulable c \<and> gm_get (pod_Annotations p) podProvisioner \<noteq> None")
  case True
  let ?k = "ks\<lparr>status := (status ks)\<lparr>st_StopReason := cond_Reason c @ '': '' @ cond_Message c\<rparr>\<rparr>"
  have "keeps ?k (snd (seq (Close ?k) (\<lambda>_ ks2. (Ok True, snd (CleanPendingPod p (ks2\<lparr>stopped := True\<rparr>)))) id))"
    by (rule keeps_seq) (simp_all add: keeping keeps_trans [OF keeps_updates(4) keeps_CleanPendingPod])
  with keeps_updates(1) have "keeps ks (snd (seq (Close ?k)
      (\<lambda>_ ks2. (Ok True, snd (CleanPendingPod p (ks2\<lparr>stopped := True\<rparr>)))) id))"
    by (rule keeps_trans)
  then show ?thesis using True by (simp add: Update_def)
qed (auto simp: Update_def)

lemma keeps_condition_loop [keeping]: "keeps ks (snd (condition_loop p cs ks))"
proof (induction cs arbitrary: ks)
  case (Cons c cs)
  then show ?case by (simp add: keeping keeps_seq)
qed simp

lemma keeps_schedule_failed [keeping]: "keeps ks (snd (schedule_failed p msg ks))"
proof -
  have "keeps ks (snd (pod_update_handler q (ks\<lparr>externalkubeclient := t\<rparr>)))"
    if "update_obj Pods (PodObj q) (externalkubeclient ks) = Inr t" for q t
  proof (rule keeps_trans)
    show "keeps ks (ks\<lparr>externalkubeclient := t\<rparr>)" using update_obj_wf [OF that] by simp
  qed (simp add: pod_update_handler_def keeping)
  then show ?thesis by (simp add: schedule_failed_def Let_def split: sum.splits)
qed

lemma keeps_Bind [keeping]: "keeps ks (snd (Bind env p n ks))"
proof -
  have 1: "keeps ks (snd (seq (Close k) (\<lambda>_ ks3. (Ok BindStop, ks3)) id))" if "keeps ks k" for k
    by (rule keeps_trans [OF that keeps_seq]) (simp_all add: keeping)
  have 2: "keeps ks (snd (case nextPod env k of
       (Ok _, ks2) \<Rightarrow> (Ok BindDone, ks2)
     | (Err e, ks2) \<Rightarrow> (Err (Wrap ''Unable to create next pod to schedule'' e), ks2)
     | (Panic x, ks2) \<Rightarrow> (Panic x, ks2) | (Hang, ks2) \<Rightarrow> (Hang, ks2)))" if "keeps ks k" for k
    using keeps_trans [OF that keeps_nextPod [of k env]] by (auto split: prod.splits res.splits)
  have 3: "keeps ks (ks\<lparr>externalkubeclient := t, status := st\<rparr>)"
    if "strategy_Add (PodObj q) (externalkubeclient ks) = Inr t" for q t st
    using strategy_Add_wf [OF that] by (simp add: keeps_def same_books_def)
  show ?thesis
    by (auto simp: Bind_def Let_def intro: 1 2 3 split: sum.splits option.splits)
qed

lemma keeps_send_stop [keeping]: "keeps ks (snd (send_stop ks))"
  by (simp add: send_stop_def split: chan.splits)

lemma keeps_close_stop [keeping]: "keeps ks (snd (close_stop ks))"
  by (simp add: close_stop_def split: res.splits)

lemma keeps_await [keeping]: "keeps ks (snd (await fuel i env p ks))"
proof (induction fuel arbitrary: i p ks)
  case (Suc fuel)
  show ?case
  proof (cases "e_schedule env i (draws ks) (externalkubeclient ks) p")
    case (BindTo n)
    obtain r ks1 where b: "Bind env p n ks = (r, ks1)" by fastforce
    have k: "keeps ks ks1" using keeps_Bind [of ks env p n] by (simp add: b)
    have "keeps ks (snd (await fuel j env q ks1))" for j q by (rule keeps_trans [OF k Suc.IH])
    moreover have "keeps ks (snd (send_stop ks1))" by (rule keeps_trans [OF k keeps_send_stop])
    ultimately show ?thesis using k
      by (cases r) (simp_all add: BindTo b split: bind_end.splits option.splits)
  next
    case (Unschedulable m)
    obtain r ks1 where b: "schedule_failed p m ks = (r, ks1)" by fastforce
    have k: "keeps ks ks1" using keeps_schedule_failed [of ks p m] by (simp add: b)
    have "keeps ks (snd (await fuel j env q ks1))" for j q by (rule keeps_trans [OF k Suc.IH])
    moreover have "keeps ks (snd (send_stop ks1))" by (rule keeps_trans [OF k keeps_send_stop])
    ultimately show ?thesis using k by (cases r) (simp_all add: Unschedulable b)
  qed (simp add: Suc.IH)
qed simp

lemma keeps_SchedulerPod [keeping]: "keeps ks (snd (SchedulerPod fuel env ks))"
proof -
  obtain r ks1 where n: "nextPod env ks = (r, ks1)" by fastforce
  have k: "keeps ks ks1" using keeps_nextPod [of ks env] by (simp add: n)
  have "keeps ks (snd (seq (Close ks1) (\<lambda>_ ks2. seq (close_stop ks2) (\<lambda>_ ks3. (Err e, ks3)) id) id))" for e :: gerr
    by (rule keeps_trans [OF k]) (simp add: keeps_seq keeping)
  moreover have "keeps ks (snd (seq (await fuel 0 env p ks1) (\<lambda>_ ks2. close_stop ks2) id))" for p
    by (rule keeps_trans [OF k]) (simp add: keeps_seq keeping)
  ultimately show ?thesis using k by (cases r) (simp_all add: SchedulerPod_def n split: option.splits)
qed

lemma keeps_request [keeping]: "keeps ks (snd (SchedulerPod fuel env (UpdatePodRequest p n ks)))"
  by (rule keeps_trans [OF keeps_UpdatePodRequest keeps_SchedulerPod])

lemma keeps_run_apps [keeping]: "keeps ks (snd (run_apps fuel env apps acc ks))"
proof (induction apps arbitrary: acc ks)
  case (Cons app apps)
  have "keeps s (snd (run_apps fuel env apps acc' (CleanStatusPods s)))" for s acc'
    by (rule keeps_trans [OF keeps_CleanStatusPods Cons.IH])
  then show ?case by (simp add: keeps_seq keeping)
qed simp

lemma keeps_run_unpinned [keeping]: "keeps ks (snd (run_unpinned fuel env apps acc ks))"
proof (induction apps arbitrary: acc ks)
  case (Cons app apps)
  have "keeps ks (snd (seq (run_apps fuel env [app'] acc ks) (run_unpinned fuel env apps) id))" for app'
    by (rule keeps_seq [OF keeps_run_apps Cons.IH])
  then show ?case by (simp split: res.splits)
qed simp

lemma keeps_vertical_retry [keeping]: "keeps ks (snd (vertical_retry fuel env apps acc ks))"
  using keeps_trans [OF keeps_clean_up keeps_run_unpinned]
  by (simp add: vertical_retry_def split: res.splits)

lemma keeps_delete_pods [keeping]: "keeps ks (snd (delete_pods f ps ks))"
  using delete_each_wf by (auto simp: delete_pods_each split: prod.splits option.splits)

lemma keeps_create_pods [keeping]: "keeps ks (snd (create_pods f ps ks))"
  using create_each_wf [of "externalkubeclient ks" "map PodObj ps" Pods]
  by (auto simp: create_pods_each split: prod.splits option.splits)

lemma keeps_create_apps_loop [keeping]: "keeps ks (snd (create_apps_loop fuel env apps sp ks))"
proof (induction apps arbitrary: sp ks)
  case (Cons app apps)
  have "keeps s (snd (create_apps_loop fuel env apps sp' (CleanStatusPods s)))" for s sp'
    by (rule keeps_trans [OF keeps_CleanStatusPods Cons.IH])
  then show ?case by (simp add: keeps_seq keeping Let_def split: option.splits)
qed simp

lemma keeps_CreateApps [keeping]: "keeps ks (snd (CreateApps fuel env apps ks))"
  by (simp add: CreateApps_def keeps_seq keeping)

lemma keeps_DeprecatedPredictionEmulator [keeping]: "keeps ks (snd (DeprecatedPredictionEmulator fuel env apps ks))"
  by (simp add: DeprecatedPredictionEmulator_def keeps_seq keeping)

lemma keeps_DeprecatedAppsEmulator [keeping]: "keeps ks (snd (DeprecatedAppsEmulator fuel env apps ks))"
  by (simp add: DeprecatedAppsEmulator_def keeps_seq keeping)

lemma keeps_DeleteNodes [keeping]: "keeps ks (DeleteNodes ks)"
  unfolding DeleteNodes_def Let_def by (rule keeps_trans [OF keeps_CleanPod]) (simp add: delete_logged_wf)

section \<open>Nodes\<close>

text \<open>The operations on nodes thread the configuration as well.\<close>

lemma keeps_add_on_switch: "keeps (snd s) (snd (snd (add_on_switch env n l s)))"
proof (induction env n l s rule: add_on_switch.induct)
  case (2 env n l cfg ks)
  have d: "keeps ks (ks\<lparr>draws := Suc (draws ks), externalkubeclient := t\<rparr>)"
    if "create_obj Nodes (NodeObj v) (externalkubeclient ks) = Inr t" for v t
    using create_obj_wf [OF that] by (simp add: keeps_def same_books_def)
  obtain r cfg1 where b: "BuildNode cfg (''fake-'' @ e_uuid env (draws ks)) = (r, cfg1)" by fastforce
  show ?case
  proof (cases r)
    case (Ok nd)
    show ?thesis
    proof (cases "create_obj Nodes (NodeObj nd) (externalkubeclient ks)")
      case (Inr t)
      have "keeps ks (snd (snd (add_on_switch env n (l @ [''fake-'' @ e_uuid env (draws ks)])
          (cfg1, ks\<lparr>draws := Suc (draws ks), externalkubeclient := t\<rparr>))))"
        using keeps_trans [OF d [OF Inr]] "2.IH" [OF refl refl, of r cfg1 nd t] Ok Inr b by simp
      then show ?thesis using b Ok Inr by (simp add: Let_def)
    qed (use b Ok in \<open>simp add: Let_def\<close>)
  qed (use b in \<open>simp_all add: Let_def\<close>)
qed simp

lemma keeps_node_seq:
  assumes "keeps ks (snd (snd m))" and "\<And>x s. keeps (snd s) (snd (snd (f x s)))"
  shows "keeps ks (snd (snd (seq m f id)))"
proof -
  obtain r s where m: "m = (r, s)" by (rule prod.exhaust)
  show ?thesis using assms keeps_trans by (cases r) (auto simp: m)
qed

lemma keeps_add_switches: "keeps (snd s) (snd (snd (add_switches env sws access s)))"
proof (induction sws arbitrary: access s)
  case (Cons sw sws)
  obtain cfg ks where s: "s = (cfg, ks)" by fastforce
  let ?k = "ks\<lparr>draws := Suc (draws ks)\<rparr>"
  have "keeps ks (snd (snd (seq (add_on_switch env (nat sw) [] (cfg\<lparr>NodeLabels := ls\<rparr>, ?k))
      (\<lambda>l s. add_switches env sws (AList.update nm l access) s) id)))" for ls nm
    by (rule keeps_trans [OF keeps_updates(6) keeps_node_seq])
      (use keeps_add_on_switch [of "(cfg\<lparr>NodeLabels := ls\<rparr>, ?k)" env] Cons.IH in simp_all)
  then show ?case by (simp add: s Let_def split: res.splits)
qed simp

lemma keeps_addNodes: "keeps (snd s) (snd (snd (addNodes env s)))"
  using keeps_add_switches [of s] by (cases s) (simp add: addNodes_def)

lemma keeps_add_loop: "keeps (snd s) (snd (snd (add_loop fuel env n access s)))"
proof (induction fuel arbitrary: access s)
  case 0
  then show ?case by (cases s) (simp add: add_loop.simps)
next
  case (Suc fuel)
  obtain cfg ks where s: "s = (cfg, ks)" by fastforce
  have less: "keeps ks (snd (snd (case addNodes env (cfg\<lparr>NodeNumber := k\<rparr>, ks) of
           (Ok access', s) \<Rightarrow> add_loop fuel env n access' s
         | (Err e, s) \<Rightarrow> (Err (Wrap ''Unable to create simulator node'' e), s)
         | (Panic p, s) \<Rightarrow> (Panic p, s)
         | (Hang, s) \<Rightarrow> (Hang, s))))" for k
  proof -
    obtain r s1 where a: "addNodes env (cfg\<lparr>NodeNumber := k\<rparr>, ks) = (r, s1)" by (rule prod.exhaust)
    have "keeps ks (snd s1)" using keeps_addNodes [of "(cfg\<lparr>NodeNumber := k\<rparr>, ks)" env] a by simp
    then show ?thesis using keeps_trans Suc.IH by (cases r) (auto simp: a)
  qed
  have more: "keeps ks (snd (snd (add_loop fuel env n access (cfg, ks\<lparr>externalkubeclient := t\<rparr>))))"
    if "tracker_wf (externalkubeclient ks) \<longrightarrow> tracker_wf t" for t
    using keeps_trans [OF keeps_cluster [THEN iffD2, OF that]] Suc.IH [of "(cfg, ks\<lparr>externalkubeclient := t\<rparr>)" access] by simp
  show ?case unfolding s add_loop.simps Let_def using less more by (simp add: delete_logged_wf)
qed

lemma keeps_AddNodes: "keeps (snd s) (snd (snd (AddNodes fuel env s)))"
  using keeps_add_loop [of s] by (cases s) (simp add: AddNodes_def)

lemma keeps_CreateFakeNode: "keeps ks (snd (snd (CreateFakeNode fuel env n (cfg, ks))))"
proof -
  obtain r s1 where a: "AddNodes fuel env (cfg\<lparr>NodeNumber := n\<rparr>, DeleteNodes ks) = (r, s1)" by (rule prod.exhaust)
  have "keeps (DeleteNodes ks) (snd s1)"
    using keeps_AddNodes [of "(cfg\<lparr>NodeNumber := n\<rparr>, DeleteNodes ks)" fuel env] a by simp
  then have "keeps ks (snd s1)" by (rule keeps_trans [OF keeps_DeleteNodes])
  then show ?thesis by (cases r) (auto simp: CreateFakeNode_def a split: prod.splits)
qed

section \<open>Jobs change the books at their own key only\<close>

definition keeps_but :: "string \<Rightarrow> kubesim \<Rightarrow> kubesim \<Rightarrow> bool" where
  "keeps_but key ks ks' \<longleftrightarrow> fifoQueue ks' = fifoQueue ks \<and> draws ks \<le> draws ks' \<and>
     (tracker_wf (externalkubeclient ks) \<longrightarrow> tracker_wf (externalkubeclient ks')) \<and>
     (\<forall>k. k \<noteq> key \<longrightarrow> emulatorResult ks' k = emulatorResult ks k \<and> predictionNode ks' k = predictionNode ks k)"

text \<open>
  A call that saves a result when it returns one, and only then.
\<close>

definition saves :: "string \<Rightarrow> ('a \<Rightarrow> review list option) \<Rightarrow> kubesim \<Rightarrow> (kubesim, 'a) outcome \<Rightarrow> bool" where
  "saves key result ks m \<longleftrightarrow> keeps_but key ks (snd m) \<and>
     (case fst m of Ok x \<Rightarrow> emulatorResult (snd m) key = Some (result x)
      | _ \<Rightarrow> emulatorResult (snd m) = emulatorResult ks \<and> predictionNode (snd m) = predictionNode ks)"

lemma keeps_then_but: "keeps a b \<Longrightarrow> keeps_but key b c \<Longrightarrow> keeps_but key a c"
  by (auto simp: keeps_def keeps_but_def same_books_def)

lemma keeps_but_keeps: "keeps ks ks' \<Longrightarrow> keeps_but key ks ks'"
  by (simp add: keeps_def keeps_but_def same_books_def)

lemma saves_seq:
  assumes "keeps ks (snd m)" and "\<And>x s. saves key result s (f x s)"
  shows "saves key result ks (seq m f id)"
proof -
  obtain r s where m: "m = (r, s)" by (rule prod.exhaust)
  have k: "keeps ks s" using assms(1) m by simp
  show ?thesis
  proof (cases r)
    case (Ok x)
    have "saves key result ks (f x s)"
      using assms(2) [of s x] keeps_then_but [OF k] k
      by (auto simp: saves_def keeps_def same_books_def split: res.splits)
    then show ?thesis using m Ok by simp
  qed (use k keeps_but_keeps [OF k] in \<open>simp_all add: m saves_def keeps_def same_books_def\<close>)
qed

lemma saves_save_result: "keeps ks s \<Longrightarrow> saves key Some ks (Ok r, save_result key (Some r) s)"
  by (simp add: saves_def keeps_but_def save_result_def keeps_def same_books_def)

lemma saves_appsEmulator: "saves key Some ks (appsEmulator fuel env g key ks)"
  unfolding appsEmulator_def by (rule saves_seq) (simp_all add: keeping saves_save_result)

lemma saves_HorizontalEmulator: "saves key Some ks (HorizontalEmulator fuel env g key ks)"
  unfolding HorizontalEmulator_def by (rule saves_seq) (simp_all add: keeping saves_save_result)

lemma saves_stays: "r = Err e \<or> r = Panic p \<or> r = Hang \<Longrightarrow> saves key result ks (r, ks)"
  by (auto simp: saves_def keeps_but_def)

lemma saves_create_pods:
  "saves key Some ks (seq (create_pods f ps (clean_up ks)) (\<lambda>_ ks4. (Ok r, save_result key (Some r) ks4)) id)"
  by (rule saves_seq) (simp_all add: saves_save_result keeps_trans [OF keeps_clean_up keeps_create_pods])

lemma saves_appsPodEmulator: "saves key Some ks (appsPodEmulator fuel env g key ks)"
proof (cases "GetAppsPod (ag_PodsConfig g) ks")
  case (Ok x)
  obtain old new where x: "x = (old, new)" by fastforce
  have "saves key Some ks (seq (delete_pods (Wrap ''unable create pod '') old ks)
            (\<lambda>_ ks1. seq (run_apps fuel env (map pod_again new) [] ks1)
               (\<lambda>reportlist ks2. seq (create_pods (Wrap ''unable create pod '') old (clean_up ks2))
                  (\<lambda>_ ks3. (Ok reportlist, save_result key (Some reportlist) ks3)) id) id) id)"
    by (intro saves_seq [of ks] saves_seq [of s "run_apps fuel env aps acc s" for s aps acc] keeping saves_create_pods)
  then show ?thesis by (simp add: appsPodEmulator_def Ok x)
qed (simp_all add: appsPodEmulator_def saves_stays)

lemma saves_VerticalEmulator: "saves key Some ks (VerticalEmulator fuel env g key ks)"
  unfolding VerticalEmulator_def
  by (intro saves_seq [of s "delete_pods f ps s" for s f ps] saves_seq [of s "run_apps fuel env aps acc s" for s aps acc]
      saves_seq [of s "vertical_retry fuel env aps acc s" for s aps acc] keeping saves_create_pods)

lemma saves_SavePrediction: "keeps ks s \<Longrightarrow> saves key id ks (Ok r, SavePrediction env access key mn mx pn r s)"
  by (simp add: saves_def keeps_but_def keeps_def same_books_def SavePrediction_def)

lemma keeps_probe: "keeps ks (snd (or_nil (CreateApps fuel env apps ks)))"
  by (simp add: keeping)

lemma saves_last_try: "saves key id ks (last_try fuel env g key be bp ks)"
  unfolding last_try_def
  by (rule saves_seq) (simp_all add: saves_SavePrediction keeps_trans [OF keeps_DeleteNodes keeps_CreateApps])

lemma saves_prediction_loop: "saves key id ks (prediction_loop n fuel env g key s be bp (cfg, ks))"
proof (induction n arbitrary: s be bp cfg ks)
  case (Suc n)
  obtain r cfg1 ks1 where c: "CreateFakeNode fuel env (predictionNodeCount s) (cfg, ks) = (r, (cfg1, ks1))"
    using prod_cases3 by blast
  have k: "keeps ks ks1" using keeps_CreateFakeNode [of ks fuel env "predictionNodeCount s" cfg] c by simp
  have sv: "saves key id ks m" if "saves key id ks1 m" for m
    using that k keeps_then_but [OF k]
    by (auto simp: saves_def keeps_def same_books_def split: res.splits)
  show ?case
  proof (cases r)
    case (Ok access)
    show ?thesis unfolding prediction_loop.simps c Ok prod.case res.case
    proof (rule sv, rule saves_seq [OF keeps_probe])
      fix sp ks2
      show "saves key id ks2 (let go = PredictionGo sp;
                   be = (if go then ReportList sp else be);
                   bp = (if go then access else bp)
               in case search_next (search_update go s) of
                    Found s' \<Rightarrow>
                      (let ks3 = DeleteNodes ks2 in
                       if go
                       then (Ok (ReportList sp), SavePrediction env access key (minNode s') (maxNode s')
                               (predictionNodeCount s') (ReportList sp) ks3)
                       else (Ok be, SavePrediction env bp key (minNode s') (maxNode s')
                               (predictionNodeCount s') be ks3))
                  | AtZero s' \<Rightarrow> last_try fuel env g key be bp ks2
                  | Again s' \<Rightarrow> prediction_loop n fuel env g key s' be bp (cfg1, ks2))"
        by (cases "search_next (search_update (PredictionGo sp) s)")
          (simp_all add: Let_def saves_SavePrediction keeps_DeleteNodes saves_last_try Suc.IH)
    qed
  next
    case (Err e)
    show ?thesis unfolding prediction_loop.simps c Err prod.case res.case by (rule sv [OF saves_stays]) simp
  next
    case (Panic p)
    show ?thesis unfolding prediction_loop.simps c Panic prod.case res.case by (rule sv [OF saves_stays]) simp
  next
    case Hang
    show ?thesis unfolding prediction_loop.simps c Hang prod.case res.case by (rule sv [OF saves_stays]) simp
  qed
qed (simp add: saves_stays)

lemma saves_PredictionEmulator: "saves key id ks (PredictionEmulator n fuel env g key ks)"
  by (simp add: PredictionEmulator_def Let_def saves_prediction_loop)

end
