(* ===== verification/Sync.thy ===== *)
theory Sync
  imports Nodes
begin

text \<open>
  Copying the real cluster: \<open>SyncWithClient\<close> and the eight watchers of \<open>simulator.go\<close>.

  The real cluster is seen through what its client returns: for the copy the parameter \<open>client\<close>, one
  list (or error) per resource; for the watchers the events the informer delivers. Informers call
  their handler for one event after the other. The wrapper \<open>FilteringResourceEventHandler\<close> is that of
  \<open>vendor/k8s.io/client-go/tools/cache/controller.go\<close>. A deletion that the informer has missed
  and finds later is delivered as a \<open>DeletedFinalStateUnknown\<close>.

  The locale \<open>watcher\<close> is the contract of a watcher: the effect of one event on the object it is
  about, and a relation to the real cluster that it keeps. It is interpreted on \<open>NodeWatch\<close>, on
  \<open>PodWatch\<close> and on the six watchers of storage objects.
\<close>

section \<open>\<open>SyncWithClient\<close>\<close>

text \<open>The resources in the order of the code, with the names its error messages use.\<close>

definition sync_table :: "(gvr \<times> string \<times> string) list" where
  "sync_table =
     [(Pods, ''pods'', ''pod''), (Nodes, ''nodes'', ''node''), (Services, ''services'', ''service''),
      (PersistentVolumeClaims, ''pvcs'', ''pvc''), (PersistentVolumes, ''pvs'', ''pv''),
      (ReplicationControllers, ''RCs'', ''RC''), (PodDisruptionBudgets, ''PDBs'', ''PDB''),
      (ReplicaSets, ''replicas sets'', ''replica set''), (StatefulSets, ''stateful sets'', ''stateful set''),
      (StorageClasses, ''storage classes'', ''storage class''), (CSINodes, ''csinode'', ''csinode''),
      (CSIDrivers, ''csi drivers'', ''csi dirvers''), (VolumeAttachments, ''volumeAttachments'', ''volumeAttachments'')]"

text \<open>Pending pods are left out; everything else is copied.\<close>

fun copied :: "kobj \<Rightarrow> bool" where
  "copied (PodObj p) \<longleftrightarrow> Phase (pod_Status p) \<noteq> PodPending"
| "copied _ \<longleftrightarrow> True"

fun sync_each ::
  "(gvr \<Rightarrow> api_error + kobj list) \<Rightarrow> (gvr \<times> string \<times> string) list \<Rightarrow> kubesim \<Rightarrow> (kubesim, unit) outcome" where
  "sync_each client [] ks = (Ok (), ks)"
| "sync_each client ((g, plural, singular) # tab) ks =
     (case client g of
        Inl e \<Rightarrow> (Err (Wrap (''unable to list '' @ plural) (ApiErr e)), ks)
      | Inr items \<Rightarrow>
          (case create_each (create_obj g) (filter copied items) (externalkubeclient ks) of
             (Some e, t) \<Rightarrow> (Err (Wrap (''unable to copy '' @ singular) (ApiErr e)), ks\<lparr>externalkubeclient := t\<rparr>)
           | (None, t) \<Rightarrow> sync_each client tab (ks\<lparr>externalkubeclient := t\<rparr>)))"

definition SyncWithClient :: "(gvr \<Rightarrow> api_error + kobj list) \<Rightarrow> kubesim \<Rightarrow> (kubesim, unit) outcome" where
  "SyncWithClient client ks = sync_each client sync_table ks"

section \<open>Events and handlers\<close>

text \<open>What an informer hands to a handler: a pointer to an object, a tombstone, or anything else.\<close>

datatype iobj = Obj gvr kobj | DeletedFinalStateUnknown gvr kobj | Foreign

text \<open>\<open>OnUpdate\<close> carries whether the old and the new object are the same pointer.\<close>

datatype event = OnAdd iobj | OnUpdate bool iobj iobj | OnDelete iobj

type_synonym handler = "iobj \<Rightarrow> tracker \<Rightarrow> (tracker, unit) outcome"

record handler_funcs =
  AddFunc :: handler
  UpdateFunc :: "(bool \<Rightarrow> iobj \<Rightarrow> handler) option"
  DeleteFunc :: handler

definition call_update :: "handler_funcs \<Rightarrow> bool \<Rightarrow> iobj \<Rightarrow> handler" where
  "call_update h same old new t = (case UpdateFunc h of None \<Rightarrow> (Ok (), t) | Some f \<Rightarrow> f same old new t)"

fun filtering :: "(iobj \<Rightarrow> bool) \<Rightarrow> handler_funcs \<Rightarrow> event \<Rightarrow> tracker \<Rightarrow> (tracker, unit) outcome" where
  "filtering flt h (OnAdd x) t = (if flt x then AddFunc h x t else (Ok (), t))"
| "filtering flt h (OnUpdate same old new) t =
     (if flt new \<and> flt old then call_update h same old new t
      else if flt new \<and> \<not> flt old then AddFunc h new t
      else if \<not> flt new \<and> flt old then DeleteFunc h old t
      else (Ok (), t))"
| "filtering flt h (OnDelete x) t = (if flt x then DeleteFunc h x t else (Ok (), t))"

text \<open>Errors of the simulated cluster are logged.\<close>

fun log_error :: "tracker \<Rightarrow> api_error + tracker \<Rightarrow> (tracker, unit) outcome" where
  "log_error t (Inl e) = (Ok (), t)"
| "log_error t (Inr t') = (Ok (), t')"

text \<open>The filter of all watchers but that of pods: the type, also inside a tombstone.\<close>

fun of_kind :: "gvr \<Rightarrow> iobj \<Rightarrow> bool" where
  "of_kind g (Obj h x) \<longleftrightarrow> h = g"
| "of_kind g (DeletedFinalStateUnknown h x) \<longleftrightarrow> h = g"
| "of_kind g Foreign \<longleftrightarrow> False"

text \<open>\<open>AddFunc\<close> and \<open>DeleteFunc\<close> take pointers of their type only; a tombstone falls through.\<close>

fun add_missing :: "gvr \<Rightarrow> handler" where
  "add_missing g (Obj h x) t =
     (if h = g
      then
        (case tracker_Get g (obj_namespace x) (obj_name x) t of
           Inl e \<Rightarrow> log_error t (create_obj g x t)
         | Inr y \<Rightarrow> (Ok (), t))
      else (Ok (), t))"
| "add_missing g _ t = (Ok (), t)"

fun delete_seen :: "gvr \<Rightarrow> handler" where
  "delete_seen g (Obj h x) t =
     (if h = g then log_error t (tracker_Delete g (obj_namespace x) (obj_name x) t) else (Ok (), t))"
| "delete_seen g _ t = (Ok (), t)"

fun update_node :: "bool \<Rightarrow> iobj \<Rightarrow> handler" where
  "update_node same old (Obj h x) t = (if h = Nodes then log_error t (update_obj Nodes x t) else (Ok (), t))"
| "update_node same old _ t = (Ok (), t)"

text \<open>
  The type assertions of the pod watcher drop their result: on anything but two pods the pointers
  are nil and taking the address of their \<open>Spec\<close> panics. The addresses differ unless the pointers
  are the same.
\<close>

fun update_pod :: "bool \<Rightarrow> iobj \<Rightarrow> handler" where
  "update_pod same (Obj Pods y) (Obj Pods x) t =
     (if \<not> same then log_error t (update_obj Pods x t) else (Ok (), t))"
| "update_pod same _ _ t = (Panic NilDereference, t)"

fun placed :: "kobj \<Rightarrow> bool" where
  "placed (PodObj p) \<longleftrightarrow> NodeName (pod_Spec p) \<noteq> [] \<or> NominatedNodeName (pod_Status p) \<noteq> []"
| "placed _ \<longleftrightarrow> False"

fun placed_pod :: "iobj \<Rightarrow> bool" where
  "placed_pod (Obj g x) \<longleftrightarrow> g = Pods \<and> placed x"
| "placed_pod (DeletedFinalStateUnknown g x) \<longleftrightarrow> g = Pods"
| "placed_pod Foreign \<longleftrightarrow> False"

section \<open>The watchers\<close>

definition copies :: "gvr \<Rightarrow> handler_funcs" where
  "copies g = \<lparr>AddFunc = add_missing g, UpdateFunc = None, DeleteFunc = delete_seen g\<rparr>"

definition PVWatch :: "event \<Rightarrow> tracker \<Rightarrow> (tracker, unit) outcome" where
  "PVWatch = filtering (of_kind PersistentVolumes) (copies PersistentVolumes)"

definition PVCWatch :: "event \<Rightarrow> tracker \<Rightarrow> (tracker, unit) outcome" where
  "PVCWatch = filtering (of_kind PersistentVolumeClaims) (copies PersistentVolumeClaims)"

definition StorageClassWatch :: "event \<Rightarrow> tracker \<Rightarrow> (tracker, unit) outcome" where
  "StorageClassWatch = filtering (of_kind StorageClasses) (copies StorageClasses)"

definition CSINodeWatch :: "event \<Rightarrow> tracker \<Rightarrow> (tracker, unit) outcome" where
  "CSINodeWatch = filtering (of_kind CSINodes) (copies CSINodes)"

definition CSIDriverWatch :: "event \<Rightarrow> tracker \<Rightarrow> (tracker, unit) outcome" where
  "CSIDriverWatch = filtering (of_kind CSIDrivers) (copies CSIDrivers)"

definition VolumeAttachmentsWatch :: "event \<Rightarrow> tracker \<Rightarrow> (tracker, unit) outcome" where
  "VolumeAttachmentsWatch = filtering (of_kind VolumeAttachments) (copies VolumeAttachments)"

definition NodeWatch :: "event \<Rightarrow> tracker \<Rightarrow> (tracker, unit) outcome" where
  "NodeWatch = filtering (of_kind Nodes)
     \<lparr>AddFunc = add_missing Nodes, UpdateFunc = Some update_node, DeleteFunc = delete_seen Nodes\<rparr>"

definition PodWatch :: "event \<Rightarrow> tracker \<Rightarrow> (tracker, unit) outcome" where
  "PodWatch = filtering placed_pod
     \<lparr>AddFunc = add_missing Pods, UpdateFunc = Some update_pod, DeleteFunc = delete_seen Pods\<rparr>"

text \<open>An event carries objects of the Go types it names.\<close>

fun iobj_ok :: "iobj \<Rightarrow> bool" where
  "iobj_ok (Obj g x) \<longleftrightarrow> kind_ok g x"
| "iobj_ok (DeletedFinalStateUnknown g x) \<longleftrightarrow> kind_ok g x"
| "iobj_ok Foreign \<longleftrightarrow> True"

fun event_ok :: "event \<Rightarrow> bool" where
  "event_ok (OnAdd x) \<longleftrightarrow> iobj_ok x"
| "event_ok (OnUpdate same old new) \<longleftrightarrow> iobj_ok old \<and> iobj_ok new"
| "event_ok (OnDelete x) \<longleftrightarrow> iobj_ok x"

fun run_events :: "(event \<Rightarrow> tracker \<Rightarrow> (tracker, unit) outcome) \<Rightarrow> event list \<Rightarrow> tracker \<Rightarrow> (tracker, unit) outcome" where
  "run_events w [] t = (Ok (), t)"
| "run_events w (e # es) t = seq (w e t) (\<lambda>_ t'. run_events w es t') id"

definition storage_watchers :: "(gvr \<times> (event \<Rightarrow> tracker \<Rightarrow> (tracker, unit) outcome)) list" where
  "storage_watchers = [(PersistentVolumes, PVWatch), (PersistentVolumeClaims, PVCWatch), (StorageClasses, StorageClassWatch),
     (CSINodes, CSINodeWatch), (CSIDrivers, CSIDriverWatch), (VolumeAttachments, VolumeAttachmentsWatch)]"

section \<open>The real cluster and what its informers report\<close>

text \<open>
  One resource of the real cluster is a map; \<open>Resynced\<close> is the periodic replay of an unchanged object,
  \<open>Forgotten\<close> a deletion whose event was missed.
\<close>

datatype change = Created kobj | Modified kobj kobj | Resynced kobj | Removed kobj | Forgotten kobj

fun change_key :: "change \<Rightarrow> key" where
  "change_key (Created x) = obj_key x"
| "change_key (Modified old x) = obj_key x"
| "change_key (Resynced x) = obj_key x"
| "change_key (Removed x) = obj_key x"
| "change_key (Forgotten x) = obj_key x"

fun notify :: "gvr \<Rightarrow> change \<Rightarrow> event" where
  "notify g (Created x) = OnAdd (Obj g x)"
| "notify g (Modified old x) = OnUpdate False (Obj g old) (Obj g x)"
| "notify g (Resynced x) = OnUpdate True (Obj g x) (Obj g x)"
| "notify g (Removed x) = OnDelete (Obj g x)"
| "notify g (Forgotten x) = OnDelete (DeletedFinalStateUnknown g x)"

fun apply_change :: "change \<Rightarrow> kobj option \<Rightarrow> kobj option" where
  "apply_change (Created x) r = Some x"
| "apply_change (Modified old x) r = Some x"
| "apply_change (Resynced x) r = r"
| "apply_change (Removed x) r = None"
| "apply_change (Forgotten x) r = None"

fun change_ok :: "gvr \<Rightarrow> change \<Rightarrow> bool" where
  "change_ok g (Modified old x) \<longleftrightarrow> kind_ok g old \<and> kind_ok g x \<and> obj_key old = obj_key x"
| "change_ok g (Created x) \<longleftrightarrow> kind_ok g x"
| "change_ok g (Resynced x) \<longleftrightarrow> kind_ok g x"
| "change_ok g (Removed x) \<longleftrightarrow> kind_ok g x"
| "change_ok g (Forgotten x) \<longleftrightarrow> kind_ok g x"

fun possible :: "change \<Rightarrow> kobj option \<Rightarrow> bool" where
  "possible (Created x) r \<longleftrightarrow> r = None"
| "possible (Modified old x) r \<longleftrightarrow> r = Some old"
| "possible (Resynced x) r \<longleftrightarrow> r = Some x"
| "possible (Removed x) r \<longleftrightarrow> r = Some x"
| "possible (Forgotten x) r \<longleftrightarrow> r = Some x"

fun forgotten :: "change \<Rightarrow> bool" where
  "forgotten (Forgotten x) \<longleftrightarrow> True"
| "forgotten _ \<longleftrightarrow> False"

text \<open>The objects whose deletion was missed at some time.\<close>

definition missed :: "change list \<Rightarrow> key set" where
  "missed cs = change_key ` set (filter forgotten cs)"

fun history :: "gvr \<Rightarrow> change list \<Rightarrow> (key \<rightharpoonup> kobj) \<Rightarrow> bool" where
  "history g [] m \<longleftrightarrow> True"
| "history g (c # cs) m \<longleftrightarrow> change_ok g c \<and> possible c (m (change_key c)) \<and>
     history g cs (m(change_key c := apply_change c (m (change_key c))))"

fun cluster_after :: "change list \<Rightarrow> (key \<rightharpoonup> kobj) \<Rightarrow> (key \<rightharpoonup> kobj)" where
  "cluster_after [] m = m"
| "cluster_after (c # cs) m = cluster_after cs (m(change_key c := apply_change c (m (change_key c))))"

definition stored :: "kobj list \<Rightarrow> key \<rightharpoonup> kobj" where
  "stored xs = map_of (map (\<lambda>x. (obj_key x, x)) xs)"

lemma stored_simps [simp]: "stored [] = Map.empty" "stored (x # xs) = (stored xs)(obj_key x \<mapsto> x)"
  by (simp_all add: stored_def)

lemma stored_mem: "distinct (map obj_key xs) \<Longrightarrow> stored xs k = Some x \<longleftrightarrow> x \<in> set xs \<and> k = obj_key x"
  by (induction xs) auto

lemma stored_filter:
  "distinct (map obj_key xs) \<Longrightarrow>
   stored (filter P xs) k = (case stored xs k of None \<Rightarrow> None | Some x \<Rightarrow> if P x then Some x else None)"
  by (induction xs) (auto split: option.splits simp: stored_mem image_iff)

lemma history_ok: "history g cs m \<Longrightarrow> list_all (change_ok g) cs"
  by (induction cs arbitrary: m) auto

lemma run_events_append:
  "run_events w (es @ fs) t = seq (run_events w es t) (\<lambda>_ t'. run_events w fs t') id"
proof (induction es arbitrary: t)
  case (Cons e es)
  obtain r t1 where "w e t = (r, t1)" by fastforce
  with Cons show ?case by (cases r) auto
qed simp

section \<open>The effect of the handlers\<close>

text \<open>A store operation that only changes the object at one key of one resource.\<close>

definition at_key :: "gvr \<Rightarrow> key \<Rightarrow> (kobj option \<Rightarrow> kobj option) \<Rightarrow> tracker \<Rightarrow> (tracker, unit) outcome \<Rightarrow> bool" where
  "at_key g k f t m \<longleftrightarrow> (\<exists>t'. m = (Ok (), t') \<and> tracker_wf t' \<and> objs t' = (objs t)(g := (objs t g)(k := f (objs t g k))))"

lemma at_keyI: "tracker_wf t' \<Longrightarrow> objs t' = (objs t)(g := (objs t g)(k := f (objs t g k))) \<Longrightarrow> at_key g k f t (Ok (), t')"
  by (auto simp: at_key_def)

lemma at_key_same: "tracker_wf t \<Longrightarrow> f (objs t g k) = objs t g k \<Longrightarrow> at_key g k f t (Ok (), t)"
  by (rule at_keyI) (auto simp: fun_eq_iff)

fun keep_or :: "kobj \<Rightarrow> kobj option \<Rightarrow> kobj option" where
  "keep_or x None = Some x"
| "keep_or x (Some y) = Some y"

lemma add_missing_effect:
  assumes wf: "tracker_wf t" and k: "kind_ok g x"
  shows "at_key g (obj_key x) (keep_or x) t (add_missing g (Obj g x) t)"
proof (cases "objs t g (obj_key x)")
  case None
  obtain t' where "create_obj g x t = Inr t'" "tracker_wf t'" "objs t' = (objs t)(g := (objs t g)(obj_key x \<mapsto> x))"
    using ts.create_new [OF wf k None] by blast
  then show ?thesis
    using None by (auto simp: tracker_Get_def obj_key_def intro: at_keyI)
next
  case (Some y)
  then show ?thesis
    using wf by (auto simp: tracker_Get_def obj_key_def intro: at_key_same)
qed

lemma delete_seen_effect:
  assumes wf: "tracker_wf t" and k: "obj_key x = k"
  shows "at_key g k (\<lambda>_. None) t (delete_seen g (Obj g x) t)"
proof -
  have d: "tracker_Delete g (obj_namespace x) (obj_name x) t = delete_key g (obj_key x) t"
    by (simp add: delete_key_def obj_key_def)
  show ?thesis
  proof (cases "objs t g (obj_key x)")
    case None
    then show ?thesis
      using ts.delete_new [OF wf None] wf k by (auto simp: d intro: at_key_same)
  next
    case (Some y)
    obtain t' where "delete_key g (obj_key x) t = Inr t'" "tracker_wf t'" "objs t' = (objs t)(g := (objs t g)(obj_key x := None))"
      using ts.delete_old [OF wf, of g "obj_key x"] Some by auto
    then show ?thesis using k by (auto simp: d intro: at_keyI)
  qed
qed

lemma delete_seen_tombstone: "delete_seen g (DeletedFinalStateUnknown h x) t = (Ok (), t)"
  by simp

lemma update_effect:
  assumes wf: "tracker_wf t" and k: "kind_ok g x"
  shows "at_key g (obj_key x) (map_option (\<lambda>_. x)) t (log_error t (update_obj g x t))"
proof (cases "objs t g (obj_key x)")
  case None
  then show ?thesis
    using ts.update_new [OF wf None] wf by (auto intro: at_key_same)
next
  case (Some y)
  obtain t' where "update_obj g x t = Inr t'" "tracker_wf t'" "objs t' = (objs t)(g := (objs t g)(obj_key x \<mapsto> x))"
    using ts.update_old [OF wf k] Some by auto
  then show ?thesis using Some by (auto intro: at_keyI)
qed

lemmas watch_effects = add_missing_effect delete_seen_effect update_effect

section \<open>The contract of a watcher\<close>

text \<open>
  \<open>eff c\<close> is the effect of change \<open>c\<close> on the simulated object at its key, \<open>rel\<close> the relation between the
  real and the simulated object that the watcher keeps.
\<close>

locale watcher =
  fixes g :: gvr
    and watch :: "event \<Rightarrow> tracker \<Rightarrow> (tracker, unit) outcome"
    and eff :: "change \<Rightarrow> kobj option \<Rightarrow> kobj option"
    and rel :: "kobj option \<Rightarrow> kobj option \<Rightarrow> bool"
    and idle :: "change \<Rightarrow> bool"
  assumes effect: "tracker_wf t \<Longrightarrow> change_ok g c \<Longrightarrow> at_key g (change_key c) (eff c) t (watch (notify g c) t)"
    and keeps_rel: "change_ok g c \<Longrightarrow> possible c r \<Longrightarrow> \<not> forgotten c \<Longrightarrow> rel r s \<Longrightarrow> rel (apply_change c r) (eff c s)"
    and idles: "idle c \<Longrightarrow> eff c s = s"
begin

text \<open>Whatever is reported, the watcher goes on, and touches only the objects reported.\<close>

lemma run_frame:
  "tracker_wf t \<Longrightarrow> list_all (change_ok g) cs \<Longrightarrow>
   \<exists>t'. run_events watch (map (notify g) cs) t = (Ok (), t') \<and> tracker_wf t' \<and> (\<forall>h. h \<noteq> g \<longrightarrow> objs t' h = objs t h) \<and>
     (\<forall>k. k \<notin> change_key ` set (filter (Not \<circ> idle) cs) \<longrightarrow> objs t' g k = objs t g k)"
proof (induction cs arbitrary: t)
  case (Cons c cs)
  then have "change_ok g c" "list_all (change_ok g) cs" by simp_all
  from effect [OF Cons.prems(1) this(1)] obtain t1 where t1: "watch (notify g c) t = (Ok (), t1)" "tracker_wf t1"
    "objs t1 = (objs t)(g := (objs t g)(change_key c := eff c (objs t g (change_key c))))"
    by (auto simp: at_key_def)
  obtain t' where t': "run_events watch (map (notify g) cs) t1 = (Ok (), t')" "tracker_wf t'"
    "\<forall>h. h \<noteq> g \<longrightarrow> objs t' h = objs t1 h"
    "\<forall>k. k \<notin> change_key ` set (filter (Not \<circ> idle) cs) \<longrightarrow> objs t' g k = objs t1 g k"
    using Cons.IH [OF t1(2) \<open>list_all (change_ok g) cs\<close>] by blast
  have "objs t1 g k = objs t g k" if "k \<notin> change_key ` set (filter (Not \<circ> idle) (c # cs))" for k
  proof (cases "idle c")
    case True
    then show ?thesis by (simp add: t1(3) idles)
  next
    case False
    with that show ?thesis by (simp add: t1(3))
  qed
  then have "\<forall>k. k \<notin> change_key ` set (filter (Not \<circ> idle) (c # cs)) \<longrightarrow> objs t' g k = objs t g k"
    using t'(4) by simp
  moreover have "\<forall>h. h \<noteq> g \<longrightarrow> objs t' h = objs t h" using t'(3) by (simp add: t1(3))
  moreover have "run_events watch (map (notify g) (c # cs)) t = (Ok (), t')" by (simp add: t1(1) t'(1))
  ultimately show ?case using t'(2) by blast
qed simp

text \<open>On any set of keys on which the relation holds and no deletion is missed, it goes on to hold.\<close>

lemma run_mirror:
  "tracker_wf t \<Longrightarrow> history g cs m \<Longrightarrow> K \<inter> missed cs = {} \<Longrightarrow> \<forall>k \<in> K. rel (m k) (objs t g k) \<Longrightarrow>
   \<exists>t'. run_events watch (map (notify g) cs) t = (Ok (), t') \<and> tracker_wf t' \<and>
     (\<forall>k \<in> K. rel (cluster_after cs m k) (objs t' g k))"
proof (induction cs arbitrary: t m)
  case (Cons c cs)
  let ?m = "m(change_key c := apply_change c (m (change_key c)))"
  have c: "change_ok g c" "possible c (m (change_key c))" "history g cs ?m" "K \<inter> missed cs = {}"
    using Cons.prems(2,3) by (auto simp: missed_def)
  have seen: "\<not> forgotten c" if "change_key c \<in> K" using Cons.prems(3) that by (auto simp: missed_def)
  from effect [OF Cons.prems(1) c(1)] obtain t1 where t1: "watch (notify g c) t = (Ok (), t1)" "tracker_wf t1"
    "objs t1 = (objs t)(g := (objs t g)(change_key c := eff c (objs t g (change_key c))))"
    by (auto simp: at_key_def)
  have "rel (?m k) (objs t1 g k)" if "k \<in> K" for k
    using Cons.prems(4) that keeps_rel [OF c(1,2)] seen by (cases "k = change_key c") (simp_all add: t1(3))
  then obtain t' where "run_events watch (map (notify g) cs) t1 = (Ok (), t')" "tracker_wf t'"
    "\<forall>k \<in> K. rel (cluster_after cs ?m k) (objs t' g k)"
    using Cons.IH [OF t1(2) c(3,4)] by blast
  then show ?case by (simp add: t1(1))
qed simp

text \<open>The first events of an informer: one per object that exists when it starts.\<close>

lemma run_created:
  "tracker_wf t \<Longrightarrow> distinct (map obj_key xs) \<Longrightarrow> list_all (kind_ok g) xs \<Longrightarrow>
   \<exists>t'. run_events watch (map (\<lambda>x. OnAdd (Obj g x)) xs) t = (Ok (), t') \<and> tracker_wf t' \<and> (\<forall>h. h \<noteq> g \<longrightarrow> objs t' h = objs t h) \<and>
     (\<forall>k. objs t' g k = (case stored xs k of None \<Rightarrow> objs t g k | Some x \<Rightarrow> eff (Created x) (objs t g k)))"
proof (induction xs arbitrary: t)
  case (Cons x xs)
  then have x: "change_ok g (Created x)" "list_all (kind_ok g) xs" "distinct (map obj_key xs)" "stored xs (obj_key x) = None"
    using stored_mem [of xs "obj_key x"] by (auto simp: image_iff) (metis option.exhaust)
  from effect [OF Cons.prems(1) x(1)] obtain t1 where t1: "watch (OnAdd (Obj g x)) t = (Ok (), t1)" "tracker_wf t1"
    "objs t1 = (objs t)(g := (objs t g)(obj_key x := eff (Created x) (objs t g (obj_key x))))"
    by (auto simp: at_key_def)
  obtain t' where t': "run_events watch (map (\<lambda>x. OnAdd (Obj g x)) xs) t1 = (Ok (), t')" "tracker_wf t'"
    "\<forall>h. h \<noteq> g \<longrightarrow> objs t' h = objs t1 h"
    "\<forall>k. objs t' g k = (case stored xs k of None \<Rightarrow> objs t1 g k | Some x \<Rightarrow> eff (Created x) (objs t1 g k))"
    using Cons.IH [OF t1(2) x(3,2)] by blast
  have "\<forall>k. objs t' g k = (case stored (x # xs) k of None \<Rightarrow> objs t g k | Some x \<Rightarrow> eff (Created x) (objs t g k))"
    using x(4) by (auto simp: t'(4) t1(3) split: option.splits)
  moreover have "\<forall>h. h \<noteq> g \<longrightarrow> objs t' h = objs t h" using t'(3) by (simp add: t1(3))
  moreover have "run_events watch (map (\<lambda>x. OnAdd (Obj g x)) (x # xs)) t = (Ok (), t')" by (simp add: t1(1) t'(1))
  ultimately show ?case using t'(2) by blast
qed simp

text \<open>
  A watcher started on a copy of the cluster: the informer first reports the objects \<open>xs\<close> that exist,
  then the changes. The copy need only be right where the first report does not repair it.
\<close>

lemma run_started:
  assumes "tracker_wf t" and "distinct (map obj_key xs)" and "list_all (kind_ok g) xs"
    and "history g cs (stored xs)" and "K \<inter> missed cs = {}"
    and "\<forall>k \<in> K. rel (stored xs k) (case stored xs k of None \<Rightarrow> objs t g k | Some x \<Rightarrow> eff (Created x) (objs t g k))"
  shows "\<exists>t'. run_events watch (map (\<lambda>x. OnAdd (Obj g x)) xs @ map (notify g) cs) t = (Ok (), t') \<and> tracker_wf t' \<and>
    (\<forall>k \<in> K. rel (cluster_after cs (stored xs) k) (objs t' g k)) \<and>
    (\<forall>k. k \<notin> change_key ` set (filter (Not \<circ> idle) cs) \<longrightarrow>
      objs t' g k = (case stored xs k of None \<Rightarrow> objs t g k | Some x \<Rightarrow> eff (Created x) (objs t g k)))"
proof -
  obtain t1 where t1: "run_events watch (map (\<lambda>x. OnAdd (Obj g x)) xs) t = (Ok (), t1)" "tracker_wf t1"
    "\<forall>k. objs t1 g k = (case stored xs k of None \<Rightarrow> objs t g k | Some x \<Rightarrow> eff (Created x) (objs t g k))"
    using run_created [OF assms(1-3)] by blast
  have "\<forall>k \<in> K. rel (stored xs k) (objs t1 g k)" using assms(6) by (simp add: t1(3))
  with run_mirror [OF t1(2) assms(4,5)] obtain t' where "run_events watch (map (notify g) cs) t1 = (Ok (), t')" "tracker_wf t'"
    "\<forall>k \<in> K. rel (cluster_after cs (stored xs) k) (objs t' g k)" by blast
  moreover from this(1) have "\<forall>k. k \<notin> change_key ` set (filter (Not \<circ> idle) cs) \<longrightarrow> objs t' g k = objs t1 g k"
    using run_frame [OF t1(2) history_ok [OF assms(4)]] by auto
  ultimately show ?thesis using t1(3) by (simp add: run_events_append t1(1))
qed

end

text \<open>Nodes follow every event.\<close>

fun node_effect :: "change \<Rightarrow> kobj option \<Rightarrow> kobj option" where
  "node_effect (Created x) = keep_or x"
| "node_effect (Modified old x) = map_option (\<lambda>_. x)"
| "node_effect (Resynced x) = map_option (\<lambda>_. x)"
| "node_effect (Removed x) = (\<lambda>_. None)"
| "node_effect (Forgotten x) = id"

interpretation nodes: watcher Nodes NodeWatch node_effect "(=)" forgotten
proof
  fix t c r s
  show "tracker_wf t \<Longrightarrow> change_ok Nodes c \<Longrightarrow> at_key Nodes (change_key c) (node_effect c) t (NodeWatch (notify Nodes c) t)"
    by (cases c) (auto simp: NodeWatch_def call_update_def at_key_same delete_seen_tombstone intro: watch_effects simp del: add_missing.simps delete_seen.simps kind_ok.simps)
  show "change_ok Nodes c \<Longrightarrow> possible c r \<Longrightarrow> \<not> forgotten c \<Longrightarrow> r = s \<Longrightarrow> apply_change c r = node_effect c s"
    by (cases c) auto
  show "forgotten c \<Longrightarrow> node_effect c s = s"
    by (cases c) auto
qed

text \<open>Pods are mirrored while they are placed on a node.\<close>

fun pod_effect :: "change \<Rightarrow> kobj option \<Rightarrow> kobj option" where
  "pod_effect (Created x) = (if placed x then keep_or x else id)"
| "pod_effect (Modified old x) =
     (if placed x \<and> placed old then map_option (\<lambda>_. x) else if placed x then keep_or x
      else if placed old then (\<lambda>_. None) else id)"
| "pod_effect (Resynced x) = id"
| "pod_effect (Removed x) = (if placed x then (\<lambda>_. None) else id)"
| "pod_effect (Forgotten x) = id"

fun when_placed :: "kobj option \<Rightarrow> kobj option" where
  "when_placed None = None"
| "when_placed (Some x) = (if placed x then Some x else None)"

interpretation pods: watcher Pods PodWatch pod_effect "\<lambda>r s. s = when_placed r" forgotten
proof
  fix t c r s
  show "tracker_wf t \<Longrightarrow> change_ok Pods c \<Longrightarrow> at_key Pods (change_key c) (pod_effect c) t (PodWatch (notify Pods c) t)"
    by (cases c) (auto simp: PodWatch_def call_update_def at_key_same delete_seen_tombstone intro: watch_effects simp del: add_missing.simps delete_seen.simps kind_ok.simps)
  show "change_ok Pods c \<Longrightarrow> possible c r \<Longrightarrow> \<not> forgotten c \<Longrightarrow> s = when_placed r \<Longrightarrow>
      pod_effect c s = when_placed (apply_change c r)"
    by (cases c) auto
  show "forgotten c \<Longrightarrow> pod_effect c s = s"
    by (cases c) auto
qed

text \<open>The storage watchers have no update handler: they mirror which objects exist.\<close>

fun copy_effect :: "change \<Rightarrow> kobj option \<Rightarrow> kobj option" where
  "copy_effect (Created x) = keep_or x"
| "copy_effect (Modified old x) = id"
| "copy_effect (Resynced x) = id"
| "copy_effect (Removed x) = (\<lambda>_. None)"
| "copy_effect (Forgotten x) = id"

fun not_copied :: "change \<Rightarrow> bool" where
  "not_copied (Created x) \<longleftrightarrow> False"
| "not_copied (Removed x) \<longleftrightarrow> False"
| "not_copied _ \<longleftrightarrow> True"

interpretation storage: watcher g "filtering (of_kind g) (copies g)" copy_effect "\<lambda>r s. (r = None) = (s = None)" not_copied for g
proof
  fix t c r s
  show "tracker_wf t \<Longrightarrow> change_ok g c \<Longrightarrow>
      at_key g (change_key c) (copy_effect c) t (filtering (of_kind g) (copies g) (notify g c) t)"
    by (cases c) (auto simp: copies_def call_update_def at_key_same delete_seen_tombstone intro: watch_effects simp del: add_missing.simps delete_seen.simps kind_ok.simps)
  show "change_ok g c \<Longrightarrow> possible c r \<Longrightarrow> \<not> forgotten c \<Longrightarrow> (r = None) = (s = None) \<Longrightarrow>
      (apply_change c r = None) = (copy_effect c s = None)"
    by (cases c; cases s) auto
  show "not_copied c \<Longrightarrow> copy_effect c s = s"
    by (cases c) auto
qed

section \<open>The copy\<close>

abbreviation synced :: "gvr set" where
  "synced \<equiv> fst ` set sync_table"

fun listed :: "api_error + kobj list \<Rightarrow> kobj list" where
  "listed (Inl e) = []"
| "listed (Inr xs) = xs"

text \<open>A list of the real cluster that can be copied into a cluster.\<close>

definition copyable :: "(gvr \<Rightarrow> api_error + kobj list) \<Rightarrow> tracker \<Rightarrow> gvr \<Rightarrow> bool" where
  "copyable client t g \<longleftrightarrow> (\<exists>items. client g = Inr items \<and> distinct (map obj_key items) \<and>
     (\<forall>x \<in> set items. kind_ok g x \<and> objs t g (obj_key x) = None))"

lemma copyableD:
  assumes "copyable client t g"
  shows "client g = Inr (listed (client g))" and "distinct (map obj_key (listed (client g)))"
    and "list_all (kind_ok g) (listed (client g))" and "x \<in> set (listed (client g)) \<Longrightarrow> objs t g (obj_key x) = None"
  using assms by (auto simp: copyable_def list_all_iff)

definition copy_of :: "(gvr \<Rightarrow> api_error + kobj list) \<Rightarrow> gvr set \<Rightarrow> tracker \<Rightarrow> tracker \<Rightarrow> bool" where
  "copy_of client G t t' \<longleftrightarrow> tracker_wf t' \<and> (\<forall>g. objs t' g =
     (if g \<in> G then objs t g ++ stored (filter copied (listed (client g))) else objs t g))"

lemma copy_one:
  assumes "tracker_wf t" and "copyable client t g"
  shows "\<exists>t'. create_each (create_obj g) (filter copied (listed (client g))) t = (None, t') \<and> copy_of client {g} t t'"
proof -
  let ?xs = "filter copied (listed (client g))"
  note c = copyableD [OF assms(2)]
  have "distinct (map obj_key ?xs)" using c(2) by (rule distinct_map_filter)
  moreover have "\<And>x. x \<in> set ?xs \<Longrightarrow> kind_ok g x \<and> objs t g (obj_key x) = None"
    using c(3,4) by (auto simp: list_all_iff)
  ultimately obtain t' where "create_each (create_obj g) ?xs t = (None, t')" "tracker_wf t'"
    "objs t' = (objs t)(g := objs t g ++ map_of (map (\<lambda>x. (obj_key x, x)) ?xs))"
    using ts.create_each_new [OF assms(1)] by blast
  then show ?thesis by (auto simp: copy_of_def stored_def)
qed

lemma copyable_other: "objs t' g = objs t g \<Longrightarrow> copyable client t' g = copyable client t g"
  by (simp add: copyable_def)

lemma sync_each_ok:
  "tracker_wf (externalkubeclient ks) \<Longrightarrow> distinct (map fst tab) \<Longrightarrow>
   \<forall>g \<in> fst ` set tab. copyable client (externalkubeclient ks) g \<Longrightarrow>
   \<exists>t'. sync_each client tab ks = (Ok (), ks\<lparr>externalkubeclient := t'\<rparr>) \<and>
     copy_of client (fst ` set tab) (externalkubeclient ks) t'"
proof (induction tab arbitrary: ks)
  case Nil
  then show ?case by (auto simp: copy_of_def intro!: exI [of _ "externalkubeclient ks"])
next
  case (Cons e tab)
  obtain g l c where e: "e = (g, l, c)" by (cases e) auto
  let ?t = "externalkubeclient ks"
  have g: "copyable client ?t g" using Cons.prems(3) by (simp add: e)
  obtain t1 where t1: "create_each (create_obj g) (filter copied (listed (client g))) ?t = (None, t1)" "copy_of client {g} ?t t1"
    using copy_one [OF Cons.prems(1) g] by blast
  have new: "g \<notin> fst ` set tab" using Cons.prems(2) by (simp add: e)
  then have same: "objs t1 h = objs ?t h" if "h \<in> fst ` set tab" for h
    using t1(2) that by (auto simp: copy_of_def)
  let ?ks = "ks\<lparr>externalkubeclient := t1\<rparr>"
  have "tracker_wf (externalkubeclient ?ks)" using t1(2) by (simp add: copy_of_def)
  moreover have "distinct (map fst tab)" using Cons.prems(2) by simp
  moreover have "\<forall>h \<in> fst ` set tab. copyable client (externalkubeclient ?ks) h"
    using Cons.prems(3) copyable_other [OF same] by simp
  ultimately obtain t' where t': "sync_each client tab ?ks = (Ok (), ?ks\<lparr>externalkubeclient := t'\<rparr>)"
    "copy_of client (fst ` set tab) t1 t'"
    using Cons.IH [of ?ks] by auto
  have "copy_of client (fst ` set (e # tab)) ?t t'"
    using t1(2) t'(2) new by (auto simp: copy_of_def e)
  moreover have "sync_each client (e # tab) ks = (Ok (), ks\<lparr>externalkubeclient := t'\<rparr>)"
    using copyableD(1) [OF g] t1(1) t'(1) by (cases "client g") (simp_all add: e)
  ultimately show ?case by blast
qed

lemma sync_each_append:
  "sync_each client (as @ bs) ks = seq (sync_each client as ks) (\<lambda>_ ks'. sync_each client bs ks') id"
proof (induction as arbitrary: ks)
  case (Cons e as)
  obtain g l c where e: "e = (g, l, c)" by (cases e) auto
  show ?case
  proof (cases "client g")
    case (Inr items)
    obtain r t where "create_each (create_obj g) (filter copied items) (externalkubeclient ks) = (r, t)" by fastforce
    with Inr Cons show ?thesis by (cases r) (simp_all add: e)
  qed (simp add: e)
qed simp

lemma distinct_table: "distinct (map fst sync_table)"
  by (simp add: sync_table_def)

text \<open>Which objects a copy holds.\<close>

lemma copy_of_mem:
  assumes "copy_of client G t t'" and "\<forall>g \<in> G. copyable client t g"
  shows "objs t' g k = Some x \<longleftrightarrow> objs t g k = Some x \<or>
    g \<in> G \<and> x \<in> set (listed (client g)) \<and> copied x \<and> k = obj_key x"
proof (cases "g \<in> G")
  case True
  then have c: "copyable client t g" using assms(2) by blast
  have d: "distinct (map obj_key (filter copied (listed (client g))))"
    using copyableD(2) [OF c] by (rule distinct_map_filter)
  let ?s = "stored (filter copied (listed (client g))) k"
  have m: "?s = Some y \<longleftrightarrow> y \<in> set (listed (client g)) \<and> copied y \<and> k = obj_key y" for y
    using stored_mem [OF d] by auto
  have e: "objs t' g k = Some x \<longleftrightarrow> ?s = Some x \<or> ?s = None \<and> objs t g k = Some x"
    using assms(1) True by (simp add: copy_of_def map_add_Some_iff)
  have n: "?s = None" if o: "objs t g k = Some x"
  proof (rule ccontr)
    assume "?s \<noteq> None"
    then obtain y where "?s = Some y" by auto
    then have "y \<in> set (listed (client g))" "k = obj_key y" unfolding m by simp_all
    with copyableD(4) [OF c] o show False by simp
  qed
  show ?thesis unfolding e m [of x, symmetric] using True n by (auto simp: m)
next
  case False
  then show ?thesis using assms(1) by (simp add: copy_of_def)
qed

section \<open>Properties\<close>

text \<open>
  What the properties say of the real cluster, on the fields of its objects: the resources it is
  made of, the pods that are pending, and those that have a node or a nominated node.
\<close>

definition cluster_resources :: "gvr set" where
  "cluster_resources =
     {Pods, Nodes, Services, PersistentVolumeClaims, PersistentVolumes, ReplicationControllers, PodDisruptionBudgets,
      ReplicaSets, StatefulSets, StorageClasses, CSINodes, CSIDrivers, VolumeAttachments}"

definition pending_pod :: "kobj \<Rightarrow> bool" where
  "pending_pod x \<longleftrightarrow> (\<exists>p. x = PodObj p \<and> Phase (pod_Status p) = ''Pending'')"

definition on_a_node :: "kobj \<Rightarrow> bool" where
  "on_a_node x \<longleftrightarrow> (\<exists>p. x = PodObj p \<and> (NodeName (pod_Spec p) \<noteq> [] \<or> NominatedNodeName (pod_Status p) \<noteq> []))"

lemma synced_resources: "synced = cluster_resources"
  by (auto simp: sync_table_def cluster_resources_def)

lemma copied_not_pending: "copied x = (\<not> pending_pod x)"
  by (cases x) (simp_all add: pending_pod_def PodPending_def)

lemma placed_on_a_node: "placed x = on_a_node x"
  by (cases x) (simp_all add: on_a_node_def)

lemma when_placed_on_a_node: "when_placed r = (case r of Some x \<Rightarrow> if on_a_node x then Some x else None | None \<Rightarrow> None)"
  by (cases r) (simp_all add: placed_on_a_node)

text \<open>
  C26. When all lists of the real cluster succeed, \<open>SyncWithClient\<close> returns no error and the simulated
  cluster then holds what it held before and exactly the listed objects of the thirteen resources,
  without the pods that are pending.
\<close>

theorem SyncWithClient_copies:
  assumes "tracker_wf (externalkubeclient ks)" and "\<forall>g \<in> cluster_resources. copyable client (externalkubeclient ks) g"
  shows "\<exists>t'. SyncWithClient client ks = (Ok (), ks\<lparr>externalkubeclient := t'\<rparr>) \<and> tracker_wf t' \<and>
    (\<forall>g k x. objs t' g k = Some x \<longleftrightarrow> objs (externalkubeclient ks) g k = Some x \<or>
      g \<in> cluster_resources \<and> x \<in> set (listed (client g)) \<and> \<not> pending_pod x \<and> k = obj_key x)"
proof -
  note c = assms(2) [folded synced_resources]
  obtain t' where t': "SyncWithClient client ks = (Ok (), ks\<lparr>externalkubeclient := t'\<rparr>)"
    "copy_of client synced (externalkubeclient ks) t'"
    unfolding SyncWithClient_def using sync_each_ok [OF assms(1) distinct_table c] by blast
  moreover have "tracker_wf t'" using t'(2) by (simp add: copy_of_def)
  moreover have "objs t' g k = Some x \<longleftrightarrow> objs (externalkubeclient ks) g k = Some x \<or>
      g \<in> cluster_resources \<and> x \<in> set (listed (client g)) \<and> \<not> pending_pod x \<and> k = obj_key x" for g k x
    using copy_of_mem [OF t'(2) c] by (simp only: synced_resources copied_not_pending)
  ultimately show ?thesis by (intro exI [of _ t']) blast
qed

definition example_node :: "string \<Rightarrow> node" where
  "example_node nm = \<lparr>node_Name = nm, node_Labels = None, node_Capacity = [], node_Allocatable = [],
     node_Info = None, node_Conditions = [], node_Addresses = []\<rparr>"

definition small_cluster :: "gvr \<Rightarrow> api_error + kobj list" where
  "small_cluster g = Inr (case g of
      Pods \<Rightarrow> [PodObj (bound_pod (example_pod ''web'' []) ''n1'')]
    | Nodes \<Rightarrow> [NodeObj (example_node ''n1'')]
    | _ \<Rightarrow> [])"

lemma small_cluster_copyable: "copyable small_cluster empty_tracker g"
  by (cases g) (auto simp: copyable_def small_cluster_def objs_def empty_tracker_def)

text \<open>Of two pods and a replica set, all but the pending pod are copied.\<close>

definition example_replicas :: kobj where
  "example_replicas = OtherObj \<lparr>other_Name = ''web-7'', other_Namespace = ''ns'', other_Labels = None, other_Body = []\<rparr>"

definition waiting_pod :: pod where
  "waiting_pod = (example_pod ''db'' [])\<lparr>pod_Status := empty_status\<lparr>Phase := ''Pending''\<rparr>\<rparr>"

definition mixed_cluster :: "gvr \<Rightarrow> api_error + kobj list" where
  "mixed_cluster g = Inr (case g of
      Pods \<Rightarrow> [PodObj (bound_pod (example_pod ''web'' []) ''n1''), PodObj waiting_pod]
    | ReplicaSets \<Rightarrow> [example_replicas]
    | _ \<Rightarrow> [])"

lemma mixed_cluster_copyable: "copyable mixed_cluster empty_tracker g"
  by (cases g) (auto simp: copyable_def mixed_cluster_def objs_def empty_tracker_def pod_key_def waiting_pod_def example_pod_def
    bound_pod_def running_def example_replicas_def)

theorem SyncWithClient_copies_witness:
  "\<exists>t'. SyncWithClient mixed_cluster (New ''prd'' empty_tracker) = (Ok (), New ''prd'' t') \<and>
    objs t' Pods (''ns'', ''web'') = Some (PodObj (bound_pod (example_pod ''web'' []) ''n1'')) \<and>
    objs t' Pods (''ns'', ''db'') = None \<and> objs t' ReplicaSets (''ns'', ''web-7'') = Some example_replicas"
proof -
  have "tracker_wf (externalkubeclient (New ''prd'' empty_tracker))"
    "\<forall>g \<in> cluster_resources. copyable mixed_cluster (externalkubeclient (New ''prd'' empty_tracker)) g"
    by (simp_all add: tracker_wf_empty mixed_cluster_copyable)
  from SyncWithClient_copies [OF this] obtain t' where
    "SyncWithClient mixed_cluster (New ''prd'' empty_tracker) = (Ok (), (New ''prd'' empty_tracker)\<lparr>externalkubeclient := t'\<rparr>)"
    and m: "\<And>g k x. objs t' g k = Some x \<longleftrightarrow> objs (externalkubeclient (New ''prd'' empty_tracker)) g k = Some x \<or>
      g \<in> cluster_resources \<and> x \<in> set (listed (mixed_cluster g)) \<and> \<not> pending_pod x \<and> k = obj_key x"
    by blast
  then have "SyncWithClient mixed_cluster (New ''prd'' empty_tracker) = (Ok (), New ''prd'' t')"
    by (simp add: New_def)
  moreover have "objs t' Pods (''ns'', ''web'') = Some (PodObj (bound_pod (example_pod ''web'' []) ''n1''))"
    "objs t' ReplicaSets (''ns'', ''web-7'') = Some example_replicas"
    unfolding m by (simp_all add: cluster_resources_def mixed_cluster_def pending_pod_def pod_key_def example_pod_def
      bound_pod_def running_def example_replicas_def PodRunning_def obj_key_def empty_status_def)
  moreover have "objs t' Pods (''ns'', ''db'') \<noteq> Some x" for x
    unfolding m by (auto simp: mixed_cluster_def pending_pod_def waiting_pod_def pod_key_def example_pod_def bound_pod_def running_def
      objs_def empty_tracker_def)
  ultimately show ?thesis by (intro exI [of _ t']) auto
qed

text \<open>
  \<open>SyncWithClient\<close> stops at the first list that fails and returns its error under the name of the
  resource; what the resources before it held stays copied, and nothing else is.
\<close>

lemma SyncWithClient_stops:
  assumes "sync_table = before @ (g, plural, singular) # after" and "client g = Inl e"
    and "tracker_wf (externalkubeclient ks)" and "\<forall>h \<in> fst ` set before. copyable client (externalkubeclient ks) h"
  shows "\<exists>t'. SyncWithClient client ks =
      (Err (Wrap (''unable to list '' @ plural) (ApiErr e)), ks\<lparr>externalkubeclient := t'\<rparr>) \<and>
    (\<forall>h k x. objs t' h k = Some x \<longleftrightarrow> objs (externalkubeclient ks) h k = Some x \<or>
      h \<in> fst ` set before \<and> x \<in> set (listed (client h)) \<and> copied x \<and> k = obj_key x)"
proof -
  have "distinct (map fst before)" using distinct_table by (simp add: assms(1))
  then obtain t' where t': "sync_each client before ks = (Ok (), ks\<lparr>externalkubeclient := t'\<rparr>)"
    "copy_of client (fst ` set before) (externalkubeclient ks) t'"
    using sync_each_ok [OF assms(3) _ assms(4)] by blast
  have "SyncWithClient client ks = (Err (Wrap (''unable to list '' @ plural) (ApiErr e)), ks\<lparr>externalkubeclient := t'\<rparr>)"
    by (simp add: SyncWithClient_def assms(1) sync_each_append t'(1) assms(2))
  then show ?thesis using copy_of_mem [OF t'(2) assms(4)] by blast
qed

lemma copyable_other_list: "h \<noteq> g \<Longrightarrow> copyable (client(g := r)) t h = copyable client t h"
  by (simp add: copyable_def)

lemma SyncWithClient_stops_example:
  "\<exists>t'. SyncWithClient (small_cluster(Services := Inl (NotFound ''services''))) (New ''prd'' empty_tracker) =
      (Err (Wrap ''unable to list services'' (ApiErr (NotFound ''services''))), New ''prd'' t') \<and>
    objs t' Nodes (node_key (example_node ''n1'')) = Some (NodeObj (example_node ''n1''))"
proof -
  let ?c = "small_cluster(Services := Inl (NotFound ''services''))" and ?ks = "New ''prd'' empty_tracker"
  let ?b = "[(Pods, ''pods'', ''pod''), (Nodes, ''nodes'', ''node'')]"
  have t: "sync_table = ?b @ (Services, ''services'', ''service'') # drop 3 sync_table" by (simp add: sync_table_def)
  have "?c Services = Inl (NotFound ''services'')" by simp
  moreover have "tracker_wf (externalkubeclient ?ks)" by (simp add: tracker_wf_empty)
  moreover have "\<forall>h \<in> fst ` set ?b. copyable ?c (externalkubeclient ?ks) h"
    using small_cluster_copyable by (simp add: copyable_other_list del: fun_upd_apply)
  ultimately obtain t' where
    "SyncWithClient ?c ?ks = (Err (Wrap (''unable to list '' @ ''services'') (ApiErr (NotFound ''services''))), ?ks\<lparr>externalkubeclient := t'\<rparr>)"
    and m: "\<forall>h k x. objs t' h k = Some x \<longleftrightarrow> objs (externalkubeclient ?ks) h k = Some x \<or>
      h \<in> fst ` set ?b \<and> x \<in> set (listed (?c h)) \<and> copied x \<and> k = obj_key x"
    by - (drule (2) SyncWithClient_stops [OF t], elim exE conjE, rule that)
  then have "SyncWithClient ?c ?ks = (Err (Wrap ''unable to list services'' (ApiErr (NotFound ''services''))), New ''prd'' t')"
    by (simp add: New_def)
  moreover have "objs t' Nodes (node_key (example_node ''n1'')) = Some (NodeObj (example_node ''n1''))"
    unfolding m [rule_format] by (simp add: small_cluster_def)
  ultimately show ?thesis by blast
qed

text \<open>What the copy holds at a key the simulated cluster did not use before.\<close>

lemma copy_of_fresh:
  assumes "copy_of client G t t'" and "g \<in> G" and "copyable client t g" and "objs t g k = None"
  shows "objs t' g k = (case stored (listed (client g)) k of None \<Rightarrow> None | Some x \<Rightarrow> if copied x then Some x else None)"
  using assms stored_filter [OF copyableD(2) [OF assms(3)], of copied k]
  by (simp add: copy_of_def map_add_def split: option.splits)

text \<open>
  The informer of a watcher lists the real cluster once more when it starts, some time after the copy: \<open>first\<close>
  is that list. \<open>observed\<close> are the keys at which nothing went by unseen: what was copied is still there
  unchanged when the informer starts, and no deletion is missed later. (An object that appears in between is
  reported by the first list; one that changes or goes away in between is not, and neither is a deletion that
  the informer misses while it is disconnected: \<open>forgotten_object_stays\<close>.)
\<close>

definition observed :: "kobj list \<Rightarrow> kobj list \<Rightarrow> change list \<Rightarrow> key set" where
  "observed copied_list first cs = {k. stored copied_list k = None \<or> stored copied_list k = stored first k} - missed cs"

lemma first_report:
  assumes "copy_of client G t t'" and "g \<in> G" and "copyable client t g" and "objs t g k = None"
    and "k \<in> observed (listed (client g)) first cs"
  shows "objs t' g k = None \<or> (\<exists>x. stored first k = Some x \<and> stored (listed (client g)) k = Some x \<and>
    objs t' g k = (if copied x then Some x else None))"
  using copy_of_fresh [OF assms(1-4)] assms(5) by (auto simp: observed_def split: option.splits)

lemma first_report_kept:
  assumes "copy_of client G t t'" and "g \<in> G" and "copyable client t g" and "objs t g k = None"
    and "k \<in> observed (listed (client g)) first cs"
  shows "(case stored first k of None \<Rightarrow> objs t' g k | Some x \<Rightarrow> keep_or x (objs t' g k)) = stored first k"
  using first_report [OF assms] by (cases "stored first k") auto

text \<open>
  C25. The simulated nodes follow the real ones, wherever the informer sees all that happens: after
  \<open>SyncWithClient\<close> and the events of the node informer, those for the nodes that exist when it starts and those
  for any changes after that, every key that was free before the copy holds the node of the real
  cluster as it is now, or nothing when there is none. Not covered are the nodes that were modified or deleted
  between the copy and the start of the informer, and those whose deletion the informer missed.
\<close>

theorem NodeWatch_mirrors:
  assumes "tracker_wf (externalkubeclient ks)" and "\<forall>g \<in> cluster_resources. copyable client (externalkubeclient ks) g"
    and "distinct (map obj_key first)" and "list_all (kind_ok Nodes) first" and "history Nodes cs (stored first)"
  shows "\<exists>t1 t2. SyncWithClient client ks = (Ok (), ks\<lparr>externalkubeclient := t1\<rparr>) \<and>
    run_events NodeWatch (map (\<lambda>x. OnAdd (Obj Nodes x)) first @ map (notify Nodes) cs) t1 = (Ok (), t2) \<and>
    (\<forall>k \<in> observed (listed (client Nodes)) first cs. objs (externalkubeclient ks) Nodes k = None \<longrightarrow>
      objs t2 Nodes k = cluster_after cs (stored first) k)"
proof -
  let ?t = "externalkubeclient ks"
  let ?K = "{k \<in> observed (listed (client Nodes)) first cs. objs ?t Nodes k = None}"
  note cp = assms(2) [folded synced_resources]
  obtain t1 where s: "SyncWithClient client ks = (Ok (), ks\<lparr>externalkubeclient := t1\<rparr>)" "copy_of client synced ?t t1"
    unfolding SyncWithClient_def using sync_each_ok [OF assms(1) distinct_table cp] by blast
  have n: "Nodes \<in> synced" by (simp add: sync_table_def)
  then have c: "copyable client ?t Nodes" using cp by blast
  have "stored first k = (case stored first k of None \<Rightarrow> objs t1 Nodes k | Some x \<Rightarrow> node_effect (Created x) (objs t1 Nodes k))"
    if "k \<in> ?K" for k
    using first_report_kept [OF s(2) n c, of k first cs] that by (simp split: option.splits)
  moreover have "tracker_wf t1" using s(2) by (simp add: copy_of_def)
  moreover have "?K \<inter> missed cs = {}" by (auto simp: observed_def)
  ultimately obtain t2 where t2:
    "run_events NodeWatch (map (\<lambda>x. OnAdd (Obj Nodes x)) first @ map (notify Nodes) cs) t1 = (Ok (), t2)"
    "\<forall>k \<in> ?K. cluster_after cs (stored first) k = objs t2 Nodes k"
    using nodes.run_started [OF _ assms(3-5), of t1 ?K] by blast
  have "objs t2 Nodes k = cluster_after cs (stored first) k" if "k \<in> ?K" for k
    using bspec [OF t2(2) that] by (rule sym)
  then show ?thesis using s(1) t2(1) by blast
qed

definition labelled :: "string \<Rightarrow> node" where
  "labelled nm = example_node nm\<lparr>node_Labels := Some [''zone'' \<mapsto> ''a'']\<rparr>"

text \<open>Between the copy and the start of the informer the node \<open>n3\<close> appears.\<close>

theorem NodeWatch_mirrors_witness:
  "\<exists>t1 t2. SyncWithClient small_cluster (New ''prd'' empty_tracker) = (Ok (), New ''prd'' t1) \<and>
    run_events NodeWatch
      [OnAdd (Obj Nodes (NodeObj (example_node ''n1''))), OnAdd (Obj Nodes (NodeObj (example_node ''n3''))),
       OnAdd (Obj Nodes (NodeObj (example_node ''n2''))),
       OnUpdate False (Obj Nodes (NodeObj (example_node ''n1''))) (Obj Nodes (NodeObj (labelled ''n1''))),
       OnDelete (Obj Nodes (NodeObj (example_node ''n2'')))] t1 = (Ok (), t2) \<and>
    objs t2 Nodes ([], ''n1'') = Some (NodeObj (labelled ''n1'')) \<and> objs t2 Nodes ([], ''n2'') = None \<and>
    objs t2 Nodes ([], ''n3'') = Some (NodeObj (example_node ''n3''))"
proof -
  let ?ks = "New ''prd'' empty_tracker"
  let ?first = "[NodeObj (example_node ''n1''), NodeObj (example_node ''n3'')]"
  let ?cs = "[Created (NodeObj (example_node ''n2'')), Modified (NodeObj (example_node ''n1'')) (NodeObj (labelled ''n1'')),
    Removed (NodeObj (example_node ''n2''))]"
  have "tracker_wf (externalkubeclient ?ks)" "\<forall>g \<in> cluster_resources. copyable small_cluster (externalkubeclient ?ks) g"
    "distinct (map obj_key ?first)" "list_all (kind_ok Nodes) ?first" "history Nodes ?cs (stored ?first)"
    by (simp_all add: tracker_wf_empty small_cluster_copyable node_key_def example_node_def labelled_def)
  from NodeWatch_mirrors [OF this] obtain t1 t2 where
    a: "SyncWithClient small_cluster ?ks = (Ok (), ?ks\<lparr>externalkubeclient := t1\<rparr>)"
    and b: "run_events NodeWatch (map (\<lambda>x. OnAdd (Obj Nodes x)) ?first @ map (notify Nodes) ?cs) t1 = (Ok (), t2)"
    and c: "\<forall>k \<in> observed (listed (small_cluster Nodes)) ?first ?cs. objs (externalkubeclient ?ks) Nodes k = None \<longrightarrow>
      objs t2 Nodes k = cluster_after ?cs (stored ?first) k"
    by (elim exE conjE) (rule that)
  have e: "objs (externalkubeclient ?ks) Nodes k = None" for k by (simp add: objs_def empty_tracker_def)
  have o: "k \<in> observed (listed (small_cluster Nodes)) ?first ?cs" for k
    by (simp add: observed_def missed_def small_cluster_def node_key_def example_node_def)
  show ?thesis
  proof (intro exI conjI)
    show "SyncWithClient small_cluster ?ks = (Ok (), New ''prd'' t1)" using a by (simp add: New_def)
  qed (use b in \<open>simp del: run_events.simps\<close>, simp_all add: c [rule_format, OF o e] node_key_def example_node_def labelled_def)
qed

text \<open>
  C24. The simulated pods follow the real pods that have a node or a nominated node, wherever the informer sees all
  that happens: in the sense of the node watcher, every key that was free before the copy holds the real
  pod as it is now if it has a node or a nominated node, and nothing otherwise. Provided no pod of the
  list that is copied is past the pending phase without ever having had a node: such a pod is
  copied, and the watcher does not see it. Not covered are, as for nodes, the pods that were modified or deleted between
  the copy and the start of the informer, and those whose deletion the informer missed.
\<close>

theorem PodWatch_mirrors:
  assumes "tracker_wf (externalkubeclient ks)" and "\<forall>g \<in> cluster_resources. copyable client (externalkubeclient ks) g"
    and "list_all (\<lambda>x. pending_pod x \<or> on_a_node x) (listed (client Pods))"
    and "distinct (map obj_key first)" and "list_all (kind_ok Pods) first" and "history Pods cs (stored first)"
  shows "\<exists>t1 t2. SyncWithClient client ks = (Ok (), ks\<lparr>externalkubeclient := t1\<rparr>) \<and>
    run_events PodWatch (map (\<lambda>x. OnAdd (Obj Pods x)) first @ map (notify Pods) cs) t1 = (Ok (), t2) \<and>
    (\<forall>k \<in> observed (listed (client Pods)) first cs. objs (externalkubeclient ks) Pods k = None \<longrightarrow>
      objs t2 Pods k = (case cluster_after cs (stored first) k of
        Some x \<Rightarrow> if on_a_node x then Some x else None | None \<Rightarrow> None))"
proof -
  let ?t = "externalkubeclient ks"
  let ?K = "{k \<in> observed (listed (client Pods)) first cs. objs ?t Pods k = None}"
  note cp = assms(2) [folded synced_resources]
  obtain t1 where s: "SyncWithClient client ks = (Ok (), ks\<lparr>externalkubeclient := t1\<rparr>)" "copy_of client synced ?t t1"
    unfolding SyncWithClient_def using sync_each_ok [OF assms(1) distinct_table cp] by blast
  have n: "Pods \<in> synced" by (simp add: sync_table_def)
  then have c: "copyable client ?t Pods" using cp by blast
  have "copied x \<longrightarrow> placed x" if "stored (listed (client Pods)) k = Some x" for k x
    using assms(3) that stored_mem [OF copyableD(2) [OF c]]
    by (auto simp: list_all_iff copied_not_pending placed_on_a_node)
  then have "(case stored first k of None \<Rightarrow> objs t1 Pods k | Some x \<Rightarrow> pod_effect (Created x) (objs t1 Pods k)) =
      when_placed (stored first k)" if "k \<in> ?K" for k
    using first_report [OF s(2) n c, of k first cs] first_report_kept [OF s(2) n c, of k first cs] that
    by (cases "stored first k") fastforce+
  moreover have "tracker_wf t1" using s(2) by (simp add: copy_of_def)
  moreover have "?K \<inter> missed cs = {}" by (auto simp: observed_def)
  ultimately obtain t2 where t2:
    "run_events PodWatch (map (\<lambda>x. OnAdd (Obj Pods x)) first @ map (notify Pods) cs) t1 = (Ok (), t2)"
    "\<forall>k \<in> ?K. objs t2 Pods k = when_placed (cluster_after cs (stored first) k)"
    using pods.run_started [OF _ assms(4-6), of t1 ?K] by blast
  then show ?thesis using s(1) unfolding when_placed_on_a_node by blast
qed

definition nominated :: "string \<Rightarrow> string \<Rightarrow> pod" where
  "nominated nm node = (example_pod nm [])\<lparr>pod_Status := empty_status\<lparr>NominatedNodeName := node\<rparr>\<rparr>"

text \<open>The pod \<open>db\<close> has no node at first and is nominated for one then.\<close>

theorem PodWatch_mirrors_witness:
  "\<exists>t1 t2. SyncWithClient small_cluster (New ''prd'' empty_tracker) = (Ok (), New ''prd'' t1) \<and>
    run_events PodWatch
      [OnAdd (Obj Pods (PodObj (bound_pod (example_pod ''web'' []) ''n1''))), OnAdd (Obj Pods (PodObj (example_pod ''db'' []))),
       OnUpdate False (Obj Pods (PodObj (example_pod ''db'' []))) (Obj Pods (PodObj (nominated ''db'' ''n2''))),
       OnDelete (Obj Pods (PodObj (bound_pod (example_pod ''web'' []) ''n1'')))] t1 = (Ok (), t2) \<and>
    objs t2 Pods (''ns'', ''db'') = Some (PodObj (nominated ''db'' ''n2'')) \<and> objs t2 Pods (''ns'', ''web'') = None"
proof -
  let ?ks = "New ''prd'' empty_tracker"
  let ?first = "[PodObj (bound_pod (example_pod ''web'' []) ''n1'')]"
  let ?cs = "[Created (PodObj (example_pod ''db'' [])), Modified (PodObj (example_pod ''db'' [])) (PodObj (nominated ''db'' ''n2'')),
    Removed (PodObj (bound_pod (example_pod ''web'' []) ''n1''))]"
  have "tracker_wf (externalkubeclient ?ks)" "\<forall>g \<in> cluster_resources. copyable small_cluster (externalkubeclient ?ks) g"
    "list_all (\<lambda>x. pending_pod x \<or> on_a_node x) (listed (small_cluster Pods))"
    "distinct (map obj_key ?first)" "list_all (kind_ok Pods) ?first" "history Pods ?cs (stored ?first)"
    by (simp_all add: tracker_wf_empty small_cluster_copyable small_cluster_def pod_key_def example_pod_def bound_pod_def running_def
      nominated_def on_a_node_def)
  from PodWatch_mirrors [OF this] obtain t1 t2 where
    a: "SyncWithClient small_cluster ?ks = (Ok (), ?ks\<lparr>externalkubeclient := t1\<rparr>)"
    and b: "run_events PodWatch (map (\<lambda>x. OnAdd (Obj Pods x)) ?first @ map (notify Pods) ?cs) t1 = (Ok (), t2)"
    and c: "\<forall>k \<in> observed (listed (small_cluster Pods)) ?first ?cs. objs (externalkubeclient ?ks) Pods k = None \<longrightarrow>
      objs t2 Pods k = (case cluster_after ?cs (stored ?first) k of Some x \<Rightarrow> if on_a_node x then Some x else None | None \<Rightarrow> None)"
    by (elim exE conjE) (rule that)
  have e: "objs (externalkubeclient ?ks) Pods k = None" for k by (simp add: objs_def empty_tracker_def)
  have o: "k \<in> observed (listed (small_cluster Pods)) ?first ?cs" for k
    by (simp add: observed_def missed_def small_cluster_def)
  show ?thesis
  proof (intro exI conjI)
    show "SyncWithClient small_cluster ?ks = (Ok (), New ''prd'' t1)" using a by (simp add: New_def)
  qed (use b in \<open>simp del: run_events.simps\<close>, simp_all add: c [rule_format, OF o e] pod_key_def example_pod_def bound_pod_def running_def
      nominated_def on_a_node_def empty_status_def)
qed

fun existence :: "change \<Rightarrow> bool" where
  "existence (Created x) \<longleftrightarrow> True"
| "existence (Removed x) \<longleftrightarrow> True"
| "existence _ \<longleftrightarrow> False"

lemma existence_copied: "Not \<circ> not_copied = existence"
proof (rule ext)
  show "(Not \<circ> not_copied) c = existence c" for c by (cases c) simp_all
qed

text \<open>
  C39. The six watchers of storage objects mirror which objects exist, wherever the informer sees all that happens, and
  no more than that: they register no update handler, so an object that is neither created nor deleted
  after the informer started keeps the contents it had then, however the real one changes. Not
  covered are, as for nodes, the objects that were modified or deleted between the copy and the start of
  the informer, and those whose deletion the informer missed.
\<close>

theorem storage_watchers_mirror_existence:
  assumes "(g, w) \<in> {(PersistentVolumes, PVWatch), (PersistentVolumeClaims, PVCWatch), (StorageClasses, StorageClassWatch),
      (CSINodes, CSINodeWatch), (CSIDrivers, CSIDriverWatch), (VolumeAttachments, VolumeAttachmentsWatch)}"
    and "tracker_wf (externalkubeclient ks)" and "\<forall>g \<in> cluster_resources. copyable client (externalkubeclient ks) g"
    and "distinct (map obj_key first)" and "list_all (kind_ok g) first" and "history g cs (stored first)"
  shows "\<exists>t1 t2. SyncWithClient client ks = (Ok (), ks\<lparr>externalkubeclient := t1\<rparr>) \<and>
    run_events w (map (\<lambda>x. OnAdd (Obj g x)) first @ map (notify g) cs) t1 = (Ok (), t2) \<and>
    (\<forall>k \<in> observed (listed (client g)) first cs. objs (externalkubeclient ks) g k = None \<longrightarrow>
      (objs t2 g k = None) = (cluster_after cs (stored first) k = None) \<and>
      (k \<notin> change_key ` set (filter existence cs) \<longrightarrow> objs t2 g k = stored first k))"
proof -
  let ?t = "externalkubeclient ks"
  let ?K = "{k \<in> observed (listed (client g)) first cs. objs ?t g k = None}"
  note cp = assms(3) [folded synced_resources]
  have n: "g \<in> synced" and w: "w = filtering (of_kind g) (copies g)"
    using assms(1) by (auto simp: sync_table_def PVWatch_def PVCWatch_def StorageClassWatch_def
      CSINodeWatch_def CSIDriverWatch_def VolumeAttachmentsWatch_def)
  obtain t1 where s: "SyncWithClient client ks = (Ok (), ks\<lparr>externalkubeclient := t1\<rparr>)" "copy_of client synced ?t t1"
    unfolding SyncWithClient_def using sync_each_ok [OF assms(2) distinct_table cp] by blast
  have c: "copyable client ?t g" using cp n by blast
  have i: "(case stored first k of None \<Rightarrow> objs t1 g k | Some x \<Rightarrow> copy_effect (Created x) (objs t1 g k)) = stored first k"
    if "k \<in> ?K" for k
    using first_report_kept [OF s(2) n c, of k first cs] that by (simp split: option.splits)
  then have "(stored first k = None) =
      ((case stored first k of None \<Rightarrow> objs t1 g k | Some x \<Rightarrow> copy_effect (Created x) (objs t1 g k)) = None)" if "k \<in> ?K" for k
    using that by (simp del: copy_effect.simps)
  moreover have "tracker_wf t1" using s(2) by (simp add: copy_of_def)
  moreover have "?K \<inter> missed cs = {}" by (auto simp: observed_def)
  ultimately obtain t2 where t2:
    "run_events w (map (\<lambda>x. OnAdd (Obj g x)) first @ map (notify g) cs) t1 = (Ok (), t2)"
    "\<forall>k \<in> ?K. (cluster_after cs (stored first) k = None) = (objs t2 g k = None)"
    "\<forall>k. k \<notin> change_key ` set (filter existence cs) \<longrightarrow> objs t2 g k =
      (case stored first k of None \<Rightarrow> objs t1 g k | Some x \<Rightarrow> copy_effect (Created x) (objs t1 g k))"
    using storage.run_started [OF _ assms(4-6), of t1 ?K] unfolding w existence_copied by blast
  show ?thesis
  proof (intro exI conjI ballI impI)
    show "SyncWithClient client ks = (Ok (), ks\<lparr>externalkubeclient := t1\<rparr>)" by (rule s(1))
    show "run_events w (map (\<lambda>x. OnAdd (Obj g x)) first @ map (notify g) cs) t1 = (Ok (), t2)" by (rule t2(1))
    fix k
    assume k: "k \<in> observed (listed (client g)) first cs" "objs ?t g k = None"
    show "(objs t2 g k = None) = (cluster_after cs (stored first) k = None)" using t2(2) k by blast
    assume "k \<notin> change_key ` set (filter existence cs)"
    with t2(3) have "objs t2 g k = (case stored first k of None \<Rightarrow> objs t1 g k | Some x \<Rightarrow> copy_effect (Created x) (objs t1 g k))"
      by blast
    then show "objs t2 g k = stored first k" using i [of k] k by simp
  qed
qed

definition example_volume :: "string \<Rightarrow> kobj" where
  "example_volume body = OtherObj \<lparr>other_Name = ''v'', other_Namespace = [], other_Labels = None, other_Body = body\<rparr>"

theorem storage_watchers_mirror_existence_witness:
  "\<exists>t1 t2. SyncWithClient (small_cluster(PersistentVolumes := Inr [example_volume ''10Gi''])) (New ''prd'' empty_tracker) =
      (Ok (), New ''prd'' t1) \<and>
    run_events PVWatch
      [OnAdd (Obj PersistentVolumes (example_volume ''10Gi'')),
       OnUpdate False (Obj PersistentVolumes (example_volume ''10Gi'')) (Obj PersistentVolumes (example_volume ''20Gi''))] t1 = (Ok (), t2) \<and>
    objs t2 PersistentVolumes ([], ''v'') = Some (example_volume ''10Gi'')"
proof -
  let ?ks = "New ''prd'' empty_tracker" and ?g = PersistentVolumes
  let ?c = "small_cluster(?g := Inr [example_volume ''10Gi''])" and ?first = "[example_volume ''10Gi'']"
  let ?cs = "[Modified (example_volume ''10Gi'') (example_volume ''20Gi'')]"
  have w: "(?g, PVWatch) \<in> {(PersistentVolumes, PVWatch), (PersistentVolumeClaims, PVCWatch), (StorageClasses, StorageClassWatch),
      (CSINodes, CSINodeWatch), (CSIDrivers, CSIDriverWatch), (VolumeAttachments, VolumeAttachmentsWatch)}" by (rule insertI1)
  have "copyable ?c (externalkubeclient ?ks) ?g"
    by (simp add: copyable_def example_volume_def objs_def empty_tracker_def)
  then have v: "copyable ?c empty_tracker ?g" by simp
  have "copyable ?c empty_tracker g" for g
    using v copyable_other_list [of g ?g small_cluster] small_cluster_copyable by (cases "g = ?g") (simp_all del: fun_upd_apply)
  then have cp: "\<forall>g \<in> cluster_resources. copyable ?c (externalkubeclient ?ks) g" by simp
  have wf: "tracker_wf (externalkubeclient ?ks)" by (simp add: tracker_wf_empty)
  have l: "distinct (map obj_key ?first)" "list_all (kind_ok ?g) ?first" "history ?g ?cs (stored ?first)"
    by (simp_all add: example_volume_def obj_key_def)
  from storage_watchers_mirror_existence [OF w wf cp l] obtain t1 t2 where
    a: "SyncWithClient ?c ?ks = (Ok (), ?ks\<lparr>externalkubeclient := t1\<rparr>)"
    and b: "run_events PVWatch (map (\<lambda>x. OnAdd (Obj ?g x)) ?first @ map (notify ?g) ?cs) t1 = (Ok (), t2)"
    and c: "\<forall>k \<in> observed (listed (?c ?g)) ?first ?cs. objs (externalkubeclient ?ks) ?g k = None \<longrightarrow>
      (objs t2 ?g k = None) = (cluster_after ?cs (stored ?first) k = None) \<and>
      (k \<notin> change_key ` set (filter existence ?cs) \<longrightarrow> objs t2 ?g k = stored ?first k)"
    by (elim exE conjE) (rule that)
  have o: "k \<in> observed (listed (?c ?g)) ?first ?cs" for k by (simp add: observed_def missed_def)
  have "objs t2 ?g ([], ''v'') = stored ?first ([], ''v'')"
    using c [rule_format, OF o, of "([], ''v'')"] by (simp add: objs_def empty_tracker_def)
  then have "objs t2 ?g ([], ''v'') = Some (example_volume ''10Gi'')"
    by (simp add: example_volume_def obj_key_def)
  moreover have "SyncWithClient ?c ?ks = (Ok (), New ''prd'' t1)" using a by (simp add: New_def)
  moreover have "run_events PVWatch [OnAdd (Obj ?g (example_volume ''10Gi'')),
      OnUpdate False (Obj ?g (example_volume ''10Gi'')) (Obj ?g (example_volume ''20Gi''))] t1 = (Ok (), t2)"
    using b by (simp del: run_events.simps)
  ultimately show ?thesis by blast
qed

text \<open>The watchers that \<open>Run\<close> starts, in its order.\<close>

definition all_watchers :: "(gvr \<times> (event \<Rightarrow> tracker \<Rightarrow> (tracker, unit) outcome)) list" where
  "all_watchers = [(Nodes, NodeWatch), (Pods, PodWatch)] @ storage_watchers"

text \<open>
  C4. A deletion in the real cluster that the informer misses and finds later is never carried out: it
  arrives as a tombstone, which every one of the eight watchers lets through its filter and then
  ignores. The object stays in the simulated cluster whatever happens to other objects afterwards.
\<close>

theorem forgotten_object_stays:
  assumes "(g, w) \<in> {(Nodes, NodeWatch), (Pods, PodWatch), (PersistentVolumes, PVWatch), (PersistentVolumeClaims, PVCWatch),
      (StorageClasses, StorageClassWatch), (CSINodes, CSINodeWatch), (CSIDrivers, CSIDriverWatch),
      (VolumeAttachments, VolumeAttachmentsWatch)}" and "tracker_wf t" and "objs t g (obj_key x) = Some x"
    and "history g (Forgotten x # cs) m" and "obj_key x \<notin> change_key ` set cs"
  shows "cluster_after (Forgotten x # cs) m (obj_key x) = None \<and>
    (\<exists>t'. run_events w (map (notify g) (Forgotten x # cs)) t = (Ok (), t') \<and> objs t' g (obj_key x) = Some x)"
proof -
  have gone: "k \<notin> change_key ` set cs \<Longrightarrow> cluster_after cs m k = m k" for cs m k
    by (induction cs arbitrary: m) auto
  note ok = history_ok [OF assms(4)]
  have out: "obj_key x \<notin> change_key ` set (filter (Not \<circ> forgotten) (Forgotten x # cs))"
    "obj_key x \<notin> change_key ` set (filter (Not \<circ> not_copied) (Forgotten x # cs))"
    using assms(5) by auto
  have "\<exists>t'. run_events w (map (notify g) (Forgotten x # cs)) t = (Ok (), t') \<and> objs t' g (obj_key x) = objs t g (obj_key x)"
  proof -
    consider "g = Nodes" "w = NodeWatch" | "g = Pods" "w = PodWatch" | "w = filtering (of_kind g) (copies g)"
      using assms(1) by (auto simp: PVWatch_def PVCWatch_def StorageClassWatch_def CSINodeWatch_def CSIDriverWatch_def
        VolumeAttachmentsWatch_def)
    then show ?thesis
    proof cases
      case 1
      then show ?thesis using nodes.run_frame [OF assms(2)] ok out(1) by blast
    next
      case 2
      then show ?thesis using pods.run_frame [OF assms(2)] ok out(1) by blast
    next
      case 3
      then show ?thesis using storage.run_frame [OF assms(2)] ok out(2) by blast
    qed
  qed
  then show ?thesis using gone [OF assms(5)] assms(3) by simp
qed

text \<open>
  \<open>DeleteNodes\<close>, which every prediction job runs, cuts the simulated cluster off from the real
  nodes: updates and deletions of nodes that exist there do not bring one back, since the watcher
  only updates what it finds; until a new node appears the simulated cluster stays without any.
\<close>

fun creates :: "change \<Rightarrow> bool" where
  "creates (Created x) \<longleftrightarrow> True"
| "creates _ \<longleftrightarrow> False"

lemma nodes_stay_empty:
  "tracker_wf t \<Longrightarrow> objs t Nodes = Map.empty \<Longrightarrow> list_all (\<lambda>c. change_ok Nodes c \<and> \<not> creates c) cs \<Longrightarrow>
   \<exists>t'. run_events NodeWatch (map (notify Nodes) cs) t = (Ok (), t') \<and> tracker_wf t' \<and> objs t' Nodes = Map.empty"
proof (induction cs arbitrary: t)
  case (Cons c cs)
  then have c: "change_ok Nodes c" "\<not> creates c" "list_all (\<lambda>c. change_ok Nodes c \<and> \<not> creates c) cs" by simp_all
  from nodes.effect [OF Cons.prems(1) c(1)] obtain t1 where t1: "NodeWatch (notify Nodes c) t = (Ok (), t1)" "tracker_wf t1"
    "objs t1 = (objs t)(Nodes := (objs t Nodes)(change_key c := node_effect c (objs t Nodes (change_key c))))"
    by (auto simp: at_key_def)
  have "node_effect c None = None" using c(2) by (cases c) auto
  then have "objs t1 Nodes = Map.empty" using Cons.prems(2) by (auto simp: t1(3))
  then show ?case using Cons.IH [OF t1(2) _ c(3)] by (simp add: t1(1))
qed simp

lemma deleted_nodes_stay_away:
  assumes "tracker_wf (externalkubeclient ks)" and "list_all (\<lambda>c. change_ok Nodes c \<and> \<not> creates c) cs"
  shows "\<exists>t. run_events NodeWatch (map (notify Nodes) cs) (externalkubeclient (DeleteNodes ks)) = (Ok (), t) \<and>
    list_nodes Everything t = []"
proof -
  obtain t1 where t1: "DeleteNodes ks = ks\<lparr>externalkubeclient := t1\<rparr>" "tracker_wf t1"
    "objs t1 = (objs (externalkubeclient ks))
      (Pods := drop_matching kubesim_selector (objs (externalkubeclient ks) Pods), Nodes := Map.empty)"
    by (rule DeleteNodes_result [OF assms(1)])
  then have "objs t1 Nodes = Map.empty" by simp
  from nodes_stay_empty [OF t1(2) this assms(2)] obtain t where
    t: "run_events NodeWatch (map (notify Nodes) cs) t1 = (Ok (), t)" "tracker_wf t" "objs t Nodes = Map.empty" by blast
  then have "n \<notin> set (list_nodes Everything t)" for n
    by (simp add: in_list_nodes [OF t(2)])
  then have "list_nodes Everything t = []" by (metis list.set_intros(1) neq_Nil_conv)
  with t t1(1) show ?thesis by simp
qed

lemma deleted_nodes_stay_away_example:
  "\<exists>t. run_events NodeWatch
      [OnUpdate False (Obj Nodes (NodeObj (example_node ''n1''))) (Obj Nodes (NodeObj (labelled ''n1'')))]
      (externalkubeclient (DeleteNodes (New ''prd'' empty_tracker))) = (Ok (), t) \<and> list_nodes Everything t = []"
proof -
  let ?c = "Modified (NodeObj (example_node ''n1'')) (NodeObj (labelled ''n1''))"
  have "tracker_wf (externalkubeclient (New ''prd'' empty_tracker))"
    "list_all (\<lambda>c. change_ok Nodes c \<and> \<not> creates c) [?c]"
    by (simp_all add: tracker_wf_empty example_node_def labelled_def node_key_def)
  from deleted_nodes_stay_away [OF this] show ?thesis
    by (simp del: run_events.simps)
qed

theorem forgotten_object_stays_witness:
  "\<exists>t. run_events PodWatch [OnDelete (DeletedFinalStateUnknown Pods (PodObj (example_pod ''web'' ''n1'')))]
      (empty_tracker(Pods := [(pod_key (example_pod ''web'' []), PodObj (example_pod ''web'' ''n1''))])) = (Ok (), t) \<and>
    objs t Pods (pod_key (example_pod ''web'' [])) = Some (PodObj (example_pod ''web'' ''n1''))"
proof -
  let ?x = "PodObj (example_pod ''web'' ''n1'')"
  let ?t = "empty_tracker(Pods := [(pod_key (example_pod ''web'' []), ?x)])"
  have k: "pod_key (example_pod ''web'' []) = obj_key ?x" by (simp add: pod_key_def example_pod_def)
  have "(Pods, PodWatch) \<in> {(Nodes, NodeWatch), (Pods, PodWatch), (PersistentVolumes, PVWatch), (PersistentVolumeClaims, PVCWatch),
      (StorageClasses, StorageClassWatch), (CSINodes, CSINodeWatch), (CSIDrivers, CSIDriverWatch),
      (VolumeAttachments, VolumeAttachmentsWatch)}" by (rule insertI2, rule insertI1)
  moreover have "tracker_wf ?t" by (simp add: tracker_wf_def empty_tracker_def k del: obj_key_simps)
  moreover have "objs ?t Pods (obj_key ?x) = Some ?x" by (simp add: objs_def k del: obj_key_simps)
  moreover have "history Pods [Forgotten ?x] [obj_key ?x \<mapsto> ?x]" by simp
  ultimately show ?thesis
    using forgotten_object_stays [of Pods PodWatch ?t ?x "[]"] by (simp add: k del: run_events.simps obj_key_simps)
qed

end
