(* ===== verification/Jobs.thy ===== *)
theory Jobs
  imports Frames Sync
begin

text \<open>
  The life of a job: the emulators of \<open>scheduler_emulator.go\<close> that submit jobs, with their handlers
  in \<open>emulator.go\<close>, and the worker loop of \<open>Run\<close> in \<open>simulator.go\<close> that takes and runs them.

  The real cluster is the parameter \<open>external\<close>, of which only the lookups of deployments and
  stateful sets are used. The server as a whole is the record \<open>server\<close>: the simulator and the job
  the worker has taken, with two ghost fields, the ids submitted and the ids started. \<open>server_step\<close>
  has one rule per event; a request that only touches the cluster is one atomic step. A job that
  panics or does not return has no step that ends it.
  The invariants of its runs are about the jobs and about the types of the objects in the cluster.
\<close>

section \<open>Submitting jobs\<close>

record external =
  ext_Deployment :: "string \<Rightarrow> string \<Rightarrow> api_error + workload"
  ext_StatefulSet :: "string \<Rightarrow> string \<Rightarrow> api_error + workload"

definition empty_group :: app_group where
  "empty_group = \<lparr>EmulatorType = [], ag_Nodes = [], ag_Apps = [], ag_OldPods = [], ag_PodsConfig = None\<rparr>"

definition submit_job :: "env \<Rightarrow> app_group \<Rightarrow> kubesim \<Rightarrow> string \<times> kubesim" where
  "submit_job env g ks =
     (let job_id = e_uuid env (draws ks) in
      (job_id, ks\<lparr>draws := Suc (draws ks), fifoQueue := fifo_Push job_id g (fifoQueue ks)\<rparr>))"

definition NewAppsEmulator :: "env \<Rightarrow> node_config list \<Rightarrow> pod_request list \<Rightarrow> kubesim \<Rightarrow> string \<times> kubesim" where
  "NewAppsEmulator env nodes apps ks =
     submit_job env (empty_group\<lparr>EmulatorType := ''AppsEmulator'', ag_Apps := apps\<rparr>) ks"

definition NewPredictionEmulator :: "env \<Rightarrow> node_config list \<Rightarrow> pod_request list \<Rightarrow> kubesim \<Rightarrow> string \<times> kubesim" where
  "NewPredictionEmulator env nodes apps ks =
     submit_job env (empty_group\<lparr>EmulatorType := ''Prediction'', ag_Nodes := nodes, ag_Apps := apps\<rparr>) ks"

text \<open>
  The two branches of \<open>NewHorizontalEmulator\<close>: how many replicas are missing in the real cluster. The
  error text carries the lookup's error as a surplus argument of the format string.
\<close>

definition missing_replicas :: "(string \<Rightarrow> string \<Rightarrow> api_error + workload) \<Rightarrow> pod_request \<Rightarrow> pod_request res" where
  "missing_replicas look app =
     (case pr_Pod app of
        None \<Rightarrow> Panic NilDereference
      | Some p \<Rightarrow>
          (case look (pod_Namespace p) (pod_Name p) of
             Inl e \<Rightarrow> Err (Wrap (''unable to get apps name : '' @ pod_Name p) (ApiErr e))
           | Inr w \<Rightarrow>
               (case w_Replicas w of
                  None \<Rightarrow> Panic NilDereference
                | Some r \<Rightarrow>
                    if pr_Replicas app - r \<le>s 0
                    then Err (Msg ''horizontal apps is stop,scale replicas is too samll.'')
                    else Ok (zero_request\<lparr>pr_Pod := Some p, pr_Replicas := pr_Replicas app - r\<rparr>))))"

text \<open>
  \<open>newPodRequest\<close> is declared before the loop: an application of another kind appends what the
  variable holds, the zero request at first.
\<close>

fun horizontal_loop ::
  "external \<Rightarrow> pod_request list \<Rightarrow> pod_request \<Rightarrow> pod_request list \<Rightarrow> pod_request list res" where
  "horizontal_loop ext [] newPodRequest usList = Ok usList"
| "horizontal_loop ext (app # apps) newPodRequest usList =
     (case (if pr_Kind app = ''deployment'' then missing_replicas (ext_Deployment ext) app
            else if pr_Kind app = ''statefulsets'' then missing_replicas (ext_StatefulSet ext) app
            else Ok newPodRequest) of
        Ok r \<Rightarrow> horizontal_loop ext apps r (usList @ [r])
      | Err e \<Rightarrow> Err e
      | Panic p \<Rightarrow> Panic p
      | Hang \<Rightarrow> Hang)"

fun then_submit :: "env \<Rightarrow> 'a res \<Rightarrow> ('a \<Rightarrow> app_group) \<Rightarrow> kubesim \<Rightarrow> (kubesim, string) outcome" where
  "then_submit env (Ok x) f ks = (case submit_job env (f x) ks of (job_id, ks') \<Rightarrow> (Ok job_id, ks'))"
| "then_submit env (Err e) f ks = (Err e, ks)"
| "then_submit env (Panic p) f ks = (Panic p, ks)"
| "then_submit env Hang f ks = (Hang, ks)"

definition NewHorizontalEmulator ::
  "env \<Rightarrow> external \<Rightarrow> node_config list \<Rightarrow> pod_request list \<Rightarrow> kubesim \<Rightarrow> (kubesim, string) outcome" where
  "NewHorizontalEmulator env ext nodes apps ks =
     then_submit env (horizontal_loop ext apps zero_request [])
       (\<lambda>us. empty_group\<lparr>EmulatorType := ''HorizontalEmulator'', ag_Apps := us\<rparr>) ks"

text \<open>Vertical scaling: one request per pod of the deployment, pinned to the pod's node.\<close>

definition pinned_request :: "container list \<Rightarrow> pod \<Rightarrow> pod_request" where
  "pinned_request containers p =
     zero_request\<lparr>pr_Pod := Some (p\<lparr>pod_Spec := (pod_Spec p)\<lparr>NodeName := [], Containers := containers,
         NodeSelector := Some [''kubernetes.io/hostname'' \<mapsto> NodeName (pod_Spec p)]\<rparr>\<rparr>),
       pr_Replicas := 1\<rparr>"

definition app_label :: "smap \<Rightarrow> selector" where
  "app_label labels = (case gm_get labels ''app'' of Some v \<Rightarrow> LabelEq ''app'' v | None \<Rightarrow> Everything)"

fun vertical_loop ::
  "external \<Rightarrow> kubesim \<Rightarrow> pod_request list \<Rightarrow> pod_request list \<Rightarrow> pod list \<Rightarrow> (pod_request list \<times> pod list) res"
where
  "vertical_loop ext ks [] usList oldpods = Ok (usList, oldpods)"
| "vertical_loop ext ks (app # apps) usList oldpods =
     (case pr_Pod app of
        None \<Rightarrow> Panic NilDereference
      | Some p \<Rightarrow>
          (case ext_Deployment ext (pod_Namespace p) (pod_Name p) of
             Inl e \<Rightarrow> Err (Wrap (''unable to get apps name : '' @ pod_Name p) (ApiErr e))
           | Inr us \<Rightarrow>
               (case w_MatchLabels us of
                  None \<Rightarrow> Panic NilDereference
                | Some labels \<Rightarrow>
                    (let pods = GetAppPod (pod_Namespace p) (app_label labels) ks in
                     vertical_loop ext ks apps
                       (usList @ map (pinned_request (Containers (pod_Spec p))) pods) (oldpods @ pods)))))"

definition NewVerticalEmulator ::
  "env \<Rightarrow> external \<Rightarrow> node_config list \<Rightarrow> pod_request list \<Rightarrow> kubesim \<Rightarrow> (kubesim, string) outcome" where
  "NewVerticalEmulator env ext nodes apps ks =
     then_submit env (vertical_loop ext ks apps [] [])
       (\<lambda>(us, oldpods). empty_group\<lparr>EmulatorType := ''VerticalEmulator'', ag_Apps := us, ag_OldPods := oldpods\<rparr>) ks"

section \<open>The handlers of \<open>emulator.go\<close>\<close>

definition AppsHandler :: "env \<Rightarrow> node_config list \<Rightarrow> pod_request list \<Rightarrow> kubesim \<Rightarrow> string \<times> kubesim" where
  "AppsHandler env nodes apps cache = NewAppsEmulator env nodes apps cache"

definition PredictionHandler :: "env \<Rightarrow> node_config list \<Rightarrow> pod_request list \<Rightarrow> kubesim \<Rightarrow> string \<times> kubesim" where
  "PredictionHandler env nodes apps cache = NewPredictionEmulator env nodes apps cache"

text \<open>The handlers of fallible calls drop the result of a call that failed and pass its error on.\<close>

definition HorizontalHandler ::
  "env \<Rightarrow> external \<Rightarrow> node_config list \<Rightarrow> pod_request list \<Rightarrow> kubesim \<Rightarrow> (kubesim, string) outcome" where
  "HorizontalHandler env ext nodes apps cache =
     seq (NewHorizontalEmulator env ext nodes apps cache) (\<lambda>job_id ks. (Ok job_id, ks)) id"

definition VerticalHandler ::
  "env \<Rightarrow> external \<Rightarrow> node_config list \<Rightarrow> pod_request list \<Rightarrow> kubesim \<Rightarrow> (kubesim, string) outcome" where
  "VerticalHandler env ext nodes apps cache =
     seq (NewVerticalEmulator env ext nodes apps cache) (\<lambda>job_id ks. (Ok job_id, ks)) id"

definition EmulatorReportHandler :: "string \<Rightarrow> kubesim \<Rightarrow> job_report res" where
  "EmulatorReportHandler jid cache =
     (case EmulatorReport jid cache of Err e \<Rightarrow> Err e | r \<Rightarrow> r)"

definition NewAddNodesEmulator ::
  "nat \<Rightarrow> env \<Rightarrow> node_config \<Rightarrow> kubesim \<Rightarrow> (kubesim, node_info_list) outcome" where
  "NewAddNodesEmulator fuel env nodeConfig ks =
     (case AddNodes fuel env (nodeConfig, ks) of
        (Ok (_, nodeinfolist), (_, ks')) \<Rightarrow> (Ok nodeinfolist, ks')
      | (Err e, (_, ks')) \<Rightarrow> (Err (Wrap ''Unable to create simulator node'' e), ks')
      | (Panic p, (_, ks')) \<Rightarrow> (Panic p, ks')
      | (Hang, (_, ks')) \<Rightarrow> (Hang, ks'))"

definition AddNodesHandler ::
  "nat \<Rightarrow> env \<Rightarrow> node_config \<Rightarrow> kubesim \<Rightarrow> (kubesim, node_info_list) outcome" where
  "AddNodesHandler fuel env nodeConfig cache =
     seq (NewAddNodesEmulator fuel env nodeConfig cache) (\<lambda>nodelist ks. (Ok nodelist, ks)) id"

text \<open>The lists on the fake cluster never fail, so the error branches of these three are not taken.\<close>

definition NewListNodesEmulator :: "env \<Rightarrow> kubesim \<Rightarrow> node_info_list res" where
  "NewListNodesEmulator env ks = Ok (ListNodes env ks)"

definition ListNodesHandler :: "env \<Rightarrow> kubesim \<Rightarrow> node_info_list res" where
  "ListNodesHandler env cache = (case NewListNodesEmulator env cache of Err e \<Rightarrow> Err e | r \<Rightarrow> r)"

definition NewListNodeInfoEmulator :: "env \<Rightarrow> kubesim \<Rightarrow> node_info list res" where
  "NewListNodeInfoEmulator env ks = Ok (GetNodeInfo env ks)"

definition ListNodeInfoHandler :: "env \<Rightarrow> kubesim \<Rightarrow> node_info list res" where
  "ListNodeInfoHandler env cache = (case NewListNodeInfoEmulator env cache of Err e \<Rightarrow> Err e | r \<Rightarrow> r)"

definition NewDeleteNodesEmulator :: "kubesim \<Rightarrow> (kubesim, unit) outcome" where
  "NewDeleteNodesEmulator ks = (Ok (), DeleteNodes ks)"

definition DeleteNodesHandler :: "kubesim \<Rightarrow> (kubesim, unit) outcome" where
  "DeleteNodesHandler cache = seq (NewDeleteNodesEmulator cache) (\<lambda>_ ks. (Ok (), ks)) id"

definition DeprecatedPredictionHandler ::
  "nat \<Rightarrow> env \<Rightarrow> node_config list \<Rightarrow> pod_request list \<Rightarrow> kubesim \<Rightarrow> (kubesim, scheduler_prediction) outcome" where
  "DeprecatedPredictionHandler fuel env nodes apps cache =
     seq (DeprecatedPredictionEmulator fuel env apps cache) (\<lambda>report ks. (Ok report, ks)) id"

definition DeprecatedAppsHandler ::
  "nat \<Rightarrow> env \<Rightarrow> node_config list \<Rightarrow> pod_request list \<Rightarrow> kubesim \<Rightarrow> (kubesim, review list) outcome" where
  "DeprecatedAppsHandler fuel env nodes apps cache =
     seq (DeprecatedAppsEmulator fuel env apps cache) (\<lambda>report ks. (Ok report, ks)) id"

section \<open>The worker\<close>

text \<open>An emulator's error is logged and dropped.\<close>

fun logged :: "('s, 'a) outcome \<Rightarrow> ('s, unit) outcome" where
  "logged (Ok _, s) = (Ok (), s)"
| "logged (Err _, s) = (Ok (), s)"
| "logged (Panic p, s) = (Panic p, s)"
| "logged (Hang, s) = (Hang, s)"

definition run_job :: "nat \<Rightarrow> nat \<Rightarrow> env \<Rightarrow> app_group \<Rightarrow> string \<Rightarrow> kubesim \<Rightarrow> (kubesim, unit) outcome" where
  "run_job n fuel env g key ks =
     (if EmulatorType g = ''AppsEmulator'' then logged (appsEmulator fuel env g key ks)
      else if EmulatorType g = ''AppsPodEmulator'' then logged (appsPodEmulator fuel env g key ks)
      else if EmulatorType g = ''HorizontalEmulator'' then logged (HorizontalEmulator fuel env g key ks)
      else if EmulatorType g = ''VerticalEmulator'' then logged (VerticalEmulator fuel env g key ks)
      else if EmulatorType g = ''Prediction'' then logged (PredictionEmulator n fuel env g key ks)
      else (Ok (), ks))"

text \<open>
  One iteration of the loop. On an empty queue it only polls again; another error of \<open>Pop\<close> would be
  logged, and the kind of the nil job read.
\<close>

definition worker_iteration :: "nat \<Rightarrow> nat \<Rightarrow> env \<Rightarrow> kubesim \<Rightarrow> (kubesim, unit) outcome" where
  "worker_iteration n fuel env ks =
     (case fifo_Pop (fifoQueue ks) of
        (Inl ErrEmptyQueue, key, q) \<Rightarrow> (Ok (), ks\<lparr>fifoQueue := q\<rparr>)
      | (Inl _, key, q) \<Rightarrow> (Panic NilDereference, ks\<lparr>fifoQueue := q\<rparr>)
      | (Inr g, key, q) \<Rightarrow> run_job n fuel env g key (ks\<lparr>fifoQueue := q\<rparr>))"

lemma worker_polls: "fifo_Pop (fifoQueue ks) = (Inl e, key, q) \<Longrightarrow> worker_iteration n fuel env ks = (Ok (), ks\<lparr>fifoQueue := q\<rparr>)"
  using fifo_Pop_error [of "fifoQueue ks"] by (auto simp: worker_iteration_def)

section \<open>The server as a state machine\<close>

record server =
  sim :: kubesim
  running_job :: "(string \<times> app_group) option"
  submitted :: "string list"
  started :: "string list"

definition server_start :: "kubesim \<Rightarrow> server" where
  "server_start ks = \<lparr>sim = ks, running_job = None, submitted = [], started = []\<rparr>"

text \<open>
  \<open>accept\<close>: a handler pushes a job. \<open>take_job\<close>: the worker pops one. \<open>finish\<close>: its emulator returns, for
  some fuel. \<open>parse\<close>: the parser draws UUIDs for the pods of a request. \<open>real_event\<close>: a watcher handles an
  event of the real cluster. The other rules are the handlers that work on the cluster at once.
\<close>

inductive server_step :: "env \<Rightarrow> server \<Rightarrow> server \<Rightarrow> bool" for env where
  accept: "submit_job env g (sim s) = (jid, ks) \<Longrightarrow>
     server_step env s (s\<lparr>sim := ks, submitted := submitted s @ [jid]\<rparr>)"
| take_job: "running_job s = None \<Longrightarrow> fifo_Pop (fifoQueue (sim s)) = (Inr g, jid, q) \<Longrightarrow>
     server_step env s (s\<lparr>sim := (sim s)\<lparr>fifoQueue := q\<rparr>, running_job := Some (jid, g), started := started s @ [jid]\<rparr>)"
| finish: "running_job s = Some (jid, g) \<Longrightarrow> run_job n fuel env g jid (sim s) = (Ok (), ks) \<Longrightarrow>
     server_step env s (s\<lparr>sim := ks, running_job := None\<rparr>)"
| add_nodes: "AddNodesHandler fuel env cfg (sim s) = (r, ks) \<Longrightarrow> server_step env s (s\<lparr>sim := ks\<rparr>)"
| del_nodes: "DeleteNodesHandler (sim s) = (r, ks) \<Longrightarrow> server_step env s (s\<lparr>sim := ks\<rparr>)"
| old_apps: "DeprecatedAppsHandler fuel env nodes apps (sim s) = (r, ks) \<Longrightarrow> server_step env s (s\<lparr>sim := ks\<rparr>)"
| old_nodes: "DeprecatedPredictionHandler fuel env nodes apps (sim s) = (r, ks) \<Longrightarrow> server_step env s (s\<lparr>sim := ks\<rparr>)"
| parse: "server_step env s (s\<lparr>sim := (sim s)\<lparr>draws := draws (sim s) + n\<rparr>\<rparr>)"
| real_event: "(gr, w) \<in> set all_watchers \<Longrightarrow> event_ok e \<Longrightarrow> w e (externalkubeclient (sim s)) = (r, t) \<Longrightarrow>
     server_step env s (s\<lparr>sim := (sim s)\<lparr>externalkubeclient := t\<rparr>\<rparr>)"

inductive server_reachable :: "env \<Rightarrow> server \<Rightarrow> bool" for env where
  start: "fifoQueue ks = NewFIFOQueue \<Longrightarrow> emulatorResult ks = Map.empty \<Longrightarrow> predictionNode ks = Map.empty \<Longrightarrow>
     server_reachable env (server_start ks)"
| step: "server_reachable env s \<Longrightarrow> server_step env s s' \<Longrightarrow> server_reachable env s'"

section \<open>The invariant\<close>

text \<open>The ids that wait in the queue, in order.\<close>

definition waiting :: "kubesim \<Rightarrow> string list" where
  "waiting ks = map fst (fifo_abs (fifoQueue ks))"

definition job_inv :: "env \<Rightarrow> server \<Rightarrow> bool" where
  "job_inv env s \<longleftrightarrow> fifo_inv (fifoQueue (sim s)) \<and> submitted s = started s @ waiting (sim s) \<and>
     distinct (submitted s) \<and> set (submitted s) \<subseteq> e_uuid env ` {..<draws (sim s)} \<and>
     (\<forall>jid g. running_job s = Some (jid, g) \<longrightarrow> jid \<in> set (started s) \<and> emulatorResult (sim s) jid = None) \<and>
     dom (emulatorResult (sim s)) \<subseteq> set (started s) \<and> dom (predictionNode (sim s)) \<subseteq> dom (emulatorResult (sim s))"

lemma job_invD:
  assumes "job_inv env s"
  shows "fifo_inv (fifoQueue (sim s))" and "submitted s = started s @ waiting (sim s)" and "distinct (submitted s)"
    and "set (submitted s) \<subseteq> e_uuid env ` {..<draws (sim s)}"
    and "running_job s = Some (jid, g) \<Longrightarrow> jid \<in> set (started s) \<and> emulatorResult (sim s) jid = None"
    and "dom (emulatorResult (sim s)) \<subseteq> set (started s)"
    and "dom (predictionNode (sim s)) \<subseteq> dom (emulatorResult (sim s))"
  using assms unfolding job_inv_def by blast+

lemma job_invI:
  assumes "fifo_inv (fifoQueue (sim s))" and "submitted s = started s @ waiting (sim s)" and "distinct (submitted s)"
    and "set (submitted s) \<subseteq> e_uuid env ` {..<draws (sim s)}"
    and "\<And>jid g. running_job s = Some (jid, g) \<Longrightarrow> jid \<in> set (started s) \<and> emulatorResult (sim s) jid = None"
    and "dom (emulatorResult (sim s)) \<subseteq> set (started s)"
    and "dom (predictionNode (sim s)) \<subseteq> dom (emulatorResult (sim s))"
  shows "job_inv env s"
  using assms unfolding job_inv_def by blast

lemma draws_image: "(d :: nat) \<le> d' \<Longrightarrow> f ` {..<d} \<subseteq> f ` {..<d'}"
  by (intro image_mono) auto

text \<open>The effect of the two steps that change the queue.\<close>

lemma submit_inv:
  assumes inv: "job_inv env s" and inj: "inj (e_uuid env)" and sub: "submit_job env g (sim s) = (jid, ks)"
  shows "job_inv env (s\<lparr>sim := ks, submitted := submitted s @ [jid]\<rparr>)" and "jid \<notin> set (submitted s)"
    and "waiting ks = waiting (sim s) @ [jid]" and "emulatorResult ks = emulatorResult (sim s)"
    and "predictionNode ks = predictionNode (sim s)" and "fifo_inv (fifoQueue ks)"
proof -
  have ks: "ks = (sim s)\<lparr>draws := Suc (draws (sim s)), fifoQueue := fifo_Push jid g (fifoQueue (sim s))\<rparr>"
    and jid: "jid = e_uuid env (draws (sim s))"
    using sub by (auto simp: submit_job_def Let_def)
  note i = job_invD [OF inv]
  note q = i(1)
  show new: "jid \<notin> set (submitted s)"
  proof
    assume "jid \<in> set (submitted s)"
    then obtain j where "j < draws (sim s)" "jid = e_uuid env j" using i(4) by auto
    with jid inj show False by (simp add: inj_eq)
  qed
  then have n: "jid \<notin> fst ` set (fifo_abs (fifoQueue (sim s)))"
    using i(2) by (simp add: waiting_def)
  note p = fq.push_inv [OF q n] fq.push_abs [OF q n]
  show w: "waiting ks = waiting (sim s) @ [jid]" by (simp add: waiting_def ks p(2))
  show r: "emulatorResult ks = emulatorResult (sim s)" "predictionNode ks = predictionNode (sim s)" by (simp_all add: ks)
  show f: "fifo_inv (fifoQueue ks)" by (simp add: ks p(1))
  have "set (submitted s @ [jid]) \<subseteq> e_uuid env ` {..<draws ks}"
    using i(4) draws_image [of "draws (sim s)" "draws ks" "e_uuid env"] jid by (auto simp: ks)
  moreover have "distinct (submitted s @ [jid])" using i(3) new by simp
  moreover have "submitted s @ [jid] = started s @ waiting ks" using i(2) w by simp
  ultimately show "job_inv env (s\<lparr>sim := ks, submitted := submitted s @ [jid]\<rparr>)"
    using i(5-7) r f by (intro job_invI) simp_all
qed

lemma take_waiting:
  assumes inv: "fifo_inv (fifoQueue ks)" and pop: "fifo_Pop (fifoQueue ks) = (Inr g, jid, q)"
  shows "waiting ks = jid # waiting (ks\<lparr>fifoQueue := q\<rparr>)" and "fifo_inv q"
    and "fifo_Get (fifoQueue ks) jid = Some g"
proof -
  have "fifo_abs (fifoQueue ks) \<noteq> []"
    using fq.pop_empty [OF inv] pop by auto
  then obtain k v r where a: "fifo_abs (fifoQueue ks) = (k, v) # r" by (cases "fifo_abs (fifoQueue ks)") auto
  then obtain q' where "fifo_Pop (fifoQueue ks) = (Inr v, k, q')" "fifo_inv q'" "fifo_abs q' = r"
    using fq.pop_some [OF inv] by blast
  with pop a show "waiting ks = jid # waiting (ks\<lparr>fifoQueue := q\<rparr>)" "fifo_inv q"
    "fifo_Get (fifoQueue ks) jid = Some g"
    using fq.get_abs [OF inv] by (simp_all add: waiting_def)
qed

text \<open>The effect of a job, whatever its emulator.\<close>

lemma keeps_but_logged [simp]: "snd (logged m) = snd m"
proof -
  obtain r s where "m = (r, s)" by (rule prod.exhaust)
  then show ?thesis by (cases r) auto
qed

definition job_effect :: "string \<Rightarrow> kubesim \<Rightarrow> kubesim \<Rightarrow> bool" where
  "job_effect key ks ks' \<longleftrightarrow> keeps_but key ks ks' \<and>
     (emulatorResult ks' key \<noteq> None \<or> emulatorResult ks' = emulatorResult ks \<and> predictionNode ks' = predictionNode ks)"

lemma saves_effect: "saves key f ks m \<Longrightarrow> job_effect key ks (snd m)"
  by (auto simp: saves_def job_effect_def split: res.splits)

lemma run_job_effect: "job_effect key ks (snd (run_job n fuel env g key ks))"
  using saves_effect [OF saves_appsEmulator] saves_effect [OF saves_appsPodEmulator]
    saves_effect [OF saves_HorizontalEmulator] saves_effect [OF saves_VerticalEmulator]
    saves_effect [OF saves_PredictionEmulator]
  by (simp add: run_job_def) (simp add: job_effect_def keeps_but_def)

lemma keeps_inv:
  assumes "job_inv env s" and "keeps (sim s) ks"
  shows "job_inv env (s\<lparr>sim := ks\<rparr>)"
proof -
  note i = job_invD [OF assms(1)]
  have k: "fifoQueue ks = fifoQueue (sim s)" "emulatorResult ks = emulatorResult (sim s)"
    "predictionNode ks = predictionNode (sim s)" "draws (sim s) \<le> draws ks"
    using assms(2) by (simp_all add: keeps_def same_books_def)
  have "set (submitted s) \<subseteq> e_uuid env ` {..<draws ks}"
    using i(4) draws_image [OF k(4)] by (rule order_trans)
  then show ?thesis
    using i k(1-3) by (intro job_invI) (simp_all add: waiting_def)
qed

text \<open>Handlers that work on the cluster keep the books.\<close>

lemma keeps_handlers:
  "AddNodesHandler fuel env cfg ks = (r1, ks1) \<Longrightarrow> keeps ks ks1"
  "DeleteNodesHandler ks = (r2, ks2) \<Longrightarrow> keeps ks ks2"
  "DeprecatedAppsHandler fuel env nodes apps ks = (r3, ks3) \<Longrightarrow> keeps ks ks3"
  "DeprecatedPredictionHandler fuel env nodes apps ks = (r4, ks4) \<Longrightarrow> keeps ks ks4"
proof -
  have "keeps ks (snd (NewAddNodesEmulator fuel env cfg ks))"
  proof -
    obtain r s where a: "AddNodes fuel env (cfg, ks) = (r, s)" by (rule prod.exhaust)
    obtain c k where s: "s = (c, k)" by (rule prod.exhaust)
    have "keeps ks k" using keeps_AddNodes [of "(cfg, ks)" fuel env] a s by simp
    then show ?thesis by (cases r) (auto simp: NewAddNodesEmulator_def a s)
  qed
  then have "keeps ks (snd (AddNodesHandler fuel env cfg ks))"
    unfolding AddNodesHandler_def by (rule keeps_seq) simp
  then show "AddNodesHandler fuel env cfg ks = (r1, ks1) \<Longrightarrow> keeps ks ks1" by simp
  show "DeleteNodesHandler ks = (r2, ks2) \<Longrightarrow> keeps ks ks2"
    using keeps_DeleteNodes by (auto simp: DeleteNodesHandler_def NewDeleteNodesEmulator_def)
  have "keeps ks (snd (DeprecatedAppsHandler fuel env nodes apps ks))"
    unfolding DeprecatedAppsHandler_def by (rule keeps_seq [OF keeps_DeprecatedAppsEmulator]) simp
  then show "DeprecatedAppsHandler fuel env nodes apps ks = (r3, ks3) \<Longrightarrow> keeps ks ks3" by simp
  have "keeps ks (snd (DeprecatedPredictionHandler fuel env nodes apps ks))"
    unfolding DeprecatedPredictionHandler_def by (rule keeps_seq [OF keeps_DeprecatedPredictionEmulator]) simp
  then show "DeprecatedPredictionHandler fuel env nodes apps ks = (r4, ks4) \<Longrightarrow> keeps ks ks4" by simp
qed

text \<open>No event of the real cluster spoils the simulated one, also a tombstone or an update of an unknown object.\<close>

lemma handlers_keep_wf:
  assumes "tracker_wf t" and "iobj_ok x"
  shows "tracker_wf (snd (add_missing g x t))" and "tracker_wf (snd (delete_seen g x t))"
    and "tracker_wf (snd (update_node same old x t))" and "tracker_wf (snd (update_pod same old x t))"
proof -
  have log: "tracker_wf (snd (log_error t m))" if "\<And>t'. m = Inr t' \<Longrightarrow> tracker_wf t'" for m
    using that assms(1) by (cases m) auto
  show "tracker_wf (snd (add_missing g x t))" "tracker_wf (snd (delete_seen g x t))"
    "tracker_wf (snd (update_node same old x t))"
    using assms by (cases x; auto intro!: log dest: store_wf split: sum.split simp del: kind_ok.simps)+
  show "tracker_wf (snd (update_pod same old x t))"
    using assms by (cases "(same, old, x, t)" rule: update_pod.cases)
      (auto intro!: log dest: store_wf simp del: kind_ok.simps)
qed

lemma filtering_keeps_wf:
  assumes "tracker_wf t" and "event_ok e"
    and "\<And>x. iobj_ok x \<Longrightarrow> tracker_wf (snd (AddFunc h x t)) \<and> tracker_wf (snd (DeleteFunc h x t))"
    and "\<And>same old new. iobj_ok new \<Longrightarrow> tracker_wf (snd (call_update h same old new t))"
  shows "tracker_wf (snd (filtering flt h e t))"
  using assms by (cases e) auto

lemma watchers_keep_wf:
  assumes "(g, w) \<in> set all_watchers" and "event_ok e" and "w e t = (r, t')"
  shows "tracker_wf t \<longrightarrow> tracker_wf t'"
proof
  assume wf: "tracker_wf t"
  obtain flt h where w: "w = filtering flt h" "AddFunc h = add_missing g" "DeleteFunc h = delete_seen g"
    "UpdateFunc h \<in> {None, Some update_node, Some update_pod}"
    using assms(1) by (auto simp: all_watchers_def storage_watchers_def NodeWatch_def PodWatch_def PVWatch_def
      PVCWatch_def StorageClassWatch_def CSINodeWatch_def CSIDriverWatch_def VolumeAttachmentsWatch_def copies_def)
  have "tracker_wf (snd (call_update h same old new t))" if "iobj_ok new" for same old new
    using w(4) handlers_keep_wf(3,4) [OF wf that] wf by (auto simp: call_update_def)
  then have "tracker_wf (snd (w e t))"
    unfolding w(1) by (intro filtering_keeps_wf [OF wf assms(2)]) (simp_all add: w(2,3) handlers_keep_wf [OF wf])
  then show "tracker_wf t'" using assms(3) by simp
qed

text \<open>A step that touches the cluster only, or one of the three steps of a job.\<close>

lemma server_step_cases:
  assumes "server_step env s s'"
  obtains (cluster) ks where "s' = s\<lparr>sim := ks\<rparr>" and "keeps (sim s) ks"
  | (accepted) g jid ks where "submit_job env g (sim s) = (jid, ks)" and "s' = s\<lparr>sim := ks, submitted := submitted s @ [jid]\<rparr>"
  | (taken) g jid q where "running_job s = None" and "fifo_Pop (fifoQueue (sim s)) = (Inr g, jid, q)"
      and "s' = s\<lparr>sim := (sim s)\<lparr>fifoQueue := q\<rparr>, running_job := Some (jid, g), started := started s @ [jid]\<rparr>"
  | (finished) jid g ks where "running_job s = Some (jid, g)" and "job_effect jid (sim s) ks"
      and "s' = s\<lparr>sim := ks, running_job := None\<rparr>"
  using assms
proof (cases rule: server_step.cases)
  case (finish jid g n fuel ks)
  then have "job_effect jid (sim s) ks"
    using run_job_effect [of jid "sim s" n fuel env g] by simp
  with finish finished show thesis by blast
next
  case (accept g jid ks)
  then show thesis using accepted by blast
next
  case (take_job g jid q)
  then show thesis using taken by blast
next
  case (add_nodes fuel cfg r ks)
  show thesis using cluster [OF add_nodes(1) keeps_handlers(1) [OF add_nodes(2)]] .
next
  case (del_nodes r ks)
  show thesis using cluster [OF del_nodes(1) keeps_handlers(2) [OF del_nodes(2)]] .
next
  case (old_apps fuel nodes apps r ks)
  show thesis using cluster [OF old_apps(1) keeps_handlers(3) [OF old_apps(2)]] .
next
  case (old_nodes fuel nodes apps r ks)
  show thesis using cluster [OF old_nodes(1) keeps_handlers(4) [OF old_nodes(2)]] .
next
  case (parse n)
  show thesis using cluster [OF parse] by (simp add: keeps_def same_books_def)
next
  case (real_event gr w e r t)
  show thesis using cluster [OF real_event(1)] watchers_keep_wf [OF real_event(2-4)] by simp
qed

lemma job_inv_step:
  assumes inj: "inj (e_uuid env)" and inv: "job_inv env s" and st: "server_step env s s'"
  shows "job_inv env s'"
  using st
proof (cases rule: server_step_cases)
  case (cluster ks)
  then show ?thesis using keeps_inv [OF inv] by simp
next
  case (accepted g jid ks)
  then show ?thesis using submit_inv(1) [OF inv inj] by simp
next
  case (taken g jid q)
  note i = job_invD [OF inv]
  note t = take_waiting [OF i(1) taken(2)]
  have "jid \<notin> set (started s)" using i(2,3) t(1) by simp
  then have none: "emulatorResult (sim s) jid = None" using i(6) by blast
  have sub: "submitted s = (started s @ [jid]) @ waiting ((sim s)\<lparr>fifoQueue := q\<rparr>)" using i(2) t(1) by simp
  have "dom (emulatorResult (sim s)) \<subseteq> set (started s @ [jid])" using i(6) by auto
  then show ?thesis using i(3,4,7) t(2) none sub unfolding taken(3) by (intro job_invI) simp_all
next
  case (finished jid g ks)
  note i = job_invD [OF inv]
  have e: "fifoQueue ks = fifoQueue (sim s)" "draws (sim s) \<le> draws ks"
    "\<And>k. k \<noteq> jid \<Longrightarrow> emulatorResult ks k = emulatorResult (sim s) k \<and> predictionNode ks k = predictionNode (sim s) k"
    "emulatorResult ks jid \<noteq> None \<or> predictionNode ks = predictionNode (sim s) \<and> emulatorResult ks = emulatorResult (sim s)"
    using finished(2) by (auto simp: job_effect_def keeps_but_def)
  have "set (submitted s) \<subseteq> e_uuid env ` {..<draws ks}"
    using i(4) draws_image [OF e(2)] by (rule order_trans)
  moreover have "k \<in> set (started s)" if "emulatorResult ks k \<noteq> None" for k
    using that e(3) [of k] i(5) [OF finished(1)] i(6) by (cases "k = jid") auto
  then have "dom (emulatorResult ks) \<subseteq> set (started s)" by auto
  moreover have "emulatorResult ks k \<noteq> None" if "predictionNode ks k \<noteq> None" for k
  proof -
    have "predictionNode (sim s) k \<noteq> None \<longrightarrow> emulatorResult (sim s) k \<noteq> None" using i(7) by auto
    then show ?thesis using that e(3) [of k] e(4) by (cases "k = jid") auto
  qed
  then have "dom (predictionNode ks) \<subseteq> dom (emulatorResult ks)" by (simp add: dom_def subset_iff)
  ultimately show ?thesis using i(1-3) e(1) unfolding finished(3)
    by (intro job_invI) (simp_all add: waiting_def)
qed

lemma job_inv_reachable:
  assumes "inj (e_uuid env)"
  shows "server_reachable env s \<Longrightarrow> job_inv env s"
proof (induction rule: server_reachable.induct)
  case (start ks)
  then show ?case
    using fifo_new_inv fifo_new_abs by (simp add: job_inv_def server_start_def waiting_def)
next
  case (step s s')
  then show ?case using job_inv_step [OF assms] by blast
qed

section \<open>Where a job is\<close>

datatype phase = Unknown | Waiting | Running | Ended | Lost

text \<open>\<open>Lost\<close>: the emulator returned an error, which was logged, and nothing was saved.\<close>

definition job_phase :: "server \<Rightarrow> string \<Rightarrow> phase" where
  "job_phase s jid =
     (if emulatorResult (sim s) jid \<noteq> None then Ended
      else if map_option fst (running_job s) = Some jid then Running
      else if jid \<in> set (waiting (sim s)) then Waiting
      else if jid \<in> set (started s) then Lost else Unknown)"

definition phase_moves :: "(phase \<times> phase) set" where
  "phase_moves = {(Unknown, Waiting), (Waiting, Running), (Running, Ended), (Running, Lost)}"

lemma waiting_get:
  assumes "fifo_inv (fifoQueue ks)"
  shows "fifo_Get (fifoQueue ks) jid \<noteq> None \<longleftrightarrow> jid \<in> set (waiting ks)"
  using fq.get_waiting [OF assms, of jid] by (simp add: waiting_def)

lemma phase_keeps: "keeps (sim s) ks \<Longrightarrow> job_phase (s\<lparr>sim := ks\<rparr>) jid = job_phase s jid"
  by (simp add: job_phase_def keeps_def same_books_def waiting_def)

lemma phase_step:
  assumes inj: "inj (e_uuid env)" and inv: "job_inv env s" and st: "server_step env s s'"
  shows "(job_phase s jid, job_phase s' jid) \<in> phase_moves\<^sup>="
  using st
proof (cases rule: server_step_cases)
  case (cluster ks)
  then show ?thesis by (simp add: phase_keeps)
next
  case (accepted g k ks)
  note i = job_invD [OF inv]
  note u = submit_inv [OF inv inj accepted(1)]
  have "k \<notin> set (started s)" "k \<notin> set (waiting (sim s))" using u(2) i(2) by simp_all
  moreover have "emulatorResult (sim s) k = None" using i(6) \<open>k \<notin> set (started s)\<close> by blast
  moreover have "map_option fst (running_job s) \<noteq> Some k"
    using i(5) \<open>k \<notin> set (started s)\<close> by fastforce
  ultimately show ?thesis using u(3,4) accepted(2)
    by (cases "jid = k") (simp_all add: job_phase_def phase_moves_def)
next
  case (taken g k q)
  note i = job_invD [OF inv]
  note t = take_waiting [OF i(1) taken(2)]
  have d: "k \<notin> set (started s)" "k \<notin> set (waiting ((sim s)\<lparr>fifoQueue := q\<rparr>))" using i(2,3) t(1) by simp_all
  then have none: "emulatorResult (sim s) k = None" using i(6) by blast
  show ?thesis
  proof (cases "jid = k")
    case True
    then show ?thesis using taken d none t(1) by (simp add: job_phase_def phase_moves_def)
  next
    case False
    then show ?thesis using taken t(1) by (simp add: job_phase_def)
  qed
next
  case (finished k g ks)
  note i = job_invD [OF inv]
  have k: "k \<in> set (started s)" "emulatorResult (sim s) k = None" using i(5) [OF finished(1)] by simp_all
  then have w: "k \<notin> set (waiting (sim s))" using i(2,3) by auto
  have e: "fifoQueue ks = fifoQueue (sim s)"
    "\<And>j. j \<noteq> k \<Longrightarrow> emulatorResult ks j = emulatorResult (sim s) j"
    using finished(2) by (simp_all add: job_effect_def keeps_but_def)
  have w': "waiting ks = waiting (sim s)" using e(1) by (simp add: waiting_def)
  show ?thesis
  proof (cases "jid = k")
    case True
    then show ?thesis using finished(1,3) k w w' by (simp add: job_phase_def phase_moves_def)
  next
    case False
    then show ?thesis using finished(1,3) e(2) [OF False] w' by (simp add: job_phase_def)
  qed
qed

text \<open>The phases are ordered: a job only moves forward.\<close>

fun phase_rank :: "phase \<Rightarrow> nat" where
  "phase_rank Unknown = 0"
| "phase_rank Waiting = 1"
| "phase_rank Running = 2"
| "phase_rank Ended = 3"
| "phase_rank Lost = 3"

instantiation phase :: order
begin

definition "p \<le> q \<longleftrightarrow> p = q \<or> phase_rank p < phase_rank q"
definition "p < q \<longleftrightarrow> phase_rank p < phase_rank q"

instance
  by standard (auto simp: less_eq_phase_def less_phase_def)

end

lemma phase_moves_less: "(p, q) \<in> phase_moves \<Longrightarrow> p < q"
  by (auto simp: phase_moves_def less_phase_def)

lemma ended_top: "Ended \<le> p \<Longrightarrow> p = Ended"
  by (cases p) (simp_all add: less_eq_phase_def)

text \<open>What the report handler answers in each phase.\<close>

definition phase_status :: "phase \<Rightarrow> job_status" where
  "phase_status p = (if p = Waiting then JobQueuing else JobProcessing)"

lemma report_phase:
  assumes "job_inv env s" and "job_phase s jid \<noteq> Ended"
  shows "EmulatorReport jid (sim s) = Ok \<lparr>JobID = jid, job_Status = phase_status (job_phase s jid), job_Report = [],
    PredictionNodeR = None\<rparr>"
proof -
  note i = job_invD [OF assms(1)]
  have none: "emulatorResult (sim s) jid = None" using assms(2) by (auto simp: job_phase_def split: if_splits)
  then have p: "predictionNode (sim s) jid = None" using i(7) by blast
  have "jid \<in> set (waiting (sim s)) \<Longrightarrow> map_option fst (running_job s) \<noteq> Some jid"
    using i(2,3,5) by fastforce
  then have "job_phase s jid = Waiting \<longleftrightarrow> jid \<in> set (waiting (sim s))"
    using none by (auto simp: job_phase_def)
  then show ?thesis using none p waiting_get [OF i(1)]
    by (simp add: EmulatorReport_def Let_def phase_status_def)
qed

lemma report_stable:
  assumes inj: "inj (e_uuid env)" and inv: "job_inv env s" and st: "server_step env s s'"
    and ended: "job_phase s jid = Ended"
  shows "EmulatorReport jid (sim s') = EmulatorReport jid (sim s)"
proof -
  have r: "emulatorResult (sim s) jid \<noteq> None" using ended by (auto simp: job_phase_def split: if_splits)
  have "emulatorResult (sim s') jid = emulatorResult (sim s) jid \<and> predictionNode (sim s') jid = predictionNode (sim s) jid"
    using st
  proof (cases rule: server_step_cases)
    case (cluster ks)
    then show ?thesis by (simp add: keeps_def same_books_def)
  next
    case (accepted g k ks)
    then show ?thesis using submit_inv(4,5) [OF inv inj] by simp
  next
    case (taken g k q)
    then show ?thesis by simp
  next
    case (finished k g ks)
    then have "jid \<noteq> k" using job_invD(5) [OF inv finished(1)] r by auto
    then show ?thesis using finished by (simp add: job_effect_def keeps_but_def)
  qed
  then show ?thesis using r by (auto simp: EmulatorReport_def Let_def split: option.splits)
qed

text \<open>What the reports say in all later states of the server, of a job whose emulator has returned.\<close>

lemma reachable_later: "(server_step env)\<^sup>*\<^sup>* s s' \<Longrightarrow> server_reachable env s \<Longrightarrow> server_reachable env s'"
  by (induction rule: rtranclp_induct) (auto intro: server_reachable.step)

lemma ended_later:
  assumes "inj (e_uuid env)" and "server_reachable env s" and "(server_step env)\<^sup>*\<^sup>* s s'" and "job_phase s jid = Ended"
  shows "job_phase s' jid = Ended \<and> EmulatorReport jid (sim s') = EmulatorReport jid (sim s)"
  using assms(3)
proof (induction rule: rtranclp_induct)
  case (step s1 s2)
  have inv: "job_inv env s1" by (rule job_inv_reachable [OF assms(1) reachable_later [OF step.hyps(1) assms(2)]])
  show ?case
    using phase_step [OF assms(1) inv step.hyps(2), of jid] report_stable [OF assms(1) inv step.hyps(2), of jid] step.IH
    by (auto simp: phase_moves_def)
qed (use assms(4) in simp)

lemma lost_later:
  assumes "inj (e_uuid env)" and "server_reachable env s" and "(server_step env)\<^sup>*\<^sup>* s s'" and "job_phase s jid = Lost"
  shows "EmulatorReport jid (sim s') = Ok \<lparr>JobID = jid, job_Status = JobProcessing, job_Report = [], PredictionNodeR = None\<rparr>"
proof -
  have "job_phase s' jid = Lost"
    using assms(3)
  proof (induction rule: rtranclp_induct)
    case (step s1 s2)
    have inv: "job_inv env s1" by (rule job_inv_reachable [OF assms(1) reachable_later [OF step.hyps(1) assms(2)]])
    show ?case using phase_step [OF assms(1) inv step.hyps(2), of jid] step.IH by (auto simp: phase_moves_def)
  qed (use assms(4) in simp)
  then show ?thesis
    using report_phase [OF job_inv_reachable [OF assms(1) reachable_later [OF assms(3,2)]], of jid]
    by (simp add: phase_status_def)
qed

lemma finished_later:
  assumes inj: "inj (e_uuid env)" and reach: "server_reachable env s" and run: "running_job s = Some (jid, g)"
    and ended: "run_job n fuel env g jid (sim s) = (Ok (), ks)"
    and later: "(server_step env)\<^sup>*\<^sup>* (s\<lparr>sim := ks, running_job := None\<rparr>) s'"
  shows "emulatorResult ks jid \<noteq> None \<Longrightarrow> EmulatorReport jid (sim s') = EmulatorReport jid ks"
    and "emulatorResult ks jid = None \<Longrightarrow> EmulatorReport jid (sim s') =
      Ok \<lparr>JobID = jid, job_Status = JobProcessing, job_Report = [], PredictionNodeR = None\<rparr>"
proof -
  let ?s = "s\<lparr>sim := ks, running_job := None\<rparr>"
  have st: "server_step env s ?s" using run ended by (rule server_step.finish)
  have r: "server_reachable env ?s" using reach st by (rule server_reachable.step)
  note i = job_invD [OF job_inv_reachable [OF inj reach]]
  have "jid \<in> set (started s)" "jid \<notin> set (waiting (sim s))" using i(2,3,5) run by auto
  moreover have "waiting ks = waiting (sim s)"
    using run_job_effect [of jid "sim s" n fuel env g] ended by (simp add: job_effect_def keeps_but_def waiting_def)
  ultimately have p: "job_phase ?s jid = (if emulatorResult ks jid \<noteq> None then Ended else Lost)"
    by (simp add: job_phase_def)
  show "EmulatorReport jid (sim s') = EmulatorReport jid ks" if "emulatorResult ks jid \<noteq> None"
    using ended_later [OF inj r later] p that by simp
  show "EmulatorReport jid (sim s') = Ok \<lparr>JobID = jid, job_Status = JobProcessing, job_Report = [], PredictionNodeR = None\<rparr>"
    if "emulatorResult ks jid = None"
    using lost_later [OF inj r later] p that by simp
qed

lemma EmulatorReport_running:
  assumes "inj (e_uuid env)" and "server_reachable env s" and "running_job s = Some (jid, g)"
    and "keeps_but jid (sim s) ks" and "emulatorResult ks = emulatorResult (sim s)" and "predictionNode ks = predictionNode (sim s)"
  shows "EmulatorReport jid ks = Ok \<lparr>JobID = jid, job_Status = JobProcessing, job_Report = [], PredictionNodeR = None\<rparr>"
proof -
  note inv = job_inv_reachable [OF assms(1,2)]
  have none: "emulatorResult (sim s) jid = None" using job_invD(5) [OF inv assms(3)] by simp
  then have p: "job_phase s jid = Running" using assms(3) by (simp add: job_phase_def)
  have "fifoQueue ks = fifoQueue (sim s)" using assms(4) by (simp add: keeps_but_def)
  then have "EmulatorReport jid ks = EmulatorReport jid (sim s)" using assms(5,6) none by (simp add: EmulatorReport_def)
  then show ?thesis using report_phase [OF inv, of jid] p by (simp add: phase_status_def)
qed

text \<open>A state in which a job is running, for the examples.\<close>

lemma running_reachable:
  assumes "fifoQueue ks = NewFIFOQueue" and "emulatorResult ks = Map.empty" and "predictionNode ks = Map.empty"
    and "submit_job env g ks = (jid, ks1)" and "fifo_Pop (fifoQueue ks1) = (Inr g, jid, q)"
  shows "server_reachable env \<lparr>sim = ks1\<lparr>fifoQueue := q\<rparr>, running_job = Some (jid, g), submitted = [jid], started = [jid]\<rparr>"
proof -
  let ?s = "server_start ks"
  have r: "server_reachable env ?s" using assms(1-3) by (rule server_reachable.start)
  have "server_step env ?s (?s\<lparr>sim := ks1, submitted := submitted ?s @ [jid]\<rparr>)"
    by (rule server_step.accept [where g = g]) (simp add: server_start_def assms(4))
  with r have r1: "server_reachable env (?s\<lparr>sim := ks1, submitted := submitted ?s @ [jid]\<rparr>)" by (rule server_reachable.step)
  let ?s1 = "?s\<lparr>sim := ks1, submitted := submitted ?s @ [jid]\<rparr>"
  have "server_step env ?s1 (?s1\<lparr>sim := (sim ?s1)\<lparr>fifoQueue := q\<rparr>, running_job := Some (jid, g), started := started ?s1 @ [jid]\<rparr>)"
    by (rule server_step.take_job) (simp_all add: server_start_def assms(5))
  with r1 have "server_reachable env (?s1\<lparr>sim := (sim ?s1)\<lparr>fifoQueue := q\<rparr>, running_job := Some (jid, g), started := started ?s1 @ [jid]\<rparr>)"
    by (rule server_reachable.step)
  then show ?thesis by (simp add: server_start_def)
qed

section \<open>Properties\<close>

text \<open>
  C5. Jobs start in the order they were submitted and each at most once: in every reachable state of
  the server the submitted ids, which are distinct, are those already started followed by those
  that wait in the queue. Only started jobs have results and predictions, and the running job has none yet.
\<close>

theorem jobs_start_in_order:
  assumes "inj (e_uuid env)" and "server_reachable env s"
  shows "submitted s = started s @ waiting (sim s) \<and> distinct (submitted s) \<and>
    (\<forall>jid. emulatorResult (sim s) jid \<noteq> None \<or> predictionNode (sim s) jid \<noteq> None \<longrightarrow> jid \<in> set (started s)) \<and>
    (\<forall>jid g. running_job s = Some (jid, g) \<longrightarrow> jid \<in> set (started s) \<and> emulatorResult (sim s) jid = None)"
proof -
  note i = job_invD [OF job_inv_reachable [OF assms]]
  have "jid \<in> set (started s)" if "emulatorResult (sim s) jid \<noteq> None \<or> predictionNode (sim s) jid \<noteq> None" for jid
    using that i(6,7) by blast
  then show ?thesis using i(2,3,5) by blast
qed

text \<open>
  C3. The life of a job id as its reports show it. Every event leaves a job where it is or moves it
  from unknown to waiting, from waiting to running, or from running to ended or lost; an ended
  job's report never changes again. Before that the answer is Queuing exactly while the job waits
  and Processing otherwise, also for an id that was never submitted and for a job whose emulator
  failed.
\<close>

theorem job_life_cycle:
  assumes "inj (e_uuid env)" and "server_reachable env s" and "server_step env s s'"
  shows "(job_phase s jid, job_phase s' jid) \<in> phase_moves\<^sup>= \<and>
    (job_phase s jid = Ended \<longrightarrow> EmulatorReport jid (sim s') = EmulatorReport jid (sim s)) \<and>
    (job_phase s jid \<noteq> Ended \<longrightarrow>
      EmulatorReport jid (sim s) = Ok \<lparr>JobID = jid, job_Status = phase_status (job_phase s jid),
        job_Report = [], PredictionNodeR = None\<rparr>)"
proof -
  note inv = job_inv_reachable [OF assms(1,2)]
  show ?thesis
    using phase_step [OF assms(1) inv assms(3)] report_stable [OF assms(1) inv assms(3)] report_phase [OF inv]
    by blast
qed

text \<open>
  Jobs never go back: along every run of the server the phase of an id only grows in the order
  Unknown, Waiting, Running, and then Ended or Lost; once a job has ended its report stays the same
  for ever.
\<close>

lemma jobs_never_go_back:
  assumes "inj (e_uuid env)" and "server_reachable env s" and "(server_step env)\<^sup>*\<^sup>* s s'"
  shows "job_phase s jid \<le> job_phase s' jid \<and>
    (job_phase s jid = Ended \<longrightarrow> EmulatorReport jid (sim s') = EmulatorReport jid (sim s))"
  using assms(3)
proof (induction rule: rtranclp_induct)
  case (step s1 s2)
  from step.hyps(1) have "server_reachable env s1"
    by (induction rule: rtranclp_induct) (use assms(2) server_reachable.step in blast)+
  then have inv: "job_inv env s1" by (rule job_inv_reachable [OF assms(1)])
  have "job_phase s1 jid \<le> job_phase s2 jid"
    using phase_step [OF assms(1) inv step.hyps(2), of jid] phase_moves_less by (auto simp: order.strict_iff_order)
  moreover have "EmulatorReport jid (sim s2) = EmulatorReport jid (sim s1)" if "job_phase s jid = Ended"
    using report_stable [OF assms(1) inv step.hyps(2)] ended_top step.IH that by simp
  ultimately show ?case using step.IH order_trans by fastforce
qed simp

text \<open>
  The simulated cluster stays well typed on every run of the server, whatever its jobs, its requests and
  the events of the real cluster do, on the paths that fail too: every resource holds objects of its
  own type under their own keys, so a lookup answers not found or the pod or node of that name, and
  the typed lists leave nothing out and name nothing twice.
\<close>

lemma step_keeps_wf:
  assumes "server_step env s s'" and "tracker_wf (externalkubeclient (sim s))"
  shows "tracker_wf (externalkubeclient (sim s'))"
  using assms(1)
  by (cases rule: server_step_cases)
    (use assms(2) in \<open>auto simp: keeps_def job_effect_def keeps_but_def submit_job_def Let_def\<close>)

lemma lookup_well_typed:
  assumes "tracker_wf t"
  shows "(case tracker_Get Pods ns nm t of Inl e \<Rightarrow> e = NotFound nm | Inr x \<Rightarrow> \<exists>p. x = PodObj p \<and> pod_key p = (ns, nm))"
    and "(case tracker_Get Nodes ns nm t of Inl e \<Rightarrow> e = NotFound nm | Inr x \<Rightarrow> \<exists>n. x = NodeObj n \<and> node_key n = (ns, nm))"
  by (auto simp: tracker_Get_def split: option.split elim: pod_stored [OF assms] node_stored [OF assms])

lemma cluster_well_typed:
  assumes "(server_step env)\<^sup>*\<^sup>* s s'" and "tracker_wf (externalkubeclient (sim s))"
  defines "t \<equiv> externalkubeclient (sim s')"
  shows "tracker_wf t \<and>
    (case tracker_Get Pods ns nm t of Inl e \<Rightarrow> e = NotFound nm | Inr x \<Rightarrow> \<exists>p. x = PodObj p \<and> pod_key p = (ns, nm)) \<and>
    (case tracker_Get Nodes ns nm t of Inl e \<Rightarrow> e = NotFound nm | Inr x \<Rightarrow> \<exists>n. x = NodeObj n \<and> node_key n = (ns, nm)) \<and>
    map PodObj (list_pods ns sel t) = client_List Pods ns sel t \<and> distinct (map pod_key (list_pods ns sel t)) \<and>
    map NodeObj (list_nodes sel t) = client_List Nodes [] sel t \<and> distinct (map node_key (list_nodes sel t))"
proof -
  have wf: "tracker_wf t"
    unfolding t_def using assms(1,2) by (induction rule: rtranclp_induct) (auto intro: step_keeps_wf)
  show ?thesis
    using wf lookup_well_typed [OF wf] list_pods_objs [OF wf] distinct_list_pods [OF wf] list_nodes_objs [OF wf]
      distinct_list_nodes [OF wf] by blast
qed

text \<open>
  C31. The retry of \<open>VerticalEmulator\<close> cannot make a job succeed. When a request of the first pass could not
  be scheduled, the emulator runs all requests again without their node selector, but the reports
  of the first pass stay in the result. However the second pass ends, the report on the job is never
  Succeed: when the emulator returns a result, it starts with the reports of the first pass and the
  report is Failed in every later state of the server; when it returns an error, no result is stored and
  the report is Processing in every later state; when it panics or has not returned, the report is Processing.
\<close>

theorem VerticalEmulator_retry_fails:
  assumes "inj (e_uuid env)" and "server_reachable env s" and "running_job s = Some (jid, g)"
    and "EmulatorType g = ''VerticalEmulator''"
    and "delete_pods (\<lambda>_. Msg ''unable delete old pod'') (ag_OldPods g) (sim s) = (Ok (), ks1)"
    and "run_apps fuel env (ag_Apps g) [] ks1 = (Ok rvs1, ks2)" and "verdict rvs1 = Ok JobFailed"
    and "VerticalEmulator fuel env g jid (sim s) = (r, ks')"
  shows "(case r of
      Ok rvs \<Rightarrow> (\<exists>more. rvs = rvs1 @ more) \<and> (\<exists>jr. EmulatorReport jid ks' = Ok jr \<and> job_Report jr = rvs \<and> job_Status jr = JobFailed)
    | _ \<Rightarrow> EmulatorReport jid ks' = Ok \<lparr>JobID = jid, job_Status = JobProcessing, job_Report = [], PredictionNodeR = None\<rparr>) \<and>
    ((\<exists>x. r = Ok x) \<or> (\<exists>e. r = Err e) \<longrightarrow> (\<forall>s'. (server_step env)\<^sup>*\<^sup>* (s\<lparr>sim := ks', running_job := None\<rparr>) s' \<longrightarrow>
       EmulatorReport jid (sim s') = EmulatorReport jid ks'))"
proof -
  have sv: "saves jid Some (sim s) (r, ks')" using saves_VerticalEmulator [of jid "sim s" fuel env g] assms(8) by simp
  have j: "run_job n fuel env g jid (sim s) = (Ok (), ks')" if "(\<exists>x. r = Ok x) \<or> (\<exists>e. r = Err e)" for n
    using that assms(4,8) by (auto simp: run_job_def)
  have none: "EmulatorReport jid ks' = Ok \<lparr>JobID = jid, job_Status = JobProcessing, job_Report = [], PredictionNodeR = None\<rparr>"
    if "\<not> (\<exists>x. r = Ok x)"
    using sv that by (intro EmulatorReport_running [OF assms(1-3)]; cases r) (simp_all add: saves_def)
  show ?thesis
  proof (cases r)
    case (Ok rvs)
    have "\<exists>more jr. rvs = rvs1 @ more \<and> EmulatorReport jid ks' = Ok jr \<and> job_Report jr = rvs \<and> job_Status jr = JobFailed"
      by (rule retry_verdict [OF assms(6,7,5)]) (use assms(8) Ok in simp)
    moreover have "emulatorResult ks' jid \<noteq> None" using sv Ok by (simp add: saves_def)
    then have "EmulatorReport jid (sim s') = EmulatorReport jid ks'"
      if "(server_step env)\<^sup>*\<^sup>* (s\<lparr>sim := ks', running_job := None\<rparr>) s'" for s'
      using finished_later(1) [OF assms(1-3) j that] Ok by blast
    ultimately show ?thesis using Ok by auto
  next
    case (Err e)
    have "emulatorResult (sim s) jid = None" using job_invD(5) [OF job_inv_reachable [OF assms(1,2)] assms(3)] by simp
    then have "emulatorResult ks' jid = None" using sv Err by (simp add: saves_def)
    then have "EmulatorReport jid (sim s') = EmulatorReport jid ks'"
      if "(server_step env)\<^sup>*\<^sup>* (s\<lparr>sim := ks', running_job := None\<rparr>) s'" for s'
      using finished_later(2) [OF assms(1-3) j that] none Err by auto
    then show ?thesis using none Err by auto
  qed (use none in auto)
qed

lemma first_repeated: "\<not> distinct (map f xs) \<Longrightarrow> \<exists>us x vs. xs = us @ x # vs \<and> distinct (map f us) \<and> f x \<in> f ` set us"
proof (induction xs rule: rev_induct)
  case (snoc x xs)
  show ?case
  proof (cases "distinct (map f xs)")
    case True
    then show ?thesis using snoc.prems by (intro exI [of _ xs] exI [of _ x] exI [of _ "[]"]) auto
  next
    case False
    then obtain us y vs where "xs = us @ y # vs" "distinct (map f us)" "f y \<in> f ` set us" using snoc.IH by blast
    then show ?thesis by (intro exI [of _ us] exI [of _ y] exI [of _ "vs @ [x]"]) simp
  qed
qed simp

lemma map_filter_append: "List.map_filter f (xs @ ys) = List.map_filter f xs @ List.map_filter f ys"
  by (simp add: List.map_filter_def)

lemma delete_each_append:
  "delete_each d (xs @ ys) s = (case delete_each d xs s of (None, s') \<Rightarrow> delete_each d ys s' | r \<Rightarrow> r)"
  by (induction xs arbitrary: s) (auto split: sum.splits)

lemma GetPod_found: "tracker_wf (externalkubeclient ks) \<Longrightarrow> GetPod nm ns ks = Ok p \<Longrightarrow>
   objs (externalkubeclient ks) Pods (pod_key p) = Some (PodObj p) \<and> pod_key p = (ns, nm)"
  by (auto simp: GetPod_def tracker_Get_def split: sum.splits option.splits kobj.splits
      elim: pod_stored dest: tracker_wf_objs)

lemma found_twice:
  assumes wf: "tracker_wf (externalkubeclient ks)"
    and at: "objs (externalkubeclient ks) Pods (pi_NameSpace i, pi_Name i) = Some x"
    and j: "pi_NameSpace j = pi_NameSpace i" "pi_Name j = pi_Name i"
  shows "\<not> distinct (map pod_key (found_pods ks (is @ i # js @ j # ls)))"
proof -
  obtain p where "x = PodObj p" by (rule pod_stored [OF wf at])
  then have "GetPod (pi_Name i) (pi_NameSpace i) ks = Ok p" using at by (simp add: GetPod_def tracker_Get_def)
  then show ?thesis using j by (simp add: found_pods_def map_filter_simps map_filter_append)
qed

text \<open>
  C32. A job of kind AppsPodEmulator that lists an existing pod twice destroys pods. The emulator deletes the
  pods it has found one after the other; at the first one that is listed before, the deletion fails
  and the emulator returns. The pods deleted until then, at least one, are not put back: the cluster is the
  old one without them. No result is stored, so in every later state of the server the
  report on the job is Processing.
\<close>

theorem appsPodEmulator_duplicate_loses_pod:
  assumes "inj (e_uuid env)" and "server_reachable env s" and "running_job s = Some (jid, g)"
    and "EmulatorType g = ''AppsPodEmulator''" and "ag_PodsConfig g = Some pc"
    and "pc_Pods pc = is @ i # js @ j # ls" and "pi_NameSpace j = pi_NameSpace i" and "pi_Name j = pi_Name i"
    and "tracker_wf (externalkubeclient (sim s))"
    and "objs (externalkubeclient (sim s)) Pods (pi_NameSpace i, pi_Name i) = Some x"
  shows "\<exists>lost p more e ks'. found_pods (sim s) (pc_Pods pc) = lost @ p # more \<and> pod_key p \<in> pod_key ` set lost \<and>
    appsPodEmulator fuel env g jid (sim s) = (Err e, ks') \<and>
    objs (externalkubeclient ks') = (objs (externalkubeclient (sim s)))
      (Pods := objs (externalkubeclient (sim s)) Pods |` (- pod_key ` set lost)) \<and>
    run_job n fuel env g jid (sim s) = (Ok (), ks') \<and>
    (\<forall>s'. (server_step env)\<^sup>*\<^sup>* (s\<lparr>sim := ks', running_job := None\<rparr>) s' \<longrightarrow> EmulatorReport jid (sim s') =
       Ok \<lparr>JobID = jid, job_Status = JobProcessing, job_Report = [], PredictionNodeR = None\<rparr>)"
proof -
  let ?ps = "found_pods (sim s) (pc_Pods pc)" and ?t = "externalkubeclient (sim s)"
  have "\<not> distinct (map pod_key ?ps)" unfolding assms(6) by (rule found_twice [OF assms(9,10,7,8)])
  then obtain us p vs where u: "?ps = us @ p # vs" "distinct (map pod_key us)" "pod_key p \<in> pod_key ` set us"
    using first_repeated by blast
  have old: "objs ?t Pods k \<noteq> None" if "k \<in> set (map pod_key us)" for k
  proof -
    from that obtain q where q: "q \<in> set us" "k = pod_key q" by auto
    then have "q \<in> set ?ps" using u(1) by simp
    then obtain l :: pods_info where "GetPod (pi_Name l) (pi_NameSpace l) (sim s) = Ok q"
      by (auto simp: found_pods_def List.map_filter_def split: res.splits option.splits)
    from GetPod_found [OF assms(9) this] show ?thesis unfolding q(2) by blast
  qed
  obtain t where t: "delete_each (delete_key Pods) (map pod_key us) ?t = (None, t)" "tracker_wf t"
    "objs t = (objs ?t)(Pods := objs ?t Pods |` (- set (map pod_key us)))"
    using ts.delete_each_old [OF assms(9) u(2) old] by blast
  have "objs t Pods (pod_key p) = None" using t(3) u(3) by (auto simp: restrict_map_def)
  then have "delete_key Pods (pod_key p) t = Inl (NotFound (pod_Name p))" by (simp add: delete_key_eq pod_key_def)
  then have "delete_each (delete_key Pods) (map pod_key ?ps) ?t = (Some (NotFound (pod_Name p)), t)"
    using t(1) unfolding u(1) by (simp add: delete_each_append)
  then obtain e where e: "appsPodEmulator fuel env g jid (sim s) = (Err e, (sim s)\<lparr>externalkubeclient := t\<rparr>)"
    using assms(5) by (simp add: appsPodEmulator_def GetAppsPod_def delete_pods_each)
  let ?ks = "(sim s)\<lparr>externalkubeclient := t\<rparr>"
  have run: "run_job n fuel env g jid (sim s) = (Ok (), ?ks)" using e assms(4) by (simp add: run_job_def)
  have "emulatorResult ?ks jid = None" using job_invD(5) [OF job_inv_reachable [OF assms(1,2)] assms(3)] by simp
  then have "\<forall>s'. (server_step env)\<^sup>*\<^sup>* (s\<lparr>sim := ?ks, running_job := None\<rparr>) s' \<longrightarrow> EmulatorReport jid (sim s') =
      Ok \<lparr>JobID = jid, job_Status = JobProcessing, job_Report = [], PredictionNodeR = None\<rparr>"
    using finished_later(2) [OF assms(1-3) run] by blast
  then show ?thesis
    using u(1,3) e run t(3)
    by - (rule exI [of _ us], rule exI [of _ p], rule exI [of _ vs], rule exI [of _ e], rule exI [of _ ?ks], simp)
qed

text \<open>Examples: the server has just taken its first job.\<close>

definition job_taken :: "env \<Rightarrow> tracker \<Rightarrow> app_group \<Rightarrow> server" where
  "job_taken env t g =
     (let (jid, ks) = submit_job env g (New ''addNode'' t); (_, _, q) = fifo_Pop (fifoQueue ks) in
      \<lparr>sim = ks\<lparr>fifoQueue := q\<rparr>, running_job = Some (jid, g), submitted = [jid], started = [jid]\<rparr>)"

lemma job_taken_reachable: "server_reachable env (job_taken env t g)"
proof -
  obtain jid ks where s: "submit_job env g (New ''addNode'' t) = (jid, ks)" by fastforce
  obtain q where q: "fifo_Pop (fifoQueue ks) = (Inr g, jid, q)"
    using s by (auto simp: submit_job_def Let_def fifo_Pop_def fifo_Push_def NewFIFOQueue_def)
  show ?thesis
    using running_reachable [OF _ _ _ s q] by (simp add: job_taken_def s q)
qed

lemma job_taken_facts:
  "running_job (job_taken env t g) = Some (e_uuid env 0, g)"
  "externalkubeclient (sim (job_taken env t g)) = t"
  by (simp_all add: job_taken_def submit_job_def Let_def split: prod.split)

theorem VerticalEmulator_retry_fails_witness:
  "\<exists>rvs ks' jr. VerticalEmulator 1 pinned_env pinned_group ''x'' (sim (job_taken pinned_env (\<lambda>_. []) pinned_group)) = (Ok rvs, ks') \<and>
    reason_types rvs = [''Unschedulable'', ''Schedulable''] \<and> EmulatorReport ''x'' ks' = Ok jr \<and> job_Status jr = JobFailed"
proof -
  let ?s = "job_taken pinned_env (\<lambda>_. []) pinned_group"
  have r: "running_job ?s = Some (''x'', pinned_group)"
    by (simp add: job_taken_facts pinned_env_def)
  have "map_res verdict (fst (run_apps 1 pinned_env (ag_Apps pinned_group) [] (sim ?s))) = Ok (Ok JobFailed)" by code_simp
  then obtain rvs1 ks2 where 1: "run_apps 1 pinned_env (ag_Apps pinned_group) [] (sim ?s) = (Ok rvs1, ks2)" "verdict rvs1 = Ok JobFailed"
    by (auto simp: map_res_Ok prod_eq_iff)
  have "map_res reason_types (fst (VerticalEmulator 1 pinned_env pinned_group ''x'' (sim ?s))) =
      Ok [''Unschedulable'', ''Schedulable'']"
    by code_simp
  then obtain rvs ks' where 2: "VerticalEmulator 1 pinned_env pinned_group ''x'' (sim ?s) =
      (Ok rvs, ks')" "reason_types rvs = [''Unschedulable'', ''Schedulable'']"
    by (auto simp: map_res_Ok prod_eq_iff)
  have d: "delete_pods f (ag_OldPods pinned_group) ks = (Ok (), ks)" for f ks by (simp add: pinned_group_def)
  have k: "EmulatorType pinned_group = ''VerticalEmulator''" by (simp add: pinned_group_def)
  have inj: "inj (e_uuid pinned_env)" by (rule injI) (simp add: pinned_env_def)
  from VerticalEmulator_retry_fails [OF inj job_taken_reachable r k d 1 2(1)] 2 show ?thesis by auto
qed

theorem appsPodEmulator_duplicate_loses_pod_witness:
  "\<exists>s jid g e ks'. server_reachable first_fit_env s \<and> running_job s = Some (jid, g) \<and>
    objs (externalkubeclient (sim s)) Pods \<noteq> Map.empty \<and>
    appsPodEmulator 1 first_fit_env g jid (sim s) = (Err e, ks') \<and> objs (externalkubeclient ks') Pods = Map.empty"
proof -
  let ?pc = "web_config\<lparr>pc_Pods := pc_Pods web_config @ pc_Pods web_config\<rparr>"
  let ?g = "example_group\<lparr>EmulatorType := ''AppsPodEmulator'', ag_PodsConfig := Some ?pc\<rparr>"
  let ?i = "\<lparr>pi_Name = ''web'', pi_NameSpace = ''ns'', pi_TargetNodeName = []\<rparr>"
  let ?s = "job_taken first_fit_env old_cluster ?g"
  have h: "EmulatorType ?g = ''AppsPodEmulator''" "ag_PodsConfig ?g = Some ?pc" "pc_Pods ?pc = [] @ ?i # [] @ ?i # []"
    by (simp_all add: web_config_def)
  have at: "objs (externalkubeclient (sim ?s)) Pods (pi_NameSpace ?i, pi_Name ?i) = Some (PodObj old_web)"
    by (simp add: old_cluster_pods job_taken_facts)
  have wf: "tracker_wf (externalkubeclient (sim ?s))" by (simp add: old_cluster_wf job_taken_facts)
  obtain lost p more e ks' where l: "pod_key p \<in> pod_key ` set lost"
    "found_pods (sim ?s) (pc_Pods ?pc) = lost @ p # more"
    "appsPodEmulator 1 first_fit_env ?g (e_uuid first_fit_env 0) (sim ?s) = (Err e, ks')"
    "objs (externalkubeclient ks') = (objs (externalkubeclient (sim ?s)))
      (Pods := objs (externalkubeclient (sim ?s)) Pods |` (- pod_key ` set lost))"
    using appsPodEmulator_duplicate_loses_pod [OF first_fit_inj job_taken_reachable job_taken_facts(1) h refl refl wf at, where fuel = 1 and n = 1]
    by (elim exE conjE) (rule that)
  have "pod_key ` set lost \<subseteq> pod_key ` set (found_pods (sim ?s) (pc_Pods ?pc))" unfolding l(2) by auto
  also have "\<dots> \<subseteq> {(''ns'', ''web'')}"
    using wf old_cluster_pods by (auto simp: found_pods_def web_config_def map_filter_simps GetPod_def tracker_Get_def
        job_taken_facts old_web_def example_pod_def pod_key_def split: option.splits res.splits)
  finally have "pod_key ` set lost = {(''ns'', ''web'')}" using l(1) by auto
  then have "objs (externalkubeclient ks') Pods = Map.empty"
    unfolding l(4) by (auto simp: job_taken_facts old_cluster_pods restrict_map_def)
  then show ?thesis
    using l(3) at job_taken_facts(1) job_taken_reachable
    by - (rule exI [of _ ?s], rule exI [of _ "e_uuid first_fit_env 0"], rule exI [of _ ?g], rule exI [of _ e], rule exI [of _ ks'],
      auto)
qed

definition first_server :: server where
  "first_server = server_start (New ''addNode'' (\<lambda>_. []))"

lemma first_reachable: "server_reachable env first_server"
  unfolding first_server_def by (rule server_reachable.start) simp_all

lemma second_reachable:
  "\<exists>s jid. server_step env first_server s \<and> server_reachable env s \<and> submitted s = [jid]"
proof -
  obtain jid ks where "submit_job env empty_group (sim first_server) = (jid, ks)" by fastforce
  then have st: "server_step env first_server (first_server\<lparr>sim := ks, submitted := submitted first_server @ [jid]\<rparr>)"
    by (rule server_step.accept)
  then show ?thesis using server_reachable.step [OF first_reachable st] by (fastforce simp: first_server_def server_start_def)
qed

lemma cluster_well_typed_example:
  "\<exists>s. (server_step first_fit_env)\<^sup>*\<^sup>* (server_start (New ''addNode'' old_cluster)) s \<and> submitted s \<noteq> [] \<and>
    tracker_wf (externalkubeclient (sim s))"
proof -
  let ?s = "server_start (New ''addNode'' old_cluster)"
  obtain jid ks where "submit_job first_fit_env empty_group (sim ?s) = (jid, ks)" by fastforce
  then have st: "server_step first_fit_env ?s (?s\<lparr>sim := ks, submitted := submitted ?s @ [jid]\<rparr>)"
    by (rule server_step.accept)
  have "tracker_wf (externalkubeclient (sim ?s))" by (simp add: server_start_def old_cluster_wf)
  from cluster_well_typed [OF r_into_rtranclp [of "server_step first_fit_env", OF st] this]
  show ?thesis using st by (intro exI [of _ "?s\<lparr>sim := ks, submitted := submitted ?s @ [jid]\<rparr>"]) auto
qed

theorem jobs_start_in_order_witness:
  "\<exists>s jid. server_reachable first_fit_env s \<and> submitted s = [jid] \<and> [jid] = started s @ waiting (sim s)"
proof -
  obtain s jid where s: "server_reachable first_fit_env s" "submitted s = [jid]"
    using second_reachable by blast
  with jobs_start_in_order [OF first_fit_inj s(1)] show ?thesis by metis
qed

lemma jobs_never_go_back_example:
  "\<exists>s jid. (server_step first_fit_env)\<^sup>*\<^sup>* first_server s \<and> submitted s = [jid] \<and> job_phase first_server jid \<le> job_phase s jid"
proof -
  obtain s jid where s: "server_step first_fit_env first_server s" "submitted s = [jid]"
    using second_reachable by blast
  then have run: "(server_step first_fit_env)\<^sup>*\<^sup>* first_server s" by blast
  then show ?thesis using s(2) jobs_never_go_back [OF first_fit_inj first_reachable run] by blast
qed

theorem job_life_cycle_witness:
  "\<exists>s jid. server_step first_fit_env first_server s \<and> submitted s = [jid] \<and>
    (job_phase first_server jid, job_phase s jid) \<in> phase_moves\<^sup>="
proof -
  obtain s jid where s: "server_step first_fit_env first_server s" "submitted s = [jid]"
    using second_reachable by blast
  with job_life_cycle [OF first_fit_inj first_reachable s(1), of jid] show ?thesis by blast
qed

section \<open>What is submitted\<close>

text \<open>The queue after a submission, and what the worker does with the only job of a queue.\<close>

lemma submit_job_queue:
  assumes "fifo_inv (fifoQueue ks)" and "e_uuid env (draws ks) \<notin> set (waiting ks)" and "submit_job env g ks = (jid, ks')"
  shows "jid = e_uuid env (draws ks)" and "fifo_abs (fifoQueue ks') = fifo_abs (fifoQueue ks) @ [(jid, g)]"
    and "fifo_inv (fifoQueue ks')" and "externalkubeclient ks' = externalkubeclient ks"
proof -
  have ks': "ks' = ks\<lparr>draws := Suc (draws ks), fifoQueue := fifo_Push jid g (fifoQueue ks)\<rparr>"
    and jid: "jid = e_uuid env (draws ks)"
    using assms(3) by (auto simp: submit_job_def Let_def)
  have n: "jid \<notin> fst ` set (fifo_abs (fifoQueue ks))" using assms(2) jid by (simp add: waiting_def)
  show "jid = e_uuid env (draws ks)" by (rule jid)
  show "fifo_abs (fifoQueue ks') = fifo_abs (fifoQueue ks) @ [(jid, g)]" "fifo_inv (fifoQueue ks')"
    using fq.push_abs [OF assms(1) n] fq.push_inv [OF assms(1) n] by (simp_all add: ks')
  show "externalkubeclient ks' = externalkubeclient ks" by (simp add: ks')
qed

lemma worker_takes:
  assumes "fifo_inv (fifoQueue ks)" and "fifo_abs (fifoQueue ks) = (jid, g) # rest"
  obtains q where "worker_iteration n fuel env ks = run_job n fuel env g jid (ks\<lparr>fifoQueue := q\<rparr>)"
    and "fifo_inv q" and "fifo_abs q = rest"
proof -
  obtain q where "fifo_Pop (fifoQueue ks) = (Inr g, jid, q)" "fifo_inv q" "fifo_abs q = rest"
    using fq.pop_some [OF assms] by blast
  then show thesis using that by (simp add: worker_iteration_def)
qed

lemma fst_panic:
  "fst m = Panic p \<Longrightarrow> fst (seq m f h) = Panic p" "fst m = Panic p \<Longrightarrow> fst (logged m) = Panic p"
  by (cases m, simp)+

text \<open>Applications of a kind the horizontal emulator does not know keep the variable as it is.\<close>

lemma horizontal_other_kinds:
  "\<forall>app \<in> set apps. pr_Kind app \<noteq> ''deployment'' \<and> pr_Kind app \<noteq> ''statefulsets'' \<Longrightarrow>
   horizontal_loop ext apps r us = Ok (us @ replicate (length apps) r)"
  by (induction apps arbitrary: us) (simp_all add: replicate_app_Cons_same)

text \<open>
  C38. Horizontal scaling of stateful sets crashes the server: the parser gives the kind statefulset,
  the emulator compares with statefulsets, so the job that is accepted holds requests without a
  pod, and the worker panics on the nil pod when it takes it.
\<close>

theorem Horizontal_statefulset_panics:
  assumes "AppsParseToPod uuid i kind decoded = Ok (nodes, apps)" and "ToLower kind = ''statefulset''" and "apps \<noteq> []"
    and "fifo_inv (fifoQueue ks)" and "waiting ks = []"
  shows "\<exists>jid ks'. HorizontalHandler env ext nodes apps ks = (Ok jid, ks') \<and> waiting ks' = [jid] \<and>
    fst (worker_iteration n fuel env ks') = Panic NilDereference"
proof -
  have kinds: "\<forall>app \<in> set apps. pr_Kind app = ''statefulset''"
  proof -
    obtain dm :: apps where "parse_each ParseStatefulSetToPod uuid i ''statefulset'' (a_StatefulsetApps dm) = Ok apps"
      using assms(1,2) by (auto simp: AppsParseToPod_def map_res_Ok split: sum.splits)
    from parse_each_runnable [OF this] ParseStatefulSetToPod_pos show ?thesis by blast
  qed
  then have loop: "horizontal_loop ext apps zero_request [] = Ok (replicate (length apps) zero_request)"
    using horizontal_other_kinds [of apps ext zero_request "[]"] by simp
  let ?g = "empty_group\<lparr>EmulatorType := ''HorizontalEmulator'', ag_Apps := replicate (length apps) zero_request\<rparr>"
  obtain jid ks' where sub: "submit_job env ?g ks = (jid, ks')" by fastforce
  have none: "e_uuid env (draws ks) \<notin> set (waiting ks)" using assms(5) by simp
  note q = submit_job_queue [OF assms(4) none sub]
  have abs: "fifo_abs (fifoQueue ks') = [(jid, ?g)]"
    using q(2) assms(5) by (simp add: waiting_def)
  obtain q' where w: "worker_iteration n fuel env ks' = run_job n fuel env ?g jid (ks'\<lparr>fifoQueue := q'\<rparr>)"
    by (rule worker_takes [OF q(3) abs])
  obtain m where m: "length apps = Suc m" using assms(3) by (cases apps) auto
  have "fst (run_apps fuel env (replicate (length apps) zero_request) [] k) = Panic NilDereference" for k
    by (simp add: m SchedulerPod_def nextPod_def zero_request_def)
  then have "fst (HorizontalEmulator fuel env ?g jid k) = Panic NilDereference" for k
    by (simp add: HorizontalEmulator_def fst_panic)
  then have "fst (worker_iteration n fuel env ks') = Panic NilDereference"
    unfolding w by (simp add: run_job_def fst_panic)
  moreover have "HorizontalHandler env ext nodes apps ks = (Ok jid, ks')"
    by (simp add: HorizontalHandler_def NewHorizontalEmulator_def loop sub)
  moreover have "waiting ks' = [jid]" by (simp add: waiting_def abs)
  ultimately show ?thesis by blast
qed

definition no_workloads :: external where
  "no_workloads = \<lparr>ext_Deployment = (\<lambda>ns nm. Inl (NotFound nm)), ext_StatefulSet = (\<lambda>ns nm. Inl (NotFound nm))\<rparr>"

theorem Horizontal_statefulset_panics_witness:
  "\<exists>nodes apps jid ks'. AppsParseToPod (\<lambda>i. ''u'') 0 ''StatefulSet''
      (Inr \<lparr>a_Nodes = [], a_DeployApps = [], a_StatefulsetApps = [Some (example_workload ''StatefulSet'' (Some 3))]\<rparr>) =
      Ok (nodes, apps) \<and>
    HorizontalHandler first_fit_env no_workloads nodes apps (New ''addNode'' (\<lambda>_. [])) = (Ok jid, ks') \<and>
    fst (worker_iteration 1 1 first_fit_env ks') = Panic NilDereference"
proof -
  let ?dm = "\<lparr>a_Nodes = [], a_DeployApps = [], a_StatefulsetApps = [Some (example_workload ''StatefulSet'' (Some 3))]\<rparr>"
  obtain app where rs: "AppsParseToPod (\<lambda>i. ''u'') 0 ''StatefulSet'' (Inr ?dm) = Ok ([], [app])"
    by (auto simp: AppsParseToPod_def Let_def ToLower_examples ParseStatefulSetToPod_def example_workload_def
        replicas_or_one_def)
  have "fifo_inv (fifoQueue (New ''addNode'' (\<lambda>_. [])))" "waiting (New ''addNode'' (\<lambda>_. [])) = []"
    by (simp_all add: fifo_new_inv waiting_def fifo_new_abs)
  from Horizontal_statefulset_panics [OF rs ToLower_examples(5) _ this, of first_fit_env no_workloads 1 1] rs
  show ?thesis by blast
qed

definition scales_up :: "external \<Rightarrow> pod_request \<Rightarrow> pod \<Rightarrow> 32 word \<Rightarrow> bool" where
  "scales_up ext app p r \<longleftrightarrow> pr_Kind app = ''deployment'' \<and> pr_Pod app = Some p \<and>
     (\<exists>w. ext_Deployment ext (pod_Namespace p) (pod_Name p) = Inr w \<and> w_Replicas w = Some r) \<and>
     0 \<le> sint r \<and> sint r < sint (pr_Replicas app)"

lemma sint_difference:
  assumes "0 \<le> sint r" and "sint r < sint (a :: 32 word)"
  shows "sint (a - r) = sint a - sint r" and "\<not> a - r \<le>s 0"
proof -
  have "sint a < 2 ^ 31" using sint_lt [of a] by simp
  then show d: "sint (a - r) = sint a - sint r"
    using assms by (simp add: sint_word_ariths(2) signed_take_bit_int_eq_self)
  show "\<not> a - r \<le>s 0" using assms d by (simp add: word_sle_eq)
qed

lemma missing_replicas_up:
  assumes "scales_up ext app p r"
  shows "missing_replicas (ext_Deployment ext) app = Ok (zero_request\<lparr>pr_Pod := Some p, pr_Replicas := pr_Replicas app - r\<rparr>)"
  using assms sint_difference(2) [of r "pr_Replicas app"]
  by (auto simp: scales_up_def missing_replicas_def)

lemma horizontal_loop_up:
  "list_all2 (\<lambda>app (p, r). scales_up ext app p r) apps prs \<Longrightarrow>
   horizontal_loop ext apps rq us = Ok (us @ map2 (\<lambda>app (p, r).
     zero_request\<lparr>pr_Pod := Some p, pr_Replicas := pr_Replicas app - r\<rparr>) apps prs)"
proof (induction apps prs arbitrary: rq us rule: list_all2_induct)
  case (Cons app apps x prs)
  obtain p r where x: "x = (p, r)" by fastforce
  then have up: "scales_up ext app p r" using Cons.hyps(1) by simp
  then have "pr_Kind app = ''deployment''" by (simp add: scales_up_def)
  then show ?case using missing_replicas_up [OF up] Cons.IH by (simp add: x)
qed simp

text \<open>
  C36. Horizontal scaling of deployments asks for what is missing: when every application is a
  deployment that the real cluster knows with fewer replicas, the job holds one request per
  application, with the application's pod and exactly the difference of the counts, and is put at
  the end of the queue.
\<close>

theorem Horizontal_requests_missing:
  assumes "list_all2 (\<lambda>app (p, r). scales_up ext app p r) apps prs"
    and "fifo_inv (fifoQueue ks)" and "e_uuid env (draws ks) \<notin> set (waiting ks)"
  shows "\<exists>jid ks' g. HorizontalHandler env ext nodes apps ks = (Ok jid, ks') \<and>
    fifo_abs (fifoQueue ks') = fifo_abs (fifoQueue ks) @ [(jid, g)] \<and> EmulatorType g = ''HorizontalEmulator'' \<and>
    map pr_Pod (ag_Apps g) = map pr_Pod apps \<and>
    map (\<lambda>rq. sint (pr_Replicas rq)) (ag_Apps g) = map2 (\<lambda>app (p, r). sint (pr_Replicas app) - sint r) apps prs \<and>
    (\<forall>rq \<in> set (ag_Apps g). 0 < sint (pr_Replicas rq))"
proof -
  define us where "us = map2 (\<lambda>app (p, r). zero_request\<lparr>pr_Pod := Some p, pr_Replicas := pr_Replicas app - r\<rparr>) apps prs"
  have loop: "horizontal_loop ext apps zero_request [] = Ok us"
    using horizontal_loop_up [OF assms(1), of zero_request "[]"] by (simp add: us_def)
  let ?g = "empty_group\<lparr>EmulatorType := ''HorizontalEmulator'', ag_Apps := us\<rparr>"
  obtain jid ks' where sub: "submit_job env ?g ks = (jid, ks')" by fastforce
  note q = submit_job_queue [OF assms(2,3) sub]
  have pods: "map pr_Pod us = map pr_Pod apps"
    using assms(1) unfolding us_def
    by (induction rule: list_all2_induct) (auto simp: scales_up_def)
  have counts: "map (\<lambda>rq. sint (pr_Replicas rq)) us = map2 (\<lambda>app (p, r). sint (pr_Replicas app) - sint r) apps prs"
    using assms(1) unfolding us_def
    by (induction rule: list_all2_induct) (auto simp: scales_up_def sint_difference)
  have pos: "\<forall>rq \<in> set us. 0 < sint (pr_Replicas rq)"
    using assms(1) unfolding us_def
    by (induction rule: list_all2_induct) (auto simp: scales_up_def sint_difference)
  have "HorizontalHandler env ext nodes apps ks = (Ok jid, ks')"
    by (simp add: HorizontalHandler_def NewHorizontalEmulator_def loop sub)
  then show ?thesis using q(2) pods counts pos by (intro exI [of _ jid] exI [of _ ks'] exI [of _ ?g]) simp
qed

definition example_external :: external where
  "example_external =
     \<lparr>ext_Deployment = (\<lambda>ns nm. Inr (zero_workload\<lparr>w_Kind := ''Deployment'', w_Name := nm, w_Namespace := ns,
        w_Replicas := Some 2, w_MatchLabels := Some (Some [''app'' \<mapsto> ''web''])\<rparr>)),
      ext_StatefulSet = (\<lambda>ns nm. Inl (NotFound nm))\<rparr>"

theorem Horizontal_requests_missing_witness:
  "\<exists>jid ks' g. HorizontalHandler first_fit_env example_external []
      [\<lparr>pr_Pod = Some (example_pod ''web'' []), pr_Replicas = 5, pr_Kind = ''deployment''\<rparr>] (New ''addNode'' (\<lambda>_. [])) =
      (Ok jid, ks') \<and>
    map (\<lambda>rq. sint (pr_Replicas rq)) (ag_Apps g) = [3] \<and> fifo_abs (fifoQueue ks') = [(jid, g)]"
proof -
  let ?app = "\<lparr>pr_Pod = Some (example_pod ''web'' []), pr_Replicas = 5, pr_Kind = ''deployment''\<rparr>"
  have up: "list_all2 (\<lambda>app (p, r). scales_up example_external app p r) [?app] [(example_pod ''web'' [], 2)]"
    by (simp add: scales_up_def example_external_def)
  have "fifo_inv (fifoQueue (New ''addNode'' (\<lambda>_. [])))"
    "e_uuid first_fit_env (draws (New ''addNode'' (\<lambda>_. []))) \<notin> set (waiting (New ''addNode'' (\<lambda>_. [])))"
    by (simp_all add: fifo_new_inv waiting_def fifo_new_abs)
  from Horizontal_requests_missing [OF up this, of "[]"] show ?thesis by (simp add: fifo_new_abs) metis
qed

text \<open>What the real cluster answers for an application of a vertical request: its deployment and the labels of its selector.\<close>

definition vertical_target :: "external \<Rightarrow> pod_request \<Rightarrow> pod \<times> smap \<Rightarrow> bool" where
  "vertical_target ext app = (\<lambda>(p, labels). pr_Pod app = Some p \<and>
     (\<exists>w. ext_Deployment ext (pod_Namespace p) (pod_Name p) = Inr w \<and> w_MatchLabels w = Some labels))"

definition target_pods :: "kubesim \<Rightarrow> pod \<times> smap \<Rightarrow> pod list" where
  "target_pods ks = (\<lambda>(p, labels). GetAppPod (pod_Namespace p) (app_label labels) ks)"

text \<open>What the pods of an application and the copy of a pod are, stated on their fields.\<close>

definition pods_of_app :: "kubesim \<Rightarrow> pod \<times> smap \<Rightarrow> pod list \<Rightarrow> bool" where
  "pods_of_app ks = (\<lambda>(p, labels) qs. distinct qs \<and>
     (\<forall>q. q \<in> set qs \<longleftrightarrow> objs (externalkubeclient ks) Pods (pod_key q) = Some (PodObj q) \<and>
       (pod_Namespace p = [] \<or> pod_Namespace q = pod_Namespace p) \<and>
       (case gm_get labels ''app'' of Some v \<Rightarrow> gm_get (pod_Labels q) ''app'' = Some v | None \<Rightarrow> True)))"

definition pinned_copy :: "container list \<times> pod \<Rightarrow> pod_request \<Rightarrow> bool" where
  "pinned_copy = (\<lambda>(cs, old) rq. \<exists>p. pr_Pod rq = Some p \<and> pr_Replicas rq = 1 \<and>
     Containers (pod_Spec p) = cs \<and> NodeName (pod_Spec p) = [] \<and>
     NodeSelector (pod_Spec p) = Some [''kubernetes.io/hostname'' \<mapsto> NodeName (pod_Spec old)] \<and>
     SchedulerName (pod_Spec p) = SchedulerName (pod_Spec old) \<and> pod_Name p = pod_Name old \<and>
     pod_Namespace p = pod_Namespace old \<and> pod_UID p = pod_UID old \<and> pod_Annotations p = pod_Annotations old \<and>
     pod_Labels p = pod_Labels old \<and> pod_Status p = pod_Status old)"

text \<open>Each pod of an application, with the containers requested for it.\<close>

abbreviation with_containers :: "pod \<times> smap \<Rightarrow> pod list \<Rightarrow> (container list \<times> pod) list" where
  "with_containers pl qs \<equiv> map (Pair (Containers (pod_Spec (fst pl)))) qs"

lemma vertical_loop_targets:
  "list_all2 (vertical_target ext) apps pls \<Longrightarrow>
   \<exists>rqs. vertical_loop ext ks apps us old = Ok (us @ rqs, old @ concat (map (target_pods ks) pls)) \<and>
     list_all2 pinned_copy (concat (map (\<lambda>pl. with_containers pl (target_pods ks pl)) pls)) rqs"
proof (induction apps pls arbitrary: us old rule: list_all2_induct)
  case (Cons app apps pl pls)
  obtain p labels where pl: "pl = (p, labels)" by fastforce
  from Cons.hyps(1) obtain w where t: "pr_Pod app = Some p" "ext_Deployment ext (pod_Namespace p) (pod_Name p) = Inr w"
    "w_MatchLabels w = Some labels"
    by (auto simp: vertical_target_def pl)
  let ?ps = "target_pods ks pl" and ?c = "Containers (pod_Spec p)"
  obtain rqs where r: "vertical_loop ext ks apps (us @ map (pinned_request ?c) ?ps) (old @ ?ps) =
      Ok ((us @ map (pinned_request ?c) ?ps) @ rqs, (old @ ?ps) @ concat (map (target_pods ks) pls))"
    "list_all2 pinned_copy (concat (map (\<lambda>pl. with_containers pl (target_pods ks pl)) pls)) rqs"
    using Cons.IH [of "us @ map (pinned_request ?c) ?ps" "old @ ?ps"] by blast
  have "list_all2 pinned_copy (with_containers pl ?ps) (map (pinned_request ?c) ?ps)"
    by (simp add: list_all2_conv_all_nth pinned_copy_def pinned_request_def pl)
  then have "list_all2 pinned_copy (concat (map (\<lambda>pl. with_containers pl (target_pods ks pl)) (pl # pls)))
      (map (pinned_request ?c) ?ps @ rqs)"
    using r(2) by (simp add: list_all2_appendI)
  moreover have "vertical_loop ext ks (app # apps) us old =
      Ok (us @ (map (pinned_request ?c) ?ps @ rqs), old @ concat (map (target_pods ks) (pl # pls)))"
    using r(1) t by (simp add: Let_def target_pods_def pl)
  ultimately show ?case by blast
qed simp

lemma target_pods_of_app:
  assumes "tracker_wf (externalkubeclient ks)"
  shows "pods_of_app ks pl (target_pods ks pl)"
  using distinct_map [THEN iffD1, OF distinct_list_pods [OF assms]]
  by (cases pl) (simp add: pods_of_app_def target_pods_def GetAppPod_def in_list_pods [OF assms] app_label_def split: option.split)

text \<open>
  C37. Vertical scaling submits one request per pod of the deployments, application by application: a copy
  of the pod with the containers of the application's request in place of its own, without a node but pinned
  to the node the pod is on, for one replica, and everything else as in the pod. The pods themselves, in
  the same order, are handed over to be taken out of the cluster first. Which pods these are is
  decided by the label \<open>app\<close> of the deployment's selector only; a selector without it selects all
  pods of the namespace. A pod of two applications is requested twice.
\<close>

theorem Vertical_pins_pods:
  assumes "list_all2 (vertical_target ext) apps pls"
    and "fifo_inv (fifoQueue ks)" and "e_uuid env (draws ks) \<notin> set (waiting ks)" and "tracker_wf (externalkubeclient ks)"
  shows "\<exists>jid ks' g olds. VerticalHandler env ext nodes apps ks = (Ok jid, ks') \<and>
    fifo_abs (fifoQueue ks') = fifo_abs (fifoQueue ks) @ [(jid, g)] \<and> EmulatorType g = ''VerticalEmulator'' \<and>
    list_all2 (pods_of_app ks) pls olds \<and> ag_OldPods g = concat olds \<and>
    list_all2 pinned_copy (concat (map2 with_containers pls olds)) (ag_Apps g)"
proof -
  let ?olds = "map (target_pods ks) pls"
  obtain rqs where l: "vertical_loop ext ks apps [] [] = Ok (rqs, concat ?olds)"
    "list_all2 pinned_copy (concat (map2 with_containers pls ?olds)) rqs"
    using vertical_loop_targets [OF assms(1), of ks "[]" "[]"] by (auto simp: zip_map2 zip_same_conv_map comp_def)
  let ?g = "empty_group\<lparr>EmulatorType := ''VerticalEmulator'', ag_Apps := rqs, ag_OldPods := concat ?olds\<rparr>"
  obtain jid ks' where sub: "submit_job env ?g ks = (jid, ks')" by fastforce
  note q = submit_job_queue [OF assms(2,3) sub]
  have "list_all2 (pods_of_app ks) pls ?olds"
    by (simp add: list_all2_conv_all_nth target_pods_of_app [OF assms(4)])
  moreover have "VerticalHandler env ext nodes apps ks = (Ok jid, ks')"
    by (simp add: VerticalHandler_def NewVerticalEmulator_def l(1) sub)
  ultimately show ?thesis using q(2) l(2)
    by (intro exI [of _ jid] exI [of _ ks'] exI [of _ ?g] exI [of _ ?olds]) simp
qed

definition labelled_web :: pod where
  "labelled_web = (example_pod ''web'' ''n1'')\<lparr>pod_Labels := Some [''app'' \<mapsto> ''web'']\<rparr>"

definition labelled_cluster :: tracker where
  "labelled_cluster = (\<lambda>_. [])(Pods := [((''ns'', ''web''), PodObj labelled_web), ((''ns'', ''db''), PodObj (example_pod ''db'' ''n1''))])"

lemma labelled_cluster_pods:
  "objs labelled_cluster Pods = [(''ns'', ''web'') \<mapsto> PodObj labelled_web, (''ns'', ''db'') \<mapsto> PodObj (example_pod ''db'' ''n1'')]"
  by (rule ext) (simp add: objs_def labelled_cluster_def)

definition bigger :: container where
  "bigger = \<lparr>c_Name = ''web'', c_Requests = [(''cpu'', 2)]\<rparr>"

lemma single_element: "set xs = {x} \<Longrightarrow> distinct xs \<Longrightarrow> xs = [x]"
  by (cases xs; cases "tl xs") auto

text \<open>Of the two pods of the namespace, the one with the label is submitted with the new container.\<close>

theorem Vertical_pins_pods_witness:
  "\<exists>jid ks' g p. VerticalHandler first_fit_env example_external []
      [\<lparr>pr_Pod = Some ((example_pod ''web'' [])\<lparr>pod_Spec := empty_spec\<lparr>Containers := [bigger]\<rparr>\<rparr>), pr_Replicas = 1,
        pr_Kind = ''deployment''\<rparr>] (New ''addNode'' labelled_cluster) = (Ok jid, ks') \<and>
    fifo_abs (fifoQueue ks') = [(jid, g)] \<and> ag_OldPods g = [labelled_web] \<and> map pr_Pod (ag_Apps g) = [Some p] \<and>
    Containers (pod_Spec p) = [bigger] \<and> NodeSelector (pod_Spec p) = Some [''kubernetes.io/hostname'' \<mapsto> ''n1'']"
proof -
  let ?p = "(example_pod ''web'' [])\<lparr>pod_Spec := empty_spec\<lparr>Containers := [bigger]\<rparr>\<rparr>"
  let ?ks = "New ''addNode'' labelled_cluster"
  have v: "list_all2 (vertical_target example_external)
      [\<lparr>pr_Pod = Some ?p, pr_Replicas = 1, pr_Kind = ''deployment''\<rparr>] [(?p, Some [''app'' \<mapsto> ''web''])]"
    by (simp add: vertical_target_def example_external_def)
  have wf: "tracker_wf labelled_cluster"
    by (simp add: tracker_wf_def labelled_cluster_def labelled_web_def pod_key_def example_pod_def)
  then have "fifo_inv (fifoQueue ?ks)" "e_uuid first_fit_env (draws ?ks) \<notin> set (waiting ?ks)"
    "tracker_wf (externalkubeclient ?ks)"
    by (simp_all add: fifo_new_inv waiting_def fifo_new_abs)
  from Vertical_pins_pods [OF v this, of "[]"] obtain jid ks' g qs where
    h: "VerticalHandler first_fit_env example_external [] [\<lparr>pr_Pod = Some ?p, pr_Replicas = 1, pr_Kind = ''deployment''\<rparr>] ?ks =
      (Ok jid, ks')" "fifo_abs (fifoQueue ks') = fifo_abs (fifoQueue ?ks) @ [(jid, g)]"
    and q: "pods_of_app ?ks (?p, Some [''app'' \<mapsto> ''web'']) qs" "ag_OldPods g = qs"
    and c: "list_all2 pinned_copy (with_containers (?p, Some [''app'' \<mapsto> ''web'']) qs) (ag_Apps g)"
    by (auto simp: list_all2_Cons1)
  have mem: "x \<in> set qs \<longleftrightarrow> objs labelled_cluster Pods (pod_key x) = Some (PodObj x) \<and> pod_Namespace x = ''ns'' \<and>
      gm_get (pod_Labels x) ''app'' = Some ''web''" for x
    using q(1) by (simp add: pods_of_app_def example_pod_def)
  have "x = labelled_web" if "x \<in> set qs" for x
  proof -
    have "x = labelled_web \<or> x = example_pod ''db'' ''n1''"
      using that unfolding mem labelled_cluster_pods by (simp split: if_split_asm)
    moreover have "x \<noteq> example_pod ''db'' ''n1''" using that unfolding mem by (auto simp: example_pod_def)
    ultimately show ?thesis by simp
  qed
  moreover have "labelled_web \<in> set qs"
    unfolding mem labelled_cluster_pods by (simp add: labelled_web_def example_pod_def pod_key_def)
  ultimately have "set qs = {labelled_web}" by auto
  moreover have "distinct qs" using q(1) by (simp add: pods_of_app_def)
  ultimately have qs: "qs = [labelled_web]" by (rule single_element)
  with c obtain rq where rq: "ag_Apps g = [rq]" "pinned_copy ([bigger], labelled_web) rq" by (auto simp: list_all2_Cons1)
  then obtain p where "pr_Pod rq = Some p" "Containers (pod_Spec p) = [bigger]"
    "NodeSelector (pod_Spec p) = Some [''kubernetes.io/hostname'' \<mapsto> ''n1'']"
    by (auto simp: pinned_copy_def labelled_web_def example_pod_def)
  then show ?thesis using h q(2) qs rq(1) by (intro exI [of _ jid] exI [of _ ks'] exI [of _ g] exI [of _ p]) (simp add: fifo_new_abs)
qed

text \<open>
  A request of an unknown kind is accepted: the parser returns no applications and no error, the
  job runs, and its report has the empty string as status, neither Succeed nor Failed.
\<close>

lemma Apps_unknown_kind:
  assumes "AppsParseToPod uuid i kind decoded = Ok (nodes, apps)" and "ToLower kind \<noteq> ''deployment''"
    and "ToLower kind \<noteq> ''statefulset''" and "fifo_inv (fifoQueue ks)" and "waiting ks = []"
  shows "\<exists>jid ks1 ks2. AppsHandler env nodes apps ks = (jid, ks1) \<and> worker_iteration n fuel env ks1 = (Ok (), ks2) \<and>
    EmulatorReportHandler jid ks2 = Ok \<lparr>JobID = jid, job_Status = JobNone, job_Report = [],
      PredictionNodeR = predictionNode ks jid\<rparr>"
proof -
  have apps: "apps = []" using assms(1-3) by (auto simp: AppsParseToPod_def Let_def)
  let ?g = "empty_group\<lparr>EmulatorType := ''AppsEmulator'', ag_Apps := []\<rparr>"
  obtain jid ks1 where sub: "submit_job env ?g ks = (jid, ks1)" by fastforce
  have none: "e_uuid env (draws ks) \<notin> set (waiting ks)" using assms(5) by simp
  note q = submit_job_queue [OF assms(4) none sub]
  have abs: "fifo_abs (fifoQueue ks1) = [(jid, ?g)]" using q(2) assms(5) by (simp add: waiting_def)
  obtain q' where w: "worker_iteration n fuel env ks1 = run_job n fuel env ?g jid (ks1\<lparr>fifoQueue := q'\<rparr>)"
    by (rule worker_takes [OF q(3) abs])
  let ?k = "ks1\<lparr>fifoQueue := q'\<rparr>"
  have r: "run_job n fuel env ?g jid ?k = (Ok (), save_result jid (Some []) (clean_up ?k))"
    by (simp add: run_job_def appsEmulator_def)
  have "predictionNode ks1 = predictionNode ks" using sub by (auto simp: submit_job_def Let_def)
  then have "predictionNode (clean_up ?k) = predictionNode ks"
    using keeps_clean_up [of ?k] by (simp add: keeps_def same_books_def)
  then have "EmulatorReportHandler jid (save_result jid (Some []) (clean_up ?k)) =
      Ok \<lparr>JobID = jid, job_Status = JobNone, job_Report = [], PredictionNodeR = predictionNode ks jid\<rparr>"
    by (simp add: EmulatorReportHandler_def EmulatorReport_def Let_def verdict_def)
  moreover have "AppsHandler env nodes apps ks = (jid, ks1)"
    using sub by (simp add: AppsHandler_def NewAppsEmulator_def apps)
  moreover have "worker_iteration n fuel env ks1 = (Ok (), save_result jid (Some []) (clean_up ?k))"
    unfolding w by (rule r)
  ultimately show ?thesis by (intro exI conjI)
qed

lemma ToLower_daemonset: "ToLower ''DaemonSet'' = ''daemonset''"
  by code_simp

lemma Apps_unknown_kind_example:
  "\<exists>jid ks1 ks2. AppsHandler first_fit_env [] [] (New ''addNode'' (\<lambda>_. [])) = (jid, ks1) \<and>
    worker_iteration 1 1 first_fit_env ks1 = (Ok (), ks2) \<and>
    EmulatorReportHandler jid ks2 = Ok \<lparr>JobID = jid, job_Status = JobNone, job_Report = [], PredictionNodeR = None\<rparr>"
proof -
  have p: "AppsParseToPod (\<lambda>i. ''u'') 0 ''DaemonSet'' (Inl (Msg ''not read'')) = Ok ([], [])"
    by (simp add: AppsParseToPod_def ToLower_daemonset)
  have k: "ToLower ''DaemonSet'' \<noteq> ''deployment''" "ToLower ''DaemonSet'' \<noteq> ''statefulset''"
    by (simp_all add: ToLower_daemonset)
  have "fifo_inv (fifoQueue (New ''addNode'' (\<lambda>_. [])))" "waiting (New ''addNode'' (\<lambda>_. [])) = []"
    by (simp_all add: fifo_new_inv waiting_def fifo_new_abs)
  from Apps_unknown_kind [OF p k this, of first_fit_env 1 1] show ?thesis by simp
qed

end
