(* ===== verification/Routes.thy ===== *)
theory Routes
  imports Jobs
begin

text \<open>
  The HTTP interface of \<open>pkg/routes/routes.go\<close>: the handlers, the paths they are registered for, and
  the dispatch of a request.

  A request has a method, the segments of its path and a body, \<open>None\<close> for a nil body. Decoding JSON
  is the parameter \<open>codec\<close>. \<open>writer\<close> is the \<open>http.ResponseWriter\<close>: the status line and the content type
  are fixed by the first \<open>WriteHeader\<close> or \<open>Write\<close>. The values marshalled here are structs of strings,
  numbers, lists and maps, on which \<open>json.Marshal\<close> does not fail; a body is the list of values
  written to it. An error body is the text \<open>{'error':'...'}\<close>. A handler that panics is recovered by
  \<open>net/http\<close>, which aborts the response: its outcome is the panic with the state it left.
  Requests are handled one after the other, each in one step.
\<close>

section \<open>Requests and responses\<close>

record request =
  r_Method :: string
  r_Path :: "string list"
  r_Body :: "string option"

record codec =
  decode_apps :: "string \<Rightarrow> gerr + apps"
  decode_node :: "string \<Rightarrow> gerr + node_config"

datatype payload =
    PlainText string
  | ErrorText gerr
  | JobJson string
  | ReportJson job_report
  | NodesJson "node_info_list option"
  | NodeInfoJson "node_info list"
  | PredictionJson scheduler_prediction
  | ReviewsJson "review list"

record writer =
  w_Type :: string
  w_Code :: "nat option"
  w_Out :: "payload list"

definition new_writer :: writer where
  "new_writer = \<lparr>w_Type = [], w_Code = None, w_Out = []\<rparr>"

definition set_type :: "string \<Rightarrow> writer \<Rightarrow> writer" where
  "set_type ty w = (if w_Code w = None then w\<lparr>w_Type := ty\<rparr> else w)"

definition WriteHeader :: "nat \<Rightarrow> writer \<Rightarrow> writer" where
  "WriteHeader code w = (if w_Code w = None then w\<lparr>w_Code := Some code\<rparr> else w)"

definition Write :: "payload \<Rightarrow> writer \<Rightarrow> writer" where
  "Write x w = (let w = WriteHeader 200 w in w\<lparr>w_Out := w_Out w @ [x]\<rparr>)"

definition json_type :: string where
  "json_type = ''application/json''"

definition checkBody :: "request \<Rightarrow> writer \<Rightarrow> writer" where
  "checkBody r w =
     (if r_Body r = None
      then Write (PlainText ''Please send a request body'') (WriteHeader 400 (set_type ''text/plain; charset=utf-8'' w))
      else w)"

text \<open>The lines every handler ends in; \<open>reportError\<close> is declared and not used.\<close>

definition reportError :: "writer \<Rightarrow> gerr \<Rightarrow> writer" where
  "reportError w e = Write (ErrorText e) (WriteHeader 500 (set_type json_type w))"

definition reply :: "writer \<Rightarrow> payload \<Rightarrow> writer" where
  "reply w x = Write x (WriteHeader 200 (set_type json_type w))"

section \<open>Handlers\<close>

text \<open>
  The workloads of a request draw one UUID each, from the counter of the simulator. A nil body panics
  when the decoder reads it, which it does for the two known kinds only.
\<close>

definition workloads :: "string \<Rightarrow> gerr + apps \<Rightarrow> nat" where
  "workloads kind decoded =
     (case decoded of
        Inl e \<Rightarrow> 0
      | Inr dm \<Rightarrow> if ToLower kind = ''deployment'' then length (a_DeployApps dm)
                  else if ToLower kind = ''statefulset'' then length (a_StatefulsetApps dm) else 0)"

definition parse_apps ::
  "env \<Rightarrow> codec \<Rightarrow> string \<Rightarrow> request \<Rightarrow> kubesim \<Rightarrow> (kubesim, node_config list \<times> pod_request list) outcome" where
  "parse_apps env codec kind r ks =
     (case r_Body r of
        None \<Rightarrow>
          if ToLower kind = ''deployment'' \<or> ToLower kind = ''statefulset'' then (Panic NilDereference, ks)
          else (Ok ([], []), ks)
      | Some b \<Rightarrow>
          (AppsParseToPod (e_uuid env) (draws ks) kind (decode_apps codec b),
           ks\<lparr>draws := draws ks + workloads kind (decode_apps codec b)\<rparr>))"

text \<open>An outcome becomes a response: a value is marshalled, an error reported, a panic passed on.\<close>

fun respond :: "writer \<Rightarrow> ('a \<Rightarrow> payload) \<Rightarrow> (kubesim, 'a) outcome \<Rightarrow> (kubesim, writer) outcome" where
  "respond w f (Ok x, ks) = (Ok (reply w (f x)), ks)"
| "respond w f (Err e, ks) = (Ok (reportError w e), ks)"
| "respond w f (Panic p, ks) = (Panic p, ks)"
| "respond w f (Hang, ks) = (Hang, ks)"

definition VersionRoute :: "request \<Rightarrow> kubesim \<Rightarrow> (kubesim, writer) outcome" where
  "VersionRoute r ks = (Ok (Write (PlainText ''0.0.1'') new_writer), ks)"

definition AppsEmulatorRoute :: "env \<Rightarrow> codec \<Rightarrow> string \<Rightarrow> request \<Rightarrow> kubesim \<Rightarrow> (kubesim, writer) outcome" where
  "AppsEmulatorRoute env codec kind r ks =
     (let w = checkBody r new_writer in
      respond w JobJson (seq (parse_apps env codec kind r ks)
        (\<lambda>(nodes, appList) ks'. case AppsHandler env nodes appList ks' of (jid, ks'') \<Rightarrow> (Ok jid, ks'')) id))"

definition HorizontalEmulatorRoute ::
  "env \<Rightarrow> external \<Rightarrow> codec \<Rightarrow> string \<Rightarrow> request \<Rightarrow> kubesim \<Rightarrow> (kubesim, writer) outcome" where
  "HorizontalEmulatorRoute env ext codec kind r ks =
     (let w = checkBody r new_writer in
      respond w JobJson (seq (parse_apps env codec kind r ks)
        (\<lambda>(nodes, appList) ks'. HorizontalHandler env ext nodes appList ks') id))"

definition VerticalEmulatorRoute ::
  "env \<Rightarrow> external \<Rightarrow> codec \<Rightarrow> string \<Rightarrow> request \<Rightarrow> kubesim \<Rightarrow> (kubesim, writer) outcome" where
  "VerticalEmulatorRoute env ext codec kind r ks =
     (let w = checkBody r new_writer in
      respond w JobJson (seq (parse_apps env codec kind r ks)
        (\<lambda>(nodes, appList) ks'. VerticalHandler env ext nodes appList ks') id))"

definition PredictionEmulatorRoute :: "env \<Rightarrow> codec \<Rightarrow> string \<Rightarrow> request \<Rightarrow> kubesim \<Rightarrow> (kubesim, writer) outcome" where
  "PredictionEmulatorRoute env codec kind r ks =
     (let w = checkBody r new_writer in
      respond w JobJson (seq (parse_apps env codec kind r ks)
        (\<lambda>(nodes, appList) ks'. case PredictionHandler env nodes appList ks' of (jid, ks'') \<Rightarrow> (Ok jid, ks'')) id))"

definition EmulatorReportRoute :: "string \<Rightarrow> request \<Rightarrow> kubesim \<Rightarrow> (kubesim, writer) outcome" where
  "EmulatorReportRoute jid r ks =
     (let w = checkBody r new_writer in
      respond w ReportJson (EmulatorReportHandler jid ks, ks))"

text \<open>
  Adding nodes only logs its errors: the response is 200 in every case, and its body is \<open>null\<close> when
  the request could not be parsed or the nodes not added.
\<close>

definition AddNodesEmulatorRoute :: "nat \<Rightarrow> env \<Rightarrow> codec \<Rightarrow> request \<Rightarrow> kubesim \<Rightarrow> (kubesim, writer) outcome" where
  "AddNodesEmulatorRoute fuel env codec r ks =
     (let w = checkBody r new_writer in
      case r_Body r of
        None \<Rightarrow> (Panic NilDereference, ks)
      | Some b \<Rightarrow>
          (case NodeConfigParse (decode_node codec b) of
             Ok nodeConfig \<Rightarrow>
               (case AddNodesHandler fuel env nodeConfig ks of
                  (Ok nodelist, ks') \<Rightarrow> (Ok (reply w (NodesJson (Some nodelist))), ks')
                | (Err e, ks') \<Rightarrow> (Ok (reply w (NodesJson None)), ks')
                | (Panic p, ks') \<Rightarrow> (Panic p, ks')
                | (Hang, ks') \<Rightarrow> (Hang, ks'))
           | Err e \<Rightarrow> (Ok (reply w (NodesJson None)), ks)
           | Panic p \<Rightarrow> (Panic p, ks)
           | Hang \<Rightarrow> (Hang, ks)))"

definition ListNodesEmulatorRoute :: "env \<Rightarrow> request \<Rightarrow> kubesim \<Rightarrow> (kubesim, writer) outcome" where
  "ListNodesEmulatorRoute env r ks =
     (let w = checkBody r new_writer in respond w (NodesJson \<circ> Some) (ListNodesHandler env ks, ks))"

definition ListNodeInfoEmulatorRoute :: "env \<Rightarrow> request \<Rightarrow> kubesim \<Rightarrow> (kubesim, writer) outcome" where
  "ListNodeInfoEmulatorRoute env r ks =
     (let w = checkBody r new_writer in respond w NodeInfoJson (ListNodeInfoHandler env ks, ks))"

definition DeleteNodesEmulatorRoute :: "request \<Rightarrow> kubesim \<Rightarrow> (kubesim, writer) outcome" where
  "DeleteNodesEmulatorRoute r ks =
     (let w = checkBody r new_writer in
      case DeleteNodesHandler ks of
        (Ok _, ks') \<Rightarrow> (Ok (WriteHeader 200 (set_type json_type w)), ks')
      | (Err e, ks') \<Rightarrow> (Ok (reportError w e), ks')
      | (Panic p, ks') \<Rightarrow> (Panic p, ks')
      | (Hang, ks') \<Rightarrow> (Hang, ks'))"

definition DeprecatedPredictionEmulatorRoute ::
  "nat \<Rightarrow> env \<Rightarrow> codec \<Rightarrow> string \<Rightarrow> request \<Rightarrow> kubesim \<Rightarrow> (kubesim, writer) outcome" where
  "DeprecatedPredictionEmulatorRoute fuel env codec kind r ks =
     (let w = checkBody r new_writer in
      respond w PredictionJson (seq (parse_apps env codec kind r ks)
        (\<lambda>(nodes, appList) ks'. DeprecatedPredictionHandler fuel env nodes appList ks') id))"

definition DeprecatedAppsEmulatorRoute ::
  "nat \<Rightarrow> env \<Rightarrow> codec \<Rightarrow> string \<Rightarrow> request \<Rightarrow> kubesim \<Rightarrow> (kubesim, writer) outcome" where
  "DeprecatedAppsEmulatorRoute fuel env codec kind r ks =
     (let w = checkBody r new_writer in
      respond w ReviewsJson (seq (parse_apps env codec kind r ks)
        (\<lambda>(nodes, appList) ks'. DeprecatedAppsHandler fuel env nodes appList ks') id))"

section \<open>The router\<close>

text \<open>
  A pattern is a list of segments, at most one of which is a parameter (\<open>:kind\<close> or \<open>:id\<close>), which
  matches any segment that is not empty. What the router answers to a request that matches no route
  is not modelled.
\<close>

datatype segment = Static string | Param string

fun match :: "segment list \<Rightarrow> string list \<Rightarrow> string option \<Rightarrow> string option option" where
  "match [] [] v = Some v"
| "match (Static s # ps) (x # xs) v = (if s = x then match ps xs v else None)"
| "match (Param n # ps) (x # xs) v = (if x \<noteq> [] then match ps xs (Some x) else None)"
| "match _ _ v = None"

datatype route =
    ToVersion | ToApps | ToHorizontal | ToVertical | ToPrediction | ToReport
  | ToAddNodes | ToListNodes | ToListNodeInfo | ToDeleteNodes | ToDeprecatedPrediction | ToDeprecatedApps

definition apiPrefix :: "segment list" where
  "apiPrefix = [Static ''v1'', Static ''scheduler'']"

definition route_table :: "(string \<times> segment list \<times> route) list" where
  "route_table =
     [(''GET'', [Static ''version''], ToVersion),
      (''POST'', apiPrefix @ [Static ''emulator'', Param ''kind'', Static ''apps''], ToApps),
      (''POST'', apiPrefix @ [Static ''emulator'', Param ''kind'', Static ''horizontal'', Static ''apps''], ToHorizontal),
      (''POST'', apiPrefix @ [Static ''emulator'', Param ''kind'', Static ''vertical'', Static ''apps''], ToVertical),
      (''POST'', apiPrefix @ [Static ''prediction'', Param ''kind'', Static ''nodes''], ToPrediction),
      (''GET'', apiPrefix @ [Static ''report'', Param ''id''], ToReport),
      (''POST'', apiPrefix @ [Static ''simulator'', Static ''node''], ToAddNodes),
      (''GET'', apiPrefix @ [Static ''simulator'', Static ''node''], ToListNodes),
      (''GET'', apiPrefix @ [Static ''simulator'', Static ''nodeinfo''], ToListNodeInfo),
      (''DELETE'', apiPrefix @ [Static ''simulator'', Static ''node''], ToDeleteNodes),
      (''POST'', apiPrefix @ [Static ''deprecated'', Static ''prediction'', Param ''kind'', Static ''nodes''], ToDeprecatedPrediction),
      (''POST'', apiPrefix @ [Static ''deprecated'', Static ''emulator'', Param ''kind'', Static ''apps''], ToDeprecatedApps)]"

definition find_routes :: "request \<Rightarrow> (route \<times> string) list" where
  "find_routes r = List.map_filter
     (\<lambda>(m, pat, h). if m = r_Method r
        then (case match pat (r_Path r) None of
                None \<Rightarrow> None | Some v \<Rightarrow> Some (h, case v of None \<Rightarrow> [] | Some x \<Rightarrow> x))
        else None) route_table"

fun handle ::
  "nat \<Rightarrow> env \<Rightarrow> external \<Rightarrow> codec \<Rightarrow> route \<Rightarrow> string \<Rightarrow> request \<Rightarrow> kubesim \<Rightarrow> (kubesim, writer) outcome" where
  "handle fuel env ext codec ToVersion v r ks = VersionRoute r ks"
| "handle fuel env ext codec ToApps v r ks = AppsEmulatorRoute env codec v r ks"
| "handle fuel env ext codec ToHorizontal v r ks = HorizontalEmulatorRoute env ext codec v r ks"
| "handle fuel env ext codec ToVertical v r ks = VerticalEmulatorRoute env ext codec v r ks"
| "handle fuel env ext codec ToPrediction v r ks = PredictionEmulatorRoute env codec v r ks"
| "handle fuel env ext codec ToReport v r ks = EmulatorReportRoute v r ks"
| "handle fuel env ext codec ToAddNodes v r ks = AddNodesEmulatorRoute fuel env codec r ks"
| "handle fuel env ext codec ToListNodes v r ks = ListNodesEmulatorRoute env r ks"
| "handle fuel env ext codec ToListNodeInfo v r ks = ListNodeInfoEmulatorRoute env r ks"
| "handle fuel env ext codec ToDeleteNodes v r ks = DeleteNodesEmulatorRoute r ks"
| "handle fuel env ext codec ToDeprecatedPrediction v r ks = DeprecatedPredictionEmulatorRoute fuel env codec v r ks"
| "handle fuel env ext codec ToDeprecatedApps v r ks = DeprecatedAppsEmulatorRoute fuel env codec v r ks"

definition serve ::
  "nat \<Rightarrow> env \<Rightarrow> external \<Rightarrow> codec \<Rightarrow> request \<Rightarrow> kubesim \<Rightarrow> (kubesim, writer) outcome option" where
  "serve fuel env ext codec r ks =
     (case find_routes r of [] \<Rightarrow> None | (h, v) # _ \<Rightarrow> Some (handle fuel env ext codec h v r ks))"

section \<open>Lemmas\<close>

text \<open>A request matches at most one of two patterns that differ in a static segment or in length.\<close>

fun overlap :: "segment list \<Rightarrow> segment list \<Rightarrow> bool" where
  "overlap [] [] = True"
| "overlap (Static s # ps) (Static t # qs) = (s = t \<and> overlap ps qs)"
| "overlap (p # ps) (q # qs) = overlap ps qs"
| "overlap _ _ = False"

lemma match_overlap: "match p xs v \<noteq> None \<Longrightarrow> match q xs w \<noteq> None \<Longrightarrow> overlap p q"
proof (induction p arbitrary: q xs v w)
  case Nil
  then show ?case by (cases q; cases xs; cases "hd q") auto
next
  case (Cons s p)
  then obtain x xs' where xs: "xs = x # xs'" by (cases xs; cases s) auto
  with Cons.prems(2) obtain t q' where q: "q = t # q'" by (cases q) auto
  obtain a b where "match p xs' a \<noteq> None" "match q' xs' b \<noteq> None"
    using Cons.prems by (cases s; cases t) (auto simp: xs q split: if_splits)
  then have "overlap p q'" by (rule Cons.IH)
  with Cons.prems show ?case by (cases s; cases t) (auto simp: xs q split: if_splits)
qed

lemma map_filter_exclusive:
  "sorted_wrt (\<lambda>x y. f x = None \<or> f y = None) xs \<Longrightarrow> length (List.map_filter f xs) \<le> 1"
proof (induction xs)
  case (Cons x xs)
  have "f x \<noteq> None \<Longrightarrow> List.map_filter f xs = []"
    using Cons.prems by (induction xs) (auto simp: map_filter_simps)
  with Cons show ?case by (auto simp: map_filter_simps split: option.splits)
qed (simp add: map_filter_simps)

lemma route_table_apart:
  "sorted_wrt (\<lambda>(m, p, h) (m', p', h'). m \<noteq> m' \<or> \<not> overlap p p') route_table"
  by (simp add: route_table_def apiPrefix_def)

lemma find_routes_unique: "length (find_routes r) \<le> 1"
proof -
  have "sorted_wrt (\<lambda>x y. (case x of (m, pat, h) \<Rightarrow> if m = r_Method r
        then (case match pat (r_Path r) None of None \<Rightarrow> None | Some v \<Rightarrow> Some (h, case v of None \<Rightarrow> [] | Some x \<Rightarrow> x))
        else None) = (None :: (route \<times> string) option) \<or>
      (case y of (m, pat, h) \<Rightarrow> if m = r_Method r
        then (case match pat (r_Path r) None of None \<Rightarrow> None | Some v \<Rightarrow> Some (h, case v of None \<Rightarrow> [] | Some x \<Rightarrow> x))
        else None) = (None :: (route \<times> string) option)) route_table"
    by (rule sorted_wrt_mono_rel [OF _ route_table_apart]) (use match_overlap in \<open>fastforce split: prod.splits if_splits option.splits\<close>)
  then show ?thesis unfolding find_routes_def by (rule map_filter_exclusive)
qed

lemma find_routes_mem: "(h, v) \<in> set (find_routes r) \<Longrightarrow> \<exists>pat. (r_Method r, pat, h) \<in> set route_table"
  by (auto simp: find_routes_def map_filter_def split: if_splits option.splits)

lemma serve_Some: "serve fuel env ext codec r ks = Some m \<Longrightarrow>
    \<exists>h v. find_routes r = [(h, v)] \<and> m = handle fuel env ext codec h v r ks"
  using find_routes_unique [of r] by (cases "find_routes r") (auto simp: serve_def)

text \<open>A handler of a job either submits one job or leaves the simulator as it was.\<close>

definition submits :: "env \<Rightarrow> kubesim \<Rightarrow> (kubesim, string) outcome \<Rightarrow> bool" where
  "submits env ks m \<longleftrightarrow> (\<exists>g jid ks'. m = (Ok jid, ks') \<and> submit_job env g ks = (jid, ks')) \<or>
     snd m = ks \<and> (\<exists>e. fst m = Err e) \<or> snd m = ks \<and> (\<exists>p. fst m = Panic p)"

lemma submits_job: "submit_job env g ks = (jid, ks') \<Longrightarrow> submits env ks (Ok jid, ks')"
  by (auto simp: submits_def)

lemma submits_then_submit:
  assumes "r \<noteq> Hang"
  shows "submits env ks (seq (then_submit env r f ks) (\<lambda>job_id ks'. (Ok job_id, ks')) id)"
proof (cases r)
  case (Ok x)
  obtain jid ks' where "submit_job env (f x) ks = (jid, ks')" by fastforce
  then show ?thesis by (simp add: Ok submits_job)
qed (use assms in \<open>simp_all add: submits_def\<close>)

lemma missing_replicas_returns: "missing_replicas look app \<noteq> Hang"
  by (auto simp: missing_replicas_def split: option.splits sum.splits)

lemma horizontal_loop_returns: "horizontal_loop ext apps rq us \<noteq> Hang"
proof (induction apps arbitrary: rq us)
  case (Cons app apps)
  let ?r = "if pr_Kind app = ''deployment'' then missing_replicas (ext_Deployment ext) app
    else if pr_Kind app = ''statefulsets'' then missing_replicas (ext_StatefulSet ext) app else Ok rq"
  have "?r \<noteq> Hang" by (simp add: missing_replicas_returns)
  with Cons.IH show ?case unfolding horizontal_loop.simps by (cases ?r) (simp_all del: if_split)
qed simp

lemma vertical_loop_returns: "vertical_loop ext ks apps us old \<noteq> Hang"
  by (induction ext ks apps us old rule: vertical_loop.induct) (auto simp: Let_def split: option.splits sum.splits)

lemma AppsParseToPod_returns: "AppsParseToPod uuid i kind decoded \<noteq> Hang"
proof -
  have r: "replicas_or_one n \<noteq> Hang" for n by (auto simp: replicas_or_one_def split: option.splits)
  have h: "map_res f x \<noteq> Hang \<longleftrightarrow> x \<noteq> Hang" for f :: "'x \<Rightarrow> 'y" and x by (cases x) auto
  have each: "(\<And>u w. parse u w \<noteq> Hang) \<Longrightarrow> parse_each parse uuid i rc ws \<noteq> Hang" for parse i rc ws
    by (induction parse uuid i rc ws rule: parse_each.induct) (auto simp: h split: res.splits)
  have "ParseDeployToPod u w \<noteq> Hang" "ParseStatefulSetToPod u w \<noteq> Hang" for u w
    by (auto simp: ParseDeployToPod_def ParseStatefulSetToPod_def h r)
  then show ?thesis by (auto simp: AppsParseToPod_def Let_def h each split: sum.splits)
qed

lemma parse_apps_effect:
  "\<exists>n. snd (parse_apps env codec kind r ks) = ks\<lparr>draws := draws ks + n\<rparr>" "fst (parse_apps env codec kind r ks) \<noteq> Hang"
proof -
  show "\<exists>n. snd (parse_apps env codec kind r ks) = ks\<lparr>draws := draws ks + n\<rparr>"
    by (cases "r_Body r") (auto simp: parse_apps_def intro: exI [of _ 0])
  show "fst (parse_apps env codec kind r ks) \<noteq> Hang"
    by (cases "r_Body r") (auto simp: parse_apps_def AppsParseToPod_returns)
qed

text \<open>The four routes that submit jobs.\<close>

definition job_routes :: "route set" where
  "job_routes = {ToApps, ToHorizontal, ToVertical, ToPrediction}"

lemma job_route_outcome:
  assumes "h \<in> job_routes"
  obtains n m where "submits env (ks\<lparr>draws := draws ks + n\<rparr>) m"
    and "handle fuel env ext codec h v r ks = respond (checkBody r new_writer) JobJson m"
proof -
  have "\<exists>f. handle fuel env ext codec h v r ks =
      respond (checkBody r new_writer) JobJson (seq (parse_apps env codec v r ks) (\<lambda>(nodes, apps) ks'. f nodes apps ks') id) \<and>
      (\<forall>nodes apps ks'. submits env ks' (f nodes apps ks'))"
  proof -
    have a: "submits env ks' (case AppsHandler env nodes apps ks' of (jid, ks'') \<Rightarrow> (Ok jid, ks''))"
      "submits env ks' (case PredictionHandler env nodes apps ks' of (jid, ks'') \<Rightarrow> (Ok jid, ks''))" for nodes apps ks'
      by (auto simp: AppsHandler_def NewAppsEmulator_def PredictionHandler_def NewPredictionEmulator_def
        intro: submits_job split: prod.split)
    have b: "submits env ks' (HorizontalHandler env ext nodes apps ks')" "submits env ks' (VerticalHandler env ext nodes apps ks')"
      for nodes apps ks'
      using submits_then_submit [OF horizontal_loop_returns] submits_then_submit [OF vertical_loop_returns]
      by (simp_all add: HorizontalHandler_def NewHorizontalEmulator_def VerticalHandler_def NewVerticalEmulator_def)
    from assms show ?thesis
      unfolding job_routes_def
      by (elim insertE emptyE) (use a b in \<open>auto simp: AppsEmulatorRoute_def HorizontalEmulatorRoute_def
        VerticalEmulatorRoute_def PredictionEmulatorRoute_def Let_def\<close>)
  qed
  then obtain f where f: "handle fuel env ext codec h v r ks =
      respond (checkBody r new_writer) JobJson (seq (parse_apps env codec v r ks) (\<lambda>(nodes, apps) ks'. f nodes apps ks') id)"
    "\<And>nodes apps ks'. submits env ks' (f nodes apps ks')" by blast
  obtain n where n: "snd (parse_apps env codec v r ks) = ks\<lparr>draws := draws ks + n\<rparr>" using parse_apps_effect(1) by blast
  have "submits env (ks\<lparr>draws := draws ks + n\<rparr>) (seq (parse_apps env codec v r ks) (\<lambda>(nodes, apps) ks'. f nodes apps ks') id)"
  proof (cases "fst (parse_apps env codec v r ks)")
    case (Ok x)
    then have "parse_apps env codec v r ks = (Ok (fst x, snd x), ks\<lparr>draws := draws ks + n\<rparr>)" using n by (simp add: prod_eq_iff)
    then show ?thesis using f(2) by (simp add: split_beta)
  next
    case (Err e)
    then have "parse_apps env codec v r ks = (Err e, ks\<lparr>draws := draws ks + n\<rparr>)" using n by (simp add: prod_eq_iff)
    then show ?thesis by (simp add: submits_def)
  next
    case (Panic p)
    then have "parse_apps env codec v r ks = (Panic p, ks\<lparr>draws := draws ks + n\<rparr>)" using n by (simp add: prod_eq_iff)
    then show ?thesis by (simp add: submits_def)
  next
    case Hang
    then show ?thesis using parse_apps_effect(2) by simp
  qed
  with f(1) show thesis using that by blast
qed

lemma draws_reachable: "server_reachable env s \<Longrightarrow> server_reachable env (s\<lparr>sim := (sim s)\<lparr>draws := draws (sim s) + n\<rparr>\<rparr>)"
  by (rule server_reachable.step) (auto intro: server_step.parse)

lemma submit_reachable:
  assumes "server_reachable env s" and "submit_job env g ((sim s)\<lparr>draws := draws (sim s) + n\<rparr>) = (jid, ks)"
  shows "server_reachable env (s\<lparr>sim := ks, submitted := submitted s @ [jid]\<rparr>)"
proof -
  let ?s = "s\<lparr>sim := (sim s)\<lparr>draws := draws (sim s) + n\<rparr>\<rparr>"
  have "server_step env ?s (?s\<lparr>sim := ks, submitted := submitted ?s @ [jid]\<rparr>)"
    by (rule server_step.accept) (use assms(2) in simp)
  with draws_reachable [OF assms(1)] have "server_reachable env (?s\<lparr>sim := ks, submitted := submitted ?s @ [jid]\<rparr>)"
    by (rule server_reachable.step)
  then show ?thesis by simp
qed

text \<open>The other handlers are steps of the server too.\<close>

lemma respond_state [simp]: "snd (respond w f m) = snd m"
proof -
  obtain r ks where "m = (r, ks)" by (rule prod.exhaust)
  then show ?thesis by (cases r) auto
qed

lemma respond_same: "respond w f (x, ks) = (m, ks') \<Longrightarrow> ks' = ks"
  by (cases x) auto

lemma after_parse:
  assumes "server_reachable env s" and "\<And>nodes apps ks r ks'. f nodes apps ks = (r, ks') \<Longrightarrow>
      server_step env (s\<lparr>sim := ks\<rparr>) (s\<lparr>sim := ks'\<rparr>)"
  shows "server_reachable env (s\<lparr>sim := snd (seq (parse_apps env codec v r (sim s)) (\<lambda>(nodes, apps) ks. f nodes apps ks) id)\<rparr>)"
proof -
  obtain n where n: "snd (parse_apps env codec v r (sim s)) = (sim s)\<lparr>draws := draws (sim s) + n\<rparr>"
    using parse_apps_effect(1) by blast
  let ?ks = "(sim s)\<lparr>draws := draws (sim s) + n\<rparr>"
  have d: "server_reachable env (s\<lparr>sim := ?ks\<rparr>)" using assms(1) by (rule draws_reachable)
  obtain q where q: "parse_apps env codec v r (sim s) = (q, ?ks)" using n by (metis prod.collapse)
  show ?thesis
  proof (cases q)
    case (Ok x)
    obtain r' ks' where f: "f (fst x) (snd x) ?ks = (r', ks')" by fastforce
    from assms(2) [OF this] d have "server_reachable env (s\<lparr>sim := ks'\<rparr>)" by (rule server_reachable.step [rotated])
    then show ?thesis using f by (simp add: q Ok split_beta)
  qed (use d in \<open>simp_all add: q\<close>)
qed

lemma other_route_reachable:
  assumes "server_reachable env s" and "h \<notin> job_routes" and "handle fuel env ext codec h v r (sim s) = (m, ks')"
  shows "server_reachable env (s\<lparr>sim := ks'\<rparr>)"
proof (cases h)
  case ToAddNodes
  show ?thesis
  proof (cases "ks' = sim s")
    case False
    with False assms(3) ToAddNodes obtain cfg r' where "AddNodesHandler fuel env cfg (sim s) = (r', ks')"
      by (auto simp: AddNodesEmulatorRoute_def Let_def split: option.splits res.splits prod.splits)
    then show ?thesis using server_reachable.step [OF assms(1)] server_step.add_nodes by blast
  qed (use assms(1) in simp)
next
  case ToDeleteNodes
  with assms(3) obtain r' where "DeleteNodesHandler (sim s) = (r', ks')"
    by (auto simp: DeleteNodesEmulatorRoute_def Let_def split: res.splits prod.splits)
  then show ?thesis using server_reachable.step [OF assms(1)] server_step.del_nodes by blast
next
  case ToDeprecatedPrediction
  have "server_step env (s\<lparr>sim := ks\<rparr>) (s\<lparr>sim := ks'\<rparr>)" if "DeprecatedPredictionHandler fuel env nodes apps ks = (r', ks')"
    for nodes apps ks r' ks'
    using server_step.old_nodes [of fuel env nodes apps "s\<lparr>sim := ks\<rparr>"] that by simp
  then have "server_reachable env (s\<lparr>sim := snd (seq (parse_apps env codec v r (sim s))
      (\<lambda>(nodes, apps) ks. DeprecatedPredictionHandler fuel env nodes apps ks) id)\<rparr>)"
    by (rule after_parse [OF assms(1)])
  then show ?thesis
    using assms(3) ToDeprecatedPrediction
    by (auto simp: DeprecatedPredictionEmulatorRoute_def Let_def dest: arg_cong [of _ _ snd])
next
  case ToDeprecatedApps
  have "server_step env (s\<lparr>sim := ks\<rparr>) (s\<lparr>sim := ks'\<rparr>)" if "DeprecatedAppsHandler fuel env nodes apps ks = (r', ks')"
    for nodes apps ks r' ks'
    using server_step.old_apps [of fuel env nodes apps "s\<lparr>sim := ks\<rparr>"] that by simp
  then have "server_reachable env (s\<lparr>sim := snd (seq (parse_apps env codec v r (sim s))
      (\<lambda>(nodes, apps) ks. DeprecatedAppsHandler fuel env nodes apps ks) id)\<rparr>)"
    by (rule after_parse [OF assms(1)])
  then show ?thesis
    using assms(3) ToDeprecatedApps
    by (auto simp: DeprecatedAppsEmulatorRoute_def Let_def dest: arg_cong [of _ _ snd])
qed (use assms in \<open>auto simp: job_routes_def VersionRoute_def EmulatorReportRoute_def ListNodesEmulatorRoute_def
    ListNodeInfoEmulatorRoute_def Let_def dest!: respond_same\<close>)

lemma EmulatorReport_never_fails: "EmulatorReport jid ks \<noteq> Err e"
proof -
  have v: "verdict_loop st rvs \<noteq> Err e" for st rvs
    by (induction rvs arbitrary: st) (auto split: option.split)
  have "map_res f r \<noteq> Err e" if "r \<noteq> Err e" for f :: "job_status \<Rightarrow> job_report" and r using that by (cases r) auto
  then show ?thesis using v by (auto simp: EmulatorReport_def Let_def verdict_def split: option.split)
qed

section \<open>Properties\<close>

text \<open>
  C22. Every request the server answers is a run of the job machine: from a reachable state, the handler
  of the route leaves a reachable state, in which at most one job has been submitted, and then the
  response carries its id.
\<close>

theorem requests_are_server_runs:
  assumes "server_reachable env s" and "serve fuel env ext codec r (sim s) = Some (m, ks')"
  shows "server_reachable env (s\<lparr>sim := ks'\<rparr>) \<or>
    (\<exists>jid w. server_reachable env (s\<lparr>sim := ks', submitted := submitted s @ [jid]\<rparr>) \<and> m = Ok w \<and> JobJson jid \<in> set (w_Out w))"
proof -
  obtain h v where h: "(m, ks') = handle fuel env ext codec h v r (sim s)"
    using serve_Some [OF assms(2)] by blast
  show ?thesis
  proof (cases "h \<in> job_routes")
    case True
    then obtain n out where out: "submits env ((sim s)\<lparr>draws := draws (sim s) + n\<rparr>) out"
      "handle fuel env ext codec h v r (sim s) = respond (checkBody r new_writer) JobJson out"
      using job_route_outcome by blast
    obtain q ks1 where q: "out = (q, ks1)" by (rule prod.exhaust)
    from out(1) consider (job) g jid where "q = Ok jid" "submit_job env g ((sim s)\<lparr>draws := draws (sim s) + n\<rparr>) = (jid, ks1)"
      | (rest) "ks1 = (sim s)\<lparr>draws := draws (sim s) + n\<rparr>"
      unfolding submits_def q by auto
    then show ?thesis
    proof cases
      case job
      then show ?thesis using submit_reachable [OF assms(1) job(2)] h out(2) by (auto simp: q reply_def Write_def Let_def)
    next
      case rest
      have "ks' = ks1" using h out(2) by (auto simp: q dest: arg_cong [of _ _ snd])
      then show ?thesis using draws_reachable [OF assms(1)] rest by simp
    qed
  next
    case False
    then show ?thesis using other_route_reachable [OF assms(1) False] h by metis
  qed
qed

text \<open>
  C23. A request for a job with a body is answered in one of three ways. Either with 200 and the id of a
  new job, which waits at the end of the queue and which the report route reports as queued; or with
  500 and the error, and then nothing has been queued and the cluster is as before; or the handler
  panics, with the same effect on the simulator.
\<close>

theorem job_request_answered:
  assumes "inj (e_uuid env)" and "server_reachable env s"
    and "find_routes r = [(h, v)]" and "h \<in> job_routes" and "r_Body r = Some b"
  shows "(\<exists>jid ks'. serve fuel env ext codec r (sim s) =
        Some (Ok \<lparr>w_Type = json_type, w_Code = Some 200, w_Out = [JobJson jid]\<rparr>, ks') \<and>
      jid \<notin> set (submitted s) \<and> waiting ks' = waiting (sim s) @ [jid] \<and>
      EmulatorReportHandler jid ks' = Ok \<lparr>JobID = jid, job_Status = JobQueuing, job_Report = [], PredictionNodeR = None\<rparr>) \<or>
    (\<exists>e n. serve fuel env ext codec r (sim s) =
        Some (Ok \<lparr>w_Type = json_type, w_Code = Some 500, w_Out = [ErrorText e]\<rparr>, (sim s)\<lparr>draws := draws (sim s) + n\<rparr>)) \<or>
    (\<exists>p n. serve fuel env ext codec r (sim s) = Some (Panic p, (sim s)\<lparr>draws := draws (sim s) + n\<rparr>))"
proof -
  obtain n out where out: "submits env ((sim s)\<lparr>draws := draws (sim s) + n\<rparr>) out"
    "handle fuel env ext codec h v r (sim s) = respond (checkBody r new_writer) JobJson out"
    using job_route_outcome [OF assms(4)] by blast
  let ?ks = "(sim s)\<lparr>draws := draws (sim s) + n\<rparr>"
  have sv: "serve fuel env ext codec r (sim s) = Some (respond new_writer JobJson out)"
    using out(2) assms(3,5) by (simp add: serve_def checkBody_def)
  note w = reply_def reportError_def Write_def WriteHeader_def set_type_def new_writer_def Let_def
  obtain q ks1 where q: "out = (q, ks1)" by (rule prod.exhaust)
  from out(1) consider (job) g jid where "q = Ok jid" "submit_job env g ?ks = (jid, ks1)"
    | (err) e where "q = Err e" "ks1 = ?ks" | (panic) p where "q = Panic p" "ks1 = ?ks"
    unfolding submits_def q by auto
  then show ?thesis
  proof cases
    case job
    let ?s = "s\<lparr>sim := ?ks\<rparr>"
    have inv: "job_inv env ?s" by (rule job_inv_reachable [OF assms(1) draws_reachable [OF assms(2)]])
    have sub: "submit_job env g (sim ?s) = (jid, ks1)" using job(2) by simp
    note u = submit_inv [OF inv assms(1) sub]
    let ?s' = "?s\<lparr>sim := ks1, submitted := submitted ?s @ [jid]\<rparr>"
    note i = job_invD [OF u(1)]
    have new: "jid \<notin> set (started s)" using u(2) job_invD(2) [OF inv] by simp
    then have "emulatorResult (sim s) jid = None" "map_option fst (running_job s) \<noteq> Some jid"
      using job_invD(5,6) [OF inv] by auto
    then have "job_phase ?s' jid = Waiting" using u(3,4) by (simp add: job_phase_def)
    then have "EmulatorReport jid ks1 = Ok \<lparr>JobID = jid, job_Status = JobQueuing, job_Report = [], PredictionNodeR = None\<rparr>"
      using report_phase [OF u(1), of jid] by (simp add: phase_status_def)
    moreover have "waiting ks1 = waiting (sim s) @ [jid]" using u(3) by (simp add: waiting_def)
    ultimately show ?thesis using u(2) job(1) by (intro disjI1) (simp add: sv q w EmulatorReportHandler_def)
  next
    case err
    then show ?thesis by (intro disjI2 disjI1) (auto simp: sv q w)
  next
    case panic
    then show ?thesis by (intro disjI2) (auto simp: sv q)
  qed
qed

text \<open>
  A GET request changes nothing, whether it is answered or its handler panics, and an answer to a
  request with a body is a 200.
\<close>

lemma get_requests_read_only:
  assumes "r_Method r = ''GET''" and "r_Body r = Some b" and "serve fuel env ext codec r ks = Some m"
  shows "snd m = ks \<and> (\<forall>w. fst m = Ok w \<longrightarrow> w_Code w = Some 200)"
proof -
  obtain h v where h: "find_routes r = [(h, v)]" "m = handle fuel env ext codec h v r ks"
    using serve_Some [OF assms(3)] by blast
  then obtain pat where "(''GET'', pat, h) \<in> set route_table" using find_routes_mem [of h v r] assms(1) by auto
  then have g: "h \<in> {ToVersion, ToReport, ToListNodes, ToListNodeInfo}" by (simp add: route_table_def) blast
  have report: "EmulatorReportHandler jid ks \<noteq> Err e" for jid e
    using EmulatorReport_never_fails [of jid ks] by (auto simp: EmulatorReportHandler_def split: res.splits)
  have ok: "fst (respond new_writer f (x, ks)) = Ok w \<Longrightarrow> (\<And>e. x \<noteq> Err e) \<Longrightarrow> w_Code w = Some 200" for f x w
    by (cases x) (auto simp: reply_def Write_def WriteHeader_def set_type_def new_writer_def Let_def)
  have no_error: "ListNodesHandler env ks \<noteq> Err e" "ListNodeInfoHandler env ks \<noteq> Err e" for e
    by (simp_all add: ListNodesHandler_def NewListNodesEmulator_def ListNodeInfoHandler_def NewListNodeInfoEmulator_def)
  consider "m = (Ok (Write (PlainText ''0.0.1'') new_writer), ks)" | f where "m = respond new_writer f (ListNodesHandler env ks, ks)"
    | f where "m = respond new_writer f (ListNodeInfoHandler env ks, ks)"
    | f where "m = respond new_writer f (EmulatorReportHandler v ks, ks)"
    using g unfolding h(2)
    by (elim insertE emptyE) (auto simp: VersionRoute_def EmulatorReportRoute_def ListNodesEmulatorRoute_def
      ListNodeInfoEmulatorRoute_def checkBody_def assms(2))
  then show ?thesis
  proof cases
    case 1
    then show ?thesis by (simp add: Write_def WriteHeader_def new_writer_def Let_def)
  next
    case 2
    then show ?thesis using ok no_error(1) by auto
  next
    case 3
    then show ?thesis using ok no_error(2) by auto
  next
    case 4
    then show ?thesis using ok [OF _ report] by auto
  qed
qed

text \<open>
  The routes are unambiguous: no request matches two of them, so which one is registered first
  does not matter.
\<close>

lemma routes_unambiguous:
  assumes "(h, v) \<in> set (find_routes r)" and "(h', v') \<in> set (find_routes r)"
  shows "h = h' \<and> v = v' \<and> serve fuel env ext codec r ks = Some (handle fuel env ext codec h v r ks)"
  using assms find_routes_unique [of r] by (cases "find_routes r") (auto simp: serve_def)

text \<open>
  A request to add nodes whose body cannot be decoded is answered with 200 and \<open>null\<close>, as is one
  whose nodes cannot be added: the error is only logged.
\<close>

lemma add_nodes_failure_is_200:
  assumes "find_routes r = [(ToAddNodes, v)]" and "r_Body r = Some b"
    and "decode_node codec b = Inl e \<and> ks' = ks \<or>
      (\<exists>cfg e'. decode_node codec b = Inr cfg \<and> AddNodesHandler fuel env cfg ks = (Err e', ks'))"
  shows "serve fuel env ext codec r ks =
    Some (Ok \<lparr>w_Type = json_type, w_Code = Some 200, w_Out = [NodesJson None]\<rparr>, ks')"
  using assms
  by (auto simp: serve_def AddNodesEmulatorRoute_def NodeConfigParse_def checkBody_def Let_def
    reply_def Write_def WriteHeader_def set_type_def new_writer_def)

section \<open>Examples\<close>

definition example_codec :: codec where
  "example_codec = \<lparr>decode_apps = (\<lambda>b. Inr \<lparr>a_Nodes = [], a_DeployApps = [], a_StatefulsetApps = []\<rparr>),
     decode_node = (\<lambda>b. Inl (Msg ''EOF''))\<rparr>"

definition example_request :: "string \<Rightarrow> string list \<Rightarrow> request" where
  "example_request verb path = \<lparr>r_Method = verb, r_Path = [''v1'', ''scheduler''] @ path, r_Body = Some ''{}''\<rparr>"

lemma example_routes:
  "find_routes (example_request ''POST'' [''emulator'', ''deployment'', ''apps'']) = [(ToApps, ''deployment'')]"
  "find_routes (example_request ''POST'' [''emulator'', ''deployment'', ''horizontal'', ''apps'']) = [(ToHorizontal, ''deployment'')]"
  "find_routes (example_request ''POST'' [''simulator'', ''node'']) = [(ToAddNodes, [])]"
  "find_routes (example_request ''GET'' [''simulator'', ''node'']) = [(ToListNodes, [])]"
  by code_simp+

lemma example_body [simp]: "r_Body (example_request verb path) = Some ''{}''" "r_Method (example_request verb path) = verb"
  by (simp_all add: example_request_def)

lemma example_apps_served:
  "\<exists>w ks'. serve 0 env ext example_codec (example_request ''POST'' [''emulator'', ''deployment'', ''apps'']) ks = Some (Ok w, ks') \<and>
    w_Code w = Some 200"
proof -
  have k: "ToLower ''deployment'' = ''deployment''" by code_simp
  obtain jid ks' where "AppsHandler env [] [] (ks\<lparr>draws := draws ks + 0\<rparr>) = (jid, ks')" by fastforce
  then show ?thesis
    by (simp add: serve_def example_routes AppsEmulatorRoute_def parse_apps_def AppsParseToPod_def k Let_def
      example_codec_def workloads_def checkBody_def reply_def Write_def WriteHeader_def set_type_def new_writer_def)
qed

lemma first_waiting: "waiting (sim first_server) = []"
  by (simp add: first_server_def server_start_def waiting_def fifo_new_abs)

theorem job_request_answered_witness:
  "\<exists>jid ks'. serve 0 first_fit_env example_external example_codec
        (example_request ''POST'' [''emulator'', ''deployment'', ''apps'']) (sim first_server) =
      Some (Ok \<lparr>w_Type = json_type, w_Code = Some 200, w_Out = [JobJson jid]\<rparr>, ks') \<and>
    waiting ks' = [jid] \<and>
    EmulatorReportHandler jid ks' = Ok \<lparr>JobID = jid, job_Status = JobQueuing, job_Report = [], PredictionNodeR = None\<rparr>"
proof -
  have "ToApps \<in> job_routes" by (simp add: job_routes_def)
  from job_request_answered [OF first_fit_inj first_reachable example_routes(1) this example_body(1),
      of 0 example_external example_codec]
  show ?thesis
    using example_apps_served [of first_fit_env example_external "sim first_server"] first_waiting by fastforce
qed

theorem requests_are_server_runs_witness:
  "\<exists>m ks'. serve 0 first_fit_env example_external example_codec
      (example_request ''POST'' [''emulator'', ''deployment'', ''apps'']) (sim first_server) = Some (m, ks') \<and>
    (server_reachable first_fit_env (first_server\<lparr>sim := ks'\<rparr>) \<or>
     (\<exists>jid. server_reachable first_fit_env (first_server\<lparr>sim := ks', submitted := submitted first_server @ [jid]\<rparr>)))"
proof -
  obtain w ks' where "serve 0 first_fit_env example_external example_codec
      (example_request ''POST'' [''emulator'', ''deployment'', ''apps'']) (sim first_server) = Some (Ok w, ks')"
    using example_apps_served by blast
  with requests_are_server_runs [OF first_reachable this] show ?thesis by blast
qed

lemma get_requests_read_only_example:
  "\<exists>m. serve 0 first_fit_env example_external example_codec (example_request ''GET'' [''simulator'', ''node'']) (sim first_server) =
      Some m \<and> snd m = sim first_server"
proof -
  have "\<exists>m. serve 0 first_fit_env example_external example_codec (example_request ''GET'' [''simulator'', ''node'']) (sim first_server) = Some m"
    by (simp add: serve_def example_routes)
  then obtain m where m: "serve 0 first_fit_env example_external example_codec
      (example_request ''GET'' [''simulator'', ''node'']) (sim first_server) = Some m" by blast
  from get_requests_read_only [OF example_body(2) example_body(1) m] m show ?thesis by blast
qed

lemma routes_unambiguous_example:
  "serve 0 first_fit_env example_external example_codec
      (example_request ''POST'' [''emulator'', ''deployment'', ''horizontal'', ''apps'']) (sim first_server) =
    Some (HorizontalEmulatorRoute first_fit_env example_external example_codec ''deployment''
      (example_request ''POST'' [''emulator'', ''deployment'', ''horizontal'', ''apps'']) (sim first_server))"
proof -
  have "(ToHorizontal, ''deployment'') \<in>
      set (find_routes (example_request ''POST'' [''emulator'', ''deployment'', ''horizontal'', ''apps'']))"
    by (simp add: example_routes)
  from routes_unambiguous [OF this this] show ?thesis by simp
qed

lemma add_nodes_failure_is_200_example:
  "serve 0 first_fit_env example_external example_codec (example_request ''POST'' [''simulator'', ''node'']) (sim first_server) =
    Some (Ok \<lparr>w_Type = json_type, w_Code = Some 200, w_Out = [NodesJson None]\<rparr>, sim first_server)"
proof -
  have "decode_node example_codec ''{}'' = Inl (Msg ''EOF'') \<and> sim first_server = sim first_server"
    by (simp add: example_codec_def)
  then show ?thesis
    by (intro add_nodes_failure_is_200 [OF example_routes(3) example_body(1)]) (rule disjI1)
qed

end
