(* ===== verification/Router.thy ===== *)
theory Router
  imports Routes
begin

text \<open>
  The router as \<open>Run\<close> of \<open>cmd/kubesim/app/server.go\<close> fills it: the profiling routes of
  \<open>pkg/routes/pprof.go\<close> and the routes of the theory \<open>Routes\<close>.

  The pages of \<open>net/http/pprof\<close> are named, not modelled: \<open>Lookup\<close> is \<open>pprof.Handler\<close> of a profile's name.
  Registering a route panics in \<open>httprouter\<close> (\<open>vendor/github.com/julienschmidt/httprouter/tree.go\<close>)
  when the path is taken or a parameter meets another segment at the same place.
\<close>

section \<open>The profiling routes\<close>

datatype pprof_page = Index | Cmdline | Profile | Symbol | Trace | Lookup string

definition pprof_index :: pprof_page where "pprof_index = Index"
definition pprof_cmdline :: pprof_page where "pprof_cmdline = Cmdline"
definition pprof_profile :: pprof_page where "pprof_profile = Profile"
definition pprof_allocs :: pprof_page where "pprof_allocs = Profile"
definition pprof_symbol :: pprof_page where "pprof_symbol = Symbol"
definition pprof_trace :: pprof_page where "pprof_trace = Trace"
definition pprof_heap :: pprof_page where "pprof_heap = Lookup ''heap''"
definition pprof_goroutine :: pprof_page where "pprof_goroutine = Lookup ''goroutine''"
definition pprof_block :: pprof_page where "pprof_block = Lookup ''block''"
definition pprof_threadcreate :: pprof_page where "pprof_threadcreate = Lookup ''threadcreate''"
definition pprof_mutex :: pprof_page where "pprof_mutex = Lookup ''mutex''"

definition pprof_path :: "string \<Rightarrow> string list" where
  "pprof_path name = [''debug'', ''pprof''] @ (if name = [] then [] else [name]) @ [[]]"

definition pprof_table :: "(string \<times> pprof_page) list" where
  "pprof_table =
     [([], pprof_index), (''cmdline'', pprof_cmdline), (''profile'', pprof_profile), (''allocs'', pprof_allocs),
      (''symbol'', pprof_symbol), (''trace'', pprof_trace), (''heap'', pprof_heap), (''goroutine'', pprof_goroutine),
      (''block'', pprof_block), (''threadcreate'', pprof_threadcreate), (''mutex'', pprof_mutex)]"

section \<open>Registration\<close>

datatype target = Page pprof_page | Api route

type_synonym router = "(string \<times> segment list \<times> target) list"

fun conflicts :: "segment list \<Rightarrow> segment list \<Rightarrow> bool" where
  "conflicts [] [] \<longleftrightarrow> True"
| "conflicts (p # ps) (q # qs) \<longleftrightarrow>
     (if p = q then conflicts ps qs
      else (case (p, q) of (Static s, Static t) \<Rightarrow> False | _ \<Rightarrow> True))"
| "conflicts _ _ \<longleftrightarrow> False"

definition addRoute :: "string \<Rightarrow> segment list \<Rightarrow> target \<Rightarrow> router \<Rightarrow> router res" where
  "addRoute verb path h rt =
     (if \<exists>(verb', path', h') \<in> set rt. verb' = verb \<and> conflicts path' path
      then Panic (PanicMessage ''conflicting route'') else Ok (rt @ [(verb, path, h)]))"

fun register :: "router \<Rightarrow> router \<Rightarrow> router res" where
  "register [] rt = Ok rt"
| "register ((verb, path, h) # routes) rt =
     (case addRoute verb path h rt of
        Ok rt' \<Rightarrow> register routes rt' | Err e \<Rightarrow> Err e | Panic p \<Rightarrow> Panic p | Hang \<Rightarrow> Hang)"

definition AddPProf :: router where
  "AddPProf = map (\<lambda>(name, page). (''GET'', map Static (pprof_path name), Page page)) pprof_table"

definition add_routes :: router where
  "add_routes = AddPProf @ map (\<lambda>(verb, path, h). (verb, path, Api h)) route_table"

definition new_router :: "router res" where
  "new_router = register add_routes []"

section \<open>Dispatch\<close>

definition targets :: "router \<Rightarrow> request \<Rightarrow> (target \<times> string) list" where
  "targets rt r = List.map_filter
     (\<lambda>(m, pat, h). if m = r_Method r
        then (case match pat (r_Path r) None of
                None \<Rightarrow> None | Some v \<Rightarrow> Some (h, case v of None \<Rightarrow> [] | Some x \<Rightarrow> x))
        else None) rt"

section \<open>Lemmas\<close>

lemma map_filter_map: "List.map_filter f (map g xs) = List.map_filter (f \<circ> g) xs"
  by (induction xs) (auto simp: map_filter_simps split: option.split)

lemma map_map_filter: "map g (List.map_filter f xs) = List.map_filter (map_option g \<circ> f) xs"
  by (induction xs) (auto simp: map_filter_simps split: option.split)

lemma router_apart: "sorted_wrt (\<lambda>(m, p, h) (m', p', h'). m \<noteq> m' \<or> \<not> overlap p p') add_routes"
  by code_simp

lemma router_registers: "new_router = Ok add_routes"
  by code_simp

lemma targets_unique: "length (targets add_routes r) \<le> 1"
proof -
  have "sorted_wrt (\<lambda>x y. (case x of (m, pat, h) \<Rightarrow> if m = r_Method r
        then (case match pat (r_Path r) None of None \<Rightarrow> None | Some v \<Rightarrow> Some (h, case v of None \<Rightarrow> [] | Some x \<Rightarrow> x))
        else None) = (None :: (target \<times> string) option) \<or>
      (case y of (m, pat, h) \<Rightarrow> if m = r_Method r
        then (case match pat (r_Path r) None of None \<Rightarrow> None | Some v \<Rightarrow> Some (h, case v of None \<Rightarrow> [] | Some x \<Rightarrow> x))
        else None) = (None :: (target \<times> string) option)) add_routes"
    by (rule sorted_wrt_mono_rel [OF _ router_apart]) (use match_overlap in \<open>fastforce split: prod.splits if_splits option.splits\<close>)
  then show ?thesis unfolding targets_def by (rule map_filter_exclusive)
qed

lemma targets_api: "targets (map (\<lambda>(verb, path, h). (verb, path, Api h)) tab) r =
    map (\<lambda>(h, v). (Api h, v)) (List.map_filter (\<lambda>(m, pat, h). if m = r_Method r
        then (case match pat (r_Path r) None of None \<Rightarrow> None | Some v \<Rightarrow> Some (h, case v of None \<Rightarrow> [] | Some x \<Rightarrow> x))
        else None) tab)"
  by (induction tab) (auto simp: targets_def map_filter_simps split: option.splits if_splits)

lemma targets_find: "(h, v) \<in> set (find_routes r) \<Longrightarrow> (Api h, v) \<in> set (targets add_routes r)"
proof -
  assume "(h, v) \<in> set (find_routes r)"
  then have "(Api h, v) \<in> set (targets (map (\<lambda>(verb, path, h). (verb, path, Api h)) route_table) r)"
    unfolding targets_api find_routes_def by force
  then show ?thesis by (simp add: add_routes_def targets_def map_filter_append)
qed

lemma match_static: "match (map Static xs) xs v = Some v"
  by (induction xs) auto

lemma targets_page:
  assumes "(name, page) \<in> set pprof_table" and "r_Method r = ''GET''" and "r_Path r = pprof_path name"
  shows "(Page page, []) \<in> set (targets add_routes r)"
proof -
  have "(''GET'', map Static (pprof_path name), Page page) \<in> set add_routes"
    using assms(1) by (force simp: add_routes_def AddPProf_def)
  then show ?thesis
    using assms(2,3) by (force simp: targets_def map_filter_def match_static image_iff)
qed

lemma single: "length xs \<le> 1 \<Longrightarrow> x \<in> set xs \<Longrightarrow> xs = [x]"
  by (cases xs) auto

section \<open>Properties\<close>

text \<open>
  The router can be built and knows what to do: none of the registrations panics, a request has at
  most one target whatever the order of the registrations, the requests the theory \<open>Routes\<close> answers go
  where it says, and each profiling path to its page. The path for allocations, though, has the page
  of the CPU profile.
\<close>

lemma whole_router:
  "new_router = Ok add_routes \<and> length (targets add_routes r) \<le> 1 \<and>
   (\<forall>h v. (h, v) \<in> set (find_routes r) \<longrightarrow> targets add_routes r = [(Api h, v)]) \<and>
   (\<forall>name page. (name, page) \<in> set pprof_table \<and> r_Method r = ''GET'' \<and> r_Path r = pprof_path name \<longrightarrow>
      targets add_routes r = [(Page page, [])]) \<and>
   (r_Method r = ''GET'' \<and> r_Path r = pprof_path ''allocs'' \<longrightarrow> targets add_routes r = [(Page Profile, [])])"
proof -
  have "(''allocs'', Profile) \<in> set pprof_table" by (simp add: pprof_table_def pprof_allocs_def)
  then show ?thesis
    using router_registers targets_unique [of r] targets_find [of _ _ r] targets_page [of _ _ r]
    by (intro conjI allI impI) (blast intro: single)+
qed

definition pprof_request :: "string \<Rightarrow> request" where
  "pprof_request name = \<lparr>r_Method = ''GET'', r_Path = pprof_path name, r_Body = None\<rparr>"

lemma whole_router_example:
  "targets add_routes (pprof_request ''allocs'') = [(Page Profile, [])] \<and>
   targets add_routes (example_request ''GET'' [''simulator'', ''node'']) = [(Api ToListNodes, [])]"
proof -
  have "(ToListNodes, []) \<in> set (find_routes (example_request ''GET'' [''simulator'', ''node'']))"
    by (simp add: example_routes)
  then show ?thesis
    using whole_router [of "pprof_request ''allocs''"] whole_router [of "example_request ''GET'' [''simulator'', ''node'']"]
    by (simp add: pprof_request_def)
qed

end
