(* ===== verification/Sim_Setup.thy ===== *)
theory Sim_Setup
  imports Kubesim_State "HOL-Library.Sublist"
begin

text \<open>
  Setting up the embedded scheduler: \<open>createScheduler\<close>, the bind plugin, the rest of \<open>New\<close> and the
  health and metrics servers of \<open>pkg/scheduler/simulator.go\<close>, what its \<open>Run\<close> starts, and the plugin
  options of \<open>cmd/kubesim/app/server.go\<close>.

  The registry of plugins is the map of \<open>k8s.io/kubernetes/pkg/scheduler/framework/runtime\<close>, a mux the
  \<open>PathRecorderMux\<close> of \<open>k8s.io/apiserver/pkg/server/mux\<close>; the routes that \<open>healthz\<close>, \<open>configz\<close>,
  \<open>Profiling\<close> and \<open>DebugFlags\<close> install are those of their vendored sources. Building the scheduler and
  opening a port are parameters (\<open>libraries\<close>). \<open>New\<close> here ends with the simulator of the theory
  \<open>Kubesim_State\<close>, the registry the scheduler is built with, and the servers it has started.
\<close>

section \<open>Plugins\<close>

text \<open>The plugins a registry can build: those of other packages, and kubesim's binder.\<close>

datatype plugin_factory = OutOfTree string | NewBindPlugin string

type_synonym registry = "string \<rightharpoonup> plugin_factory"

type_synonym reg_option = "registry \<Rightarrow> gerr + registry"

definition registry_Register :: "string \<Rightarrow> plugin_factory \<Rightarrow> registry \<Rightarrow> gerr + registry" where
  "registry_Register name factory r =
     (case r name of
        Some _ \<Rightarrow> Inl (Msg (''a plugin named '' @ name @ '' already exists''))
      | None \<Rightarrow> Inr (r(name \<mapsto> factory)))"

definition WithPlugin :: "string \<Rightarrow> plugin_factory \<Rightarrow> reg_option" where
  "WithPlugin name factory = (\<lambda>registry. registry_Register name factory registry)"

fun apply_options :: "reg_option list \<Rightarrow> registry \<Rightarrow> gerr + registry" where
  "apply_options [] r = Inr r"
| "apply_options (opt # opts) r = (case opt r of Inl e \<Rightarrow> Inl e | Inr r' \<Rightarrow> apply_options opts r')"

text \<open>The binder plugin: its factory keeps the scheduler's name; \<open>Bind\<close> passes the call on.\<close>

record local_binder =
  lb_schedulerName :: string

fun build_binder :: "plugin_factory \<Rightarrow> local_binder option" where
  "build_binder (NewBindPlugin schedulerName) = Some \<lparr>lb_schedulerName = schedulerName\<rparr>"
| "build_binder (OutOfTree name) = None"

definition binder_Name :: "local_binder \<Rightarrow> string" where
  "binder_Name b = ''KubesimBinder''"

definition binder_Bind :: "env \<Rightarrow> local_binder \<Rightarrow> pod \<Rightarrow> string \<Rightarrow> kubesim \<Rightarrow> (kubesim, bind_end) outcome" where
  "binder_Bind env b p nodeName ks = Bind env p nodeName ks"

section \<open>The scheduler's configuration\<close>

record sched_config =
  sc_LeaderElect :: bool
  sc_EnableProfiling :: bool
  sc_EnableContentionProfiling :: bool
  sc_InsecureServing :: bool
  sc_InsecureMetricsServing :: bool

datatype serving = InsecureServing | InsecureMetricsServing

record libraries =
  lib_Scheduler :: "registry \<Rightarrow> sched_config \<Rightarrow> gerr option"
  lib_Serve :: "serving \<Rightarrow> gerr option"

text \<open>
  \<open>createScheduler\<close> ends with the registry handed to \<open>scheduler.New\<close>. The handler it adds to the pod
  informer is \<open>pod_update_handler\<close> of the theory \<open>Kubesim_State\<close>.
\<close>

definition createScheduler :: "libraries \<Rightarrow> string \<Rightarrow> sched_config \<Rightarrow> reg_option list \<Rightarrow> gerr + registry" where
  "createScheduler lib schedulerName cc outOfTreeRegistryOptions =
     (case apply_options outOfTreeRegistryOptions Map.empty of
        Inl e \<Rightarrow> Inl e
      | Inr r \<Rightarrow>
          (let outOfTreeRegistry = r(''KubesimBinder'' \<mapsto> NewBindPlugin schedulerName) in
           case lib_Scheduler lib outOfTreeRegistry cc of
             Some e \<Rightarrow> Inl e
           | None \<Rightarrow> Inr outOfTreeRegistry))"

section \<open>Paths\<close>

datatype mux_handler =
    RootHealth "string list"
  | OneCheck string
  | Configz
  | Metrics
  | ResourceMetrics
  | RedirectTo string
  | PprofIndex
  | PprofProfile
  | PprofSymbol
  | PprofTrace
  | FlagsIndex
  | SetVerbosity

record path_mux =
  pathToHandler :: "string \<rightharpoonup> mux_handler"
  prefixToHandler :: "(string \<times> mux_handler) list"

definition NewPathRecorderMux :: path_mux where
  "NewPathRecorderMux = \<lparr>pathToHandler = Map.empty, prefixToHandler = []\<rparr>"

definition mux_Handle :: "string \<Rightarrow> mux_handler \<Rightarrow> path_mux \<Rightarrow> path_mux" where
  "mux_Handle path h m = m\<lparr>pathToHandler := (pathToHandler m)(path \<mapsto> h)\<rparr>"

definition mux_HandlePrefix :: "string \<Rightarrow> mux_handler \<Rightarrow> path_mux \<Rightarrow> path_mux" where
  "mux_HandlePrefix path h m = m\<lparr>prefixToHandler := AList.update path h (prefixToHandler m)\<rparr>"

text \<open>Prefixes are tried by the number of their slashes, then by length, the larger first.\<close>

definition prefix_rank :: "string \<times> mux_handler \<Rightarrow> nat \<times> nat \<times> string" where
  "prefix_rank = (\<lambda>(p, h). (length (filter ((=) CHR ''/'') p), length p, p))"

definition mux_find :: "path_mux \<Rightarrow> string \<Rightarrow> mux_handler option" where
  "mux_find m path =
     (case pathToHandler m path of
        Some h \<Rightarrow> Some h
      | None \<Rightarrow> map_option snd (find (\<lambda>(p, h). prefix p path) (rev (sort_key prefix_rank (prefixToHandler m)))))"

text \<open>What the vendored packages install.\<close>

definition healthz_InstallHandler :: "string list \<Rightarrow> path_mux \<Rightarrow> path_mux" where
  "healthz_InstallHandler checks m =
     (let checks = (if checks = [] then [''ping''] else checks) in
      fold (\<lambda>c. mux_Handle (''/healthz/'' @ c) (OneCheck c)) checks (mux_Handle ''/healthz'' (RootHealth checks) m))"

definition Profiling_Install :: "path_mux \<Rightarrow> path_mux" where
  "Profiling_Install m =
     mux_Handle ''/debug/pprof/trace'' PprofTrace (mux_Handle ''/debug/pprof/symbol'' PprofSymbol
       (mux_Handle ''/debug/pprof/profile'' PprofProfile (mux_HandlePrefix ''/debug/pprof/'' PprofIndex
         (mux_Handle ''/debug/pprof'' (RedirectTo ''/debug/pprof/'') m))))"

definition DebugFlags_Install :: "string \<Rightarrow> path_mux \<Rightarrow> path_mux" where
  "DebugFlags_Install flag m =
     mux_Handle (''/debug/flags/'' @ flag) SetVerbosity
       (mux_HandlePrefix ''/debug/flags/'' FlagsIndex (mux_Handle ''/debug/flags'' FlagsIndex m))"

section \<open>The health and metrics servers\<close>

definition installMetricHandler :: "path_mux \<Rightarrow> path_mux" where
  "installMetricHandler m =
     mux_Handle ''/metrics/resources'' ResourceMetrics (mux_Handle ''/metrics'' Metrics (mux_Handle ''/configz'' Configz m))"

text \<open>\<open>SetBlockProfileRate\<close> is a setting of the Go runtime: \<open>New\<close> returns whether it was made.\<close>

definition profiling_routes :: "sched_config \<Rightarrow> path_mux \<Rightarrow> path_mux" where
  "profiling_routes config m = (if sc_EnableProfiling config then DebugFlags_Install ''v'' (Profiling_Install m) else m)"

definition newMetricsHandler :: "sched_config \<Rightarrow> path_mux" where
  "newMetricsHandler config = profiling_routes config (installMetricHandler NewPathRecorderMux)"

definition newHealthzHandler :: "sched_config \<Rightarrow> bool \<Rightarrow> string list \<Rightarrow> path_mux" where
  "newHealthzHandler config separateMetrics checks =
     (let m = healthz_InstallHandler checks NewPathRecorderMux;
          m = (if \<not> separateMetrics then installMetricHandler m else m)
      in profiling_routes config m)"

text \<open>
  The filters around a handler. The library's filters for access leave the handler as it is when
  their authenticator or authorizer is nil.
\<close>

datatype filter_name = Authorization string | Authentication string | RequestInfo | CacheControl | PanicRecovery

datatype http_handler = MuxHandler path_mux | Filtered filter_name http_handler

definition with_filter :: "('a \<Rightarrow> filter_name) \<Rightarrow> 'a option \<Rightarrow> http_handler \<Rightarrow> http_handler" where
  "with_filter f a h = (case a of None \<Rightarrow> h | Some x \<Rightarrow> Filtered (f x) h)"

definition buildHandlerChain :: "http_handler \<Rightarrow> string option \<Rightarrow> string option \<Rightarrow> http_handler" where
  "buildHandlerChain handler authn authz =
     (let handler = with_filter Authorization authz handler;
          handler = with_filter Authentication authn handler;
          handler = Filtered RequestInfo handler;
          handler = Filtered CacheControl handler;
          handler = Filtered PanicRecovery handler
      in handler)"

fun chain_filters :: "http_handler \<Rightarrow> filter_name list" where
  "chain_filters (MuxHandler m) = []"
| "chain_filters (Filtered f h) = f # chain_filters h"

fun chain_mux :: "http_handler \<Rightarrow> path_mux" where
  "chain_mux (MuxHandler m) = m"
| "chain_mux (Filtered f h) = chain_mux h"

text \<open>
  The select of \<open>isLeader\<close>: a closed channel is received from with \<open>ok\<close> false; on an open one that nobody
  sends to, and on nil, the default branch is taken.
\<close>

definition isLeader :: "chan \<Rightarrow> bool" where
  "isLeader waitingForLeader = (case waitingForLeader of ChanClosed \<Rightarrow> True | ChanOpen \<Rightarrow> False | ChanNil \<Rightarrow> False)"

text \<open>The answer on a path: that of a handler of a library, an empty 200, or not found.\<close>

datatype answer = AnsweredBy mux_handler | EmptyOK | NotFoundPage

definition mux_serve :: "chan \<Rightarrow> path_mux \<Rightarrow> string \<Rightarrow> answer" where
  "mux_serve waitingForLeader m path =
     (case mux_find m path of
        None \<Rightarrow> NotFoundPage
      | Some ResourceMetrics \<Rightarrow> if \<not> isLeader waitingForLeader then EmptyOK else AnsweredBy ResourceMetrics
      | Some h \<Rightarrow> AnsweredBy h)"

section \<open>\<open>New\<close>\<close>

record simulator =
  su_sim :: kubesim
  su_schedulers :: "string list"
  su_registry :: registry
  su_servers :: "(serving \<times> http_handler) list"
  su_waitingForLeader :: chan
  su_BlockProfile :: bool

definition health_checks :: "sched_config \<Rightarrow> string list" where
  "health_checks cc = (if sc_LeaderElect cc then [''leaderElection''] else [])"

definition healthz_server :: "sched_config \<Rightarrow> http_handler" where
  "healthz_server cc = buildHandlerChain
     (MuxHandler (newHealthzHandler cc (sc_InsecureMetricsServing cc) (health_checks cc))) None None"

definition metrics_server :: "sched_config \<Rightarrow> http_handler" where
  "metrics_server cc = buildHandlerChain (MuxHandler (newMetricsHandler cc)) None None"

definition serve_if :: "bool \<Rightarrow> libraries \<Rightarrow> serving \<Rightarrow> string \<Rightarrow> http_handler \<Rightarrow> gerr + (serving \<times> http_handler) list" where
  "serve_if wanted lib s what h =
     (if wanted
      then (case lib_Serve lib s of Some e \<Rightarrow> Inl (Wrap (''failed to start '' @ what @ '' server'') e) | None \<Rightarrow> Inr [(s, h)])
      else Inr [])"

definition NewSimulator ::
  "libraries \<Rightarrow> string \<Rightarrow> sched_config \<Rightarrow> tracker \<Rightarrow> reg_option list \<Rightarrow> gerr + simulator" where
  "NewSimulator lib addStrategy cc client outOfTreeRegistryOptions =
     (case createScheduler lib DefaultSchedulerName cc outOfTreeRegistryOptions of
        Inl e \<Rightarrow> Inl e
      | Inr reg \<Rightarrow>
          (case serve_if (sc_InsecureServing cc) lib InsecureServing ''healthz'' (healthz_server cc) of
             Inl e \<Rightarrow> Inl e
           | Inr s1 \<Rightarrow>
               (case serve_if (sc_InsecureMetricsServing cc) lib InsecureMetricsServing ''metrics'' (metrics_server cc) of
                  Inl e \<Rightarrow> Inl e
                | Inr s2 \<Rightarrow>
                    Inr \<lparr>su_sim = New addStrategy client, su_schedulers = [DefaultSchedulerName],
                         su_registry = reg, su_servers = s1 @ s2, su_waitingForLeader = ChanOpen,
                         su_BlockProfile = (s1 @ s2 \<noteq> [] \<and> sc_EnableProfiling cc \<and> sc_EnableContentionProfiling cc)\<rparr>)))"

section \<open>\<open>Run\<close>\<close>

text \<open>
  What \<open>Run\<close> of the simulator leaves running: the informers until their channel is closed, the event
  recorder, each scheduler with a context that nobody cancels, and the worker, whose loop is
  \<open>worker_iteration\<close> of the theory \<open>Jobs\<close>.
\<close>

datatype activity = InformersUntil chan | EventRecorder | SchedulerRun string | Worker

definition sim_Run :: "string list \<Rightarrow> kubesim \<Rightarrow> activity list" where
  "sim_Run schedulers ks =
     [InformersUntil (informerStopCh ks), EventRecorder] @ map SchedulerRun schedulers @ [Worker]"

section \<open>Lemmas\<close>

definition with_plugins :: "(string \<times> plugin_factory) list \<Rightarrow> reg_option list" where
  "with_plugins ps = map (\<lambda>(n, f). WithPlugin n f) ps"

definition taken_error :: "string \<Rightarrow> gerr" where
  "taken_error name = Msg (''a plugin named '' @ name @ '' already exists'')"

lemma apply_plugins:
  "distinct (map fst ps) \<Longrightarrow> fst ` set ps \<inter> dom r = {} \<Longrightarrow> apply_options (with_plugins ps) r = Inr (r ++ map_of ps)"
proof (induction ps arbitrary: r)
  case (Cons p ps)
  obtain n f where p: "p = (n, f)" by fastforce
  have "r n = None" "n \<notin> fst ` set ps" using Cons.prems by (auto simp: p)
  then have "map_of ps n = None" by (simp add: map_of_eq_None_iff)
  then have "r(n \<mapsto> f) ++ map_of ps = r ++ map_of (p # ps)"
    by (auto simp: p map_add_def fun_eq_iff split: option.split)
  moreover have "apply_options (with_plugins ps) (r(n \<mapsto> f)) = Inr (r(n \<mapsto> f) ++ map_of ps)"
  proof (rule Cons.IH)
    show "fst ` set ps \<inter> dom (r(n \<mapsto> f)) = {}" using Cons.prems by (auto simp: p simp del: fun_upd_apply)
  qed (use Cons.prems in \<open>simp add: p\<close>)
  moreover have "apply_options (with_plugins (p # ps)) r = apply_options (with_plugins ps) (r(n \<mapsto> f))"
    using \<open>r n = None\<close> by (simp add: with_plugins_def p WithPlugin_def registry_Register_def)
  ultimately show ?case by (simp only:)
qed (simp add: with_plugins_def)

lemma apply_plugins_taken:
  "\<not> (distinct (map fst ps) \<and> fst ` set ps \<inter> dom r = {}) \<Longrightarrow>
   \<exists>n \<in> fst ` set ps. apply_options (with_plugins ps) r = Inl (taken_error n)"
proof (induction ps arbitrary: r)
  case (Cons p ps)
  obtain n f where p: "p = (n, f)" by fastforce
  show ?case
  proof (cases "r n")
    case None
    have "\<exists>m \<in> fst ` set ps. apply_options (with_plugins ps) (r(n \<mapsto> f)) = Inl (taken_error m)"
      using Cons.prems None by (intro Cons.IH) (auto simp: p)
    then show ?thesis using None by (auto simp: with_plugins_def p WithPlugin_def registry_Register_def)
  qed (simp add: with_plugins_def p WithPlugin_def registry_Register_def taken_error_def)
qed simp

section \<open>Properties\<close>

text \<open>
  The scheduler always binds through kubesim. Plugins with different names are all registered, two
  with the same name are an error that names it; but a plugin registered under KubesimBinder is
  silently replaced, so whatever the options are, that name builds the binder whose \<open>Bind\<close> is the
  simulator's.
\<close>

lemma plugins_registered:
  "(if distinct (map fst ps)
    then createScheduler lib name cc (with_plugins ps) =
      (case lib_Scheduler lib ((map_of ps)(''KubesimBinder'' \<mapsto> NewBindPlugin name)) cc of
         Some e \<Rightarrow> Inl e | None \<Rightarrow> Inr ((map_of ps)(''KubesimBinder'' \<mapsto> NewBindPlugin name)))
    else \<exists>n \<in> fst ` set ps. createScheduler lib name cc (with_plugins ps) = Inl (taken_error n)) \<and>
   (\<exists>b. map_option build_binder (((map_of ps)(''KubesimBinder'' \<mapsto> NewBindPlugin name)) ''KubesimBinder'') = Some (Some b) \<and>
     binder_Name b = ''KubesimBinder'' \<and> binder_Bind env b = Bind env)"
proof -
  let ?reg = "(map_of ps)(''KubesimBinder'' \<mapsto> NewBindPlugin name)"
  have bound: "\<exists>b. map_option build_binder (?reg ''KubesimBinder'') = Some (Some b) \<and>
     binder_Name b = ''KubesimBinder'' \<and> binder_Bind env b = Bind env"
    by (simp add: binder_Name_def binder_Bind_def fun_eq_iff)
  show ?thesis
  proof (cases "distinct (map fst ps)")
    case True
    then have "createScheduler lib name cc (with_plugins ps) =
        (case lib_Scheduler lib ?reg cc of Some e \<Rightarrow> Inl e | None \<Rightarrow> Inr ?reg)"
      using apply_plugins [of ps Map.empty] by (simp add: createScheduler_def Let_def)
    then show ?thesis unfolding if_P [OF True] using bound by (rule conjI)
  next
    case False
    then obtain n where n: "n \<in> fst ` set ps" "apply_options (with_plugins ps) Map.empty = Inl (taken_error n)"
      using apply_plugins_taken [of ps Map.empty] by blast
    then have "createScheduler lib name cc (with_plugins ps) = Inl (taken_error n)" by (simp add: createScheduler_def)
    then show ?thesis unfolding if_not_P [OF False] using bound n(1) by (intro conjI bexI)
  qed
qed

lemma NewSimulator_servers:
  assumes "NewSimulator lib addStrategy cc client opts = Inr su"
  shows "su_servers su = (if sc_InsecureServing cc then [(InsecureServing, healthz_server cc)] else []) @
      (if sc_InsecureMetricsServing cc then [(InsecureMetricsServing, metrics_server cc)] else [])"
    and "su_waitingForLeader su = ChanOpen" and "su_sim su = New addStrategy client"
    and "su_schedulers su = [DefaultSchedulerName]"
  using assms by (auto simp: NewSimulator_def serve_if_def split: sum.splits if_splits option.splits)

lemma not_leading: "mux_serve ChanOpen m path \<noteq> AnsweredBy ResourceMetrics"
  by (auto simp: mux_serve_def isLeader_def split: option.split mux_handler.split)

lemmas mux_simps = mux_find_def mux_Handle_def mux_HandlePrefix_def NewPathRecorderMux_def healthz_InstallHandler_def
  Profiling_Install_def DebugFlags_Install_def installMetricHandler_def profiling_routes_def

text \<open>
  What the insecure ports serve. No filter asks who is calling: anybody who reaches the port gets
  health and metrics and, when profiling is enabled, can change the log level. The metrics of
  resources are never served: \<open>isLeader\<close> asks a channel that nobody closes, so the path answers with an
  empty 200.
\<close>

lemma insecure_ports_serve:
  assumes "NewSimulator lib addStrategy cc client opts = Inr su" and "(s, h) \<in> set (su_servers su)"
  defines "answers \<equiv> mux_serve (su_waitingForLeader su) (chain_mux h)"
  shows "chain_filters h = [PanicRecovery, CacheControl, RequestInfo] \<and>
    answers path \<noteq> AnsweredBy ResourceMetrics \<and>
    answers ''/healthz'' = (if s = InsecureServing
      then AnsweredBy (RootHealth (if sc_LeaderElect cc then [''leaderElection''] else [''ping''])) else NotFoundPage) \<and>
    (if s = InsecureServing \<and> sc_InsecureMetricsServing cc
     then answers ''/metrics'' = NotFoundPage \<and> answers ''/metrics/resources'' = NotFoundPage
     else answers ''/metrics'' = AnsweredBy Metrics \<and> answers ''/metrics/resources'' = EmptyOK) \<and>
    answers ''/debug/flags/v'' = (if sc_EnableProfiling cc then AnsweredBy SetVerbosity else NotFoundPage)"
proof -
  note su = NewSimulator_servers [OF assms(1)]
  have chain: "chain_filters (buildHandlerChain (MuxHandler m) None None) = [PanicRecovery, CacheControl, RequestInfo] \<and>
      chain_mux (buildHandlerChain (MuxHandler m) None None) = m" for m
    by (simp add: buildHandlerChain_def with_filter_def Let_def)
  consider "s = InsecureServing" "h = healthz_server cc" | "s = InsecureMetricsServing" "h = metrics_server cc"
    using assms(2) su(1) by (auto split: if_splits)
  then show ?thesis
  proof cases
    case 1
    then have "chain_mux h = newHealthzHandler cc (sc_InsecureMetricsServing cc) (health_checks cc)"
      "chain_filters h = [PanicRecovery, CacheControl, RequestInfo]"
      using chain by (simp_all add: healthz_server_def)
    then show ?thesis unfolding answers_def su(2)
      using 1 not_leading
      by (simp add: mux_serve_def mux_simps newHealthzHandler_def health_checks_def isLeader_def Let_def)
  next
    case 2
    then have "chain_mux h = newMetricsHandler cc" "chain_filters h = [PanicRecovery, CacheControl, RequestInfo]"
      using chain by (simp_all add: metrics_server_def)
    then show ?thesis unfolding answers_def su(2)
      using 2 not_leading by (simp add: mux_serve_def mux_simps newMetricsHandler_def isLeader_def Let_def)
  qed
qed

definition example_libraries :: libraries where
  "example_libraries = \<lparr>lib_Scheduler = (\<lambda>r c. None), lib_Serve = (\<lambda>s. None)\<rparr>"

definition example_sched_config :: sched_config where
  "example_sched_config = \<lparr>sc_LeaderElect = True, sc_EnableProfiling = True, sc_EnableContentionProfiling = True,
     sc_InsecureServing = True, sc_InsecureMetricsServing = False\<rparr>"

lemma insecure_ports_serve_example:
  "\<exists>su h. NewSimulator example_libraries ''prd'' example_sched_config empty_tracker [] = Inr su \<and>
    su_servers su = [(InsecureServing, h)] \<and>
    mux_serve (su_waitingForLeader su) (chain_mux h) ''/metrics/resources'' = EmptyOK"
proof -
  obtain su where su: "NewSimulator example_libraries ''prd'' example_sched_config empty_tracker [] = Inr su"
    by (simp add: NewSimulator_def createScheduler_def serve_if_def example_libraries_def example_sched_config_def Let_def)
  then have s: "su_servers su = [(InsecureServing, healthz_server example_sched_config)]"
    using NewSimulator_servers(1) [OF su] by (simp add: example_sched_config_def)
  then have "(InsecureServing, healthz_server example_sched_config) \<in> set (su_servers su)" by simp
  from insecure_ports_serve [OF su this] s show ?thesis using su by (simp add: example_sched_config_def)
qed

end
