(* ===== verification/Server.thy ===== *)
theory Server
  imports Router Sim_Setup
begin

text \<open>
  Starting the server: the options of \<open>cmd/kubesim/app/options/options.go\<close>, \<open>Validate\<close>, \<open>Run\<close> and
  \<open>InitKubeSchedulerConfiguration\<close> of \<open>cmd/kubesim/app/server.go\<close>, and \<open>GetMasterFromKubeConfig\<close> of
  \<open>pkg/utils/utils.go\<close>.

  What the operating system and the Kubernetes libraries return is the record \<open>platform\<close>: loading
  the kubeconfig file, building client configurations and clients, the scheduler's default options,
  making certificates, and the parts of the scheduler's configuration, each a value or an error; the
  set-up of the scheduler itself is the theory \<open>Sim_Setup\<close>. \<open>Run\<close> ends with an error, or with the
  \<open>running\<close> server: the simulator, the watchers in the order they are started, the router and the
  address it listens on. \<open>main\<close> of \<open>cmd/kubesim/main.go\<close> ends with an exit code.
\<close>

section \<open>Options\<close>

record options =
  o_KubeConfig :: string
  o_SchedulerConfigFile :: string
  o_DefaultSchedulerConfigFile :: string
  o_PolicyFile :: string
  o_Port :: string
  o_Verbose :: bool
  o_PodSpecFile :: string
  o_OutputFormat :: string
  o_AddNodeStrategy :: string
  o_SkipInClusterLookup :: bool
  o_SKipSyncCluster :: bool
  o_ClientCertClientCA :: string
  o_RequestHeaderClientCAFile :: string
  o_MaxLimit :: "32 word"

definition NewKubesimOptions :: options where
  "NewKubesimOptions =
     \<lparr>o_KubeConfig = [], o_SchedulerConfigFile = [], o_DefaultSchedulerConfigFile = [], o_PolicyFile = [], o_Port = [],
      o_Verbose = False, o_PodSpecFile = [], o_OutputFormat = [], o_AddNodeStrategy = [], o_SkipInClusterLookup = False,
      o_SKipSyncCluster = False, o_ClientCertClientCA = [], o_RequestHeaderClientCAFile = [], o_MaxLimit = 0\<rparr>"

text \<open>
  The flags of a command line: the last value given for a name, if any. A flag that is not given
  has the default it was registered with; the default of \<open>requestclientCAfile\<close> is the value
  \<open>ClientCertClientCA\<close> has at that time.
\<close>

record flags =
  string_flag :: "string \<rightharpoonup> string"
  bool_flag :: "string \<rightharpoonup> bool"

definition flag_or :: "('a \<rightharpoonup> 'b) \<Rightarrow> 'a \<Rightarrow> 'b \<Rightarrow> 'b" where
  "flag_or m name d = (case m name of None \<Rightarrow> d | Some v \<Rightarrow> v)"

definition AddFlags :: "flags \<Rightarrow> options \<Rightarrow> options" where
  "AddFlags fl s =
     s\<lparr>o_KubeConfig := flag_or (string_flag fl) ''kubeconfig'' (o_KubeConfig s),
       o_Port := flag_or (string_flag fl) ''port'' (o_Port s),
       o_SkipInClusterLookup := flag_or (bool_flag fl) ''skipinclusterlookup'' (o_SkipInClusterLookup s),
       o_ClientCertClientCA := flag_or (string_flag fl) ''clientcertclientCA'' (o_ClientCertClientCA s),
       o_RequestHeaderClientCAFile := flag_or (string_flag fl) ''requestclientCAfile'' (o_ClientCertClientCA s),
       o_SchedulerConfigFile := flag_or (string_flag fl) ''config'' (o_SchedulerConfigFile s),
       o_PolicyFile := flag_or (string_flag fl) ''policyfile'' (o_PolicyFile s),
       o_AddNodeStrategy := flag_or (string_flag fl) ''addnodestrategy'' (o_AddNodeStrategy s),
       o_DefaultSchedulerConfigFile := flag_or (string_flag fl) ''default-config'' (o_DefaultSchedulerConfigFile s),
       o_Verbose := flag_or (bool_flag fl) ''verbose'' True,
       o_SKipSyncCluster := flag_or (bool_flag fl) ''skipsync'' False,
       o_OutputFormat := flag_or (string_flag fl) ''output'' (o_OutputFormat s)\<rparr>"

definition Validate :: "bool \<Rightarrow> options \<Rightarrow> gerr option" where
  "Validate present opt =
     (if \<not> present then (if length (o_KubeConfig opt) = 0 then Some (Msg ''kubeconfig is missing'') else None)
      else None)"

section \<open>The platform\<close>

record kubeconfig =
  CurrentContext :: string
  Contexts :: "string \<rightharpoonup> string"
  Clusters :: "string \<rightharpoonup> string"

text \<open>The scheduler's options, as far as \<open>Run\<close> sets them; \<open>so_SecurePort\<close> is behind a pointer.\<close>

record sched_options =
  so_ConfigFile :: string
  so_ClientCA :: string
  so_ClientCAFile :: string
  so_RemoteKubeConfigFile :: string
  so_PolicyConfigFile :: string
  so_UseLegacyPolicyConfig :: bool
  so_LeaderElect :: bool
  so_InsecurePort :: nat
  so_SecurePort :: "nat option"

text \<open>The client configurations are opaque.\<close>

record cluster_client =
  cl_lists :: "gvr \<Rightarrow> api_error + kobj list"
  cl_workloads :: external

record platform =
  pf_LoadFromFile :: "string \<Rightarrow> gerr + kubeconfig"
  pf_BuildConfigFromFlags :: "string \<Rightarrow> string \<Rightarrow> gerr + string"
  pf_InClusterConfig :: "gerr + string"
  pf_NewForConfig :: "string \<Rightarrow> gerr + cluster_client"
  pf_NewOptions :: "gerr + sched_options"
  pf_SelfSignedCerts :: "sched_options \<Rightarrow> gerr option"
  pf_ApplyTo :: "sched_options \<Rightarrow> gerr + sched_config"
  pf_Hostname :: "gerr + string"
  pf_ResourceLock :: "string \<Rightarrow> gerr option"
  pf_Configz :: "gerr option"
  pf_libs :: libraries

definition GetMasterFromKubeConfig :: "platform \<Rightarrow> string \<Rightarrow> gerr + string" where
  "GetMasterFromKubeConfig pf filename =
     (case pf_LoadFromFile pf filename of
        Inl e \<Rightarrow> Inl (Wrap ''can not load kubeconfig file'' e)
      | Inr config \<Rightarrow>
          (case Contexts config (CurrentContext config) of
             None \<Rightarrow> Inl (Msg ''Failed to get master address from kubeconfig'')
           | Some cl \<Rightarrow>
               (case Clusters config cl of
                  Some server \<Rightarrow> Inr server
                | None \<Rightarrow> Inl (Msg ''Failed to get master address from kubeconfig''))))"

text \<open>The client configuration of the real cluster.\<close>

definition rest_config :: "platform \<Rightarrow> options \<Rightarrow> gerr + string" where
  "rest_config pf opt =
     (if length (o_KubeConfig opt) \<noteq> 0 then
        (case GetMasterFromKubeConfig pf (o_KubeConfig opt) of
           Inl e \<Rightarrow> Inl (Wrap ''Failed to parse kubeconfig file'' e)
         | Inr master \<Rightarrow>
             (case pf_BuildConfigFromFlags pf master (o_KubeConfig opt) of
                Inl e \<Rightarrow> Inl (Wrap ''Unable to build config'' e)
              | Inr cfg \<Rightarrow> Inr cfg))
      else
        (case pf_InClusterConfig pf of
           Inl e \<Rightarrow> Inl (Wrap ''Unable to build in cluster config'' e)
         | Inr cfg \<Rightarrow> Inr cfg))"

text \<open>
  The scheduler's options. The secure port is set before the pointer to the secure options is
  compared with nil.
\<close>

definition scheduler_options :: "options \<Rightarrow> sched_options \<Rightarrow> sched_options res" where
  "scheduler_options opt opts =
     (let opts = (if length (o_SchedulerConfigFile opt) > 0 then opts\<lparr>so_ConfigFile := o_SchedulerConfigFile opt\<rparr> else opts) in
      if o_SkipInClusterLookup opt \<and> (length (o_ClientCertClientCA opt) = 0 \<or> length (o_RequestHeaderClientCAFile opt) = 0)
      then Err (Msg ''please give the ClientCertClientCA and RequestHeaderClientCAFile value'')
      else
        (let opts = (if o_SkipInClusterLookup opt then opts
               else opts\<lparr>so_ClientCA := o_ClientCertClientCA opt, so_ClientCAFile := o_RequestHeaderClientCAFile opt\<rparr>);
             opts = (if length (so_RemoteKubeConfigFile opts) = 0 then opts\<lparr>so_RemoteKubeConfigFile := o_KubeConfig opt\<rparr> else opts);
             opts = (if length (o_PolicyFile opt) > 0
               then opts\<lparr>so_PolicyConfigFile := o_PolicyFile opt, so_UseLegacyPolicyConfig := True\<rparr> else opts);
             opts = opts\<lparr>so_LeaderElect := True, so_InsecurePort := 10261\<rparr>
         in case so_SecurePort opts of
              None \<Rightarrow> Panic NilDereference
            | Some p \<Rightarrow> Ok (opts\<lparr>so_SecurePort := Some 10262\<rparr>)))"

definition makeLeaderElectionConfig :: "platform \<Rightarrow> string \<Rightarrow> gerr option" where
  "makeLeaderElectionConfig pf uid =
     (case pf_Hostname pf of
        Inl e \<Rightarrow> Some (Wrap ''unable to get hostname'' e)
      | Inr hostname \<Rightarrow>
          (case pf_ResourceLock pf (hostname @ ''_'' @ uid) of
             Some e \<Rightarrow> Some (Wrap (''couldn'' @ [CHR 0x27] @ ''t create resource lock'') e)
           | None \<Rightarrow> None))"

definition InitKubeSchedulerConfiguration :: "platform \<Rightarrow> string \<Rightarrow> sched_options \<Rightarrow> gerr + sched_config" where
  "InitKubeSchedulerConfiguration pf uid opts =
     (case pf_ApplyTo pf opts of
        Inl e \<Rightarrow> Inl (Wrap ''unable to get scheduler config'' e)
      | Inr c \<Rightarrow>
          (case (if sc_LeaderElect c then makeLeaderElectionConfig pf uid else None) of
             Some e \<Rightarrow> Inl e
           | None \<Rightarrow>
               (case pf_Configz pf of
                  Some e \<Rightarrow> Inl (Wrap ''unable to register configz'' e)
                | None \<Rightarrow> Inr c)))"

section \<open>\<open>Run\<close>\<close>

record running =
  run_setup :: simulator
  run_sim :: kubesim
  run_activities :: "activity list"
  run_watchers :: "(gvr \<times> (event \<Rightarrow> tracker \<Rightarrow> (tracker, unit) outcome)) list"
  run_router :: router
  run_address :: string
  run_workloads :: external

definition node_strategy :: "options \<Rightarrow> string" where
  "node_strategy opt = (if length (o_AddNodeStrategy opt) = 0 then ''prd'' else o_AddNodeStrategy opt)"

text \<open>
  The copy of the real cluster and the start of the watchers; the worker is started in between, which
  changes nothing yet.
\<close>

definition start_sync ::
  "options \<Rightarrow> cluster_client \<Rightarrow> kubesim \<Rightarrow> (kubesim \<times> (gvr \<times> (event \<Rightarrow> tracker \<Rightarrow> (tracker, unit) outcome)) list) res" where
  "start_sync opt client ks =
     (if \<not> o_SKipSyncCluster opt
      then map_res (\<lambda>_. (snd (SyncWithClient (cl_lists client) ks), all_watchers)) (fst (SyncWithClient (cl_lists client) ks))
      else Ok (ks, []))"

text \<open>The first part of \<open>Run\<close>: the client of the real cluster and the scheduler's configuration.\<close>

definition prepare :: "platform \<Rightarrow> options \<Rightarrow> (cluster_client \<times> sched_options) res" where
  "prepare pf opt =
     (case rest_config pf opt of
        Inl e \<Rightarrow> Err e
      | Inr cfg \<Rightarrow>
          (case pf_NewForConfig pf cfg of
             Inl e \<Rightarrow> Err e
           | Inr client \<Rightarrow>
               (case pf_NewOptions pf of
                  Inl e \<Rightarrow> Err (Wrap ''unable to create scheduler options'' e)
                | Inr opts \<Rightarrow>
                    (case scheduler_options opt opts of
                       Ok opts \<Rightarrow>
                         (case pf_SelfSignedCerts pf opts of
                            Some e \<Rightarrow> Err (Wrap ''error creating self-signed certificates'' e)
                          | None \<Rightarrow> Ok (client, opts))
                     | Err e \<Rightarrow> Err e
                     | Panic p \<Rightarrow> Panic p
                     | Hang \<Rightarrow> Hang))))"

definition Run :: "platform \<Rightarrow> string \<Rightarrow> options \<Rightarrow> reg_option list \<Rightarrow> running res" where
  "Run pf uid opt registryOptions =
     (case prepare pf opt of
        Ok (client, opts) \<Rightarrow>
          (case InitKubeSchedulerConfiguration pf uid opts of
             Inl e \<Rightarrow> Err (Wrap ''failed to init kube scheduler configuration'' e)
           | Inr cc \<Rightarrow>
               (case NewSimulator (pf_libs pf) (node_strategy opt) cc empty_tracker registryOptions of
                  Inl e \<Rightarrow> Err e
                | Inr su \<Rightarrow>
                    (case start_sync opt client (su_sim su) of
                       Ok (ks, watchers) \<Rightarrow>
                         map_res (\<lambda>router. \<lparr>run_setup = su, run_sim = ks,
                           run_activities = sim_Run (su_schedulers su) ks, run_watchers = watchers, run_router = router,
                           run_address = '':'' @ o_Port opt, run_workloads = cl_workloads client\<rparr>) new_router
                     | Err e \<Rightarrow> Err e
                     | Panic p \<Rightarrow> Panic p
                     | Hang \<Rightarrow> Hang)))
      | Err e \<Rightarrow> Err e
      | Panic p \<Rightarrow> Panic p
      | Hang \<Rightarrow> Hang)"

text \<open>The command: \<open>Run\<close> is only called on options that pass \<open>Validate\<close>.\<close>

definition NewKubesimCommand :: "platform \<Rightarrow> string \<Rightarrow> bool \<Rightarrow> reg_option list \<Rightarrow> flags \<Rightarrow> running res" where
  "NewKubesimCommand pf uid present registryOptions fl =
     (let opt = AddFlags fl NewKubesimOptions in
      case Validate present opt of Some e \<Rightarrow> Err e | None \<Rightarrow> Run pf uid opt registryOptions)"

text \<open>
  \<open>main\<close>: the error printed, if any, and the exit code. The library's \<open>Execute\<close> only returns an error for
  flags it cannot parse; what the command itself fails with is printed by its own function, which
  returns nothing. A panic of Go ends with code 2. While the server listens there is no exit code.
\<close>

definition main :: "(flags + gerr) \<Rightarrow> platform \<Rightarrow> string \<Rightarrow> bool \<Rightarrow> gerr option \<times> nat option" where
  "main parsed pf uid present =
     (case parsed of
        Inr e \<Rightarrow> (Some e, Some 1)
      | Inl fl \<Rightarrow>
          (case NewKubesimCommand pf uid present [] fl of
             Ok r \<Rightarrow> (None, None)
           | Err e \<Rightarrow> (Some e, Some 0)
           | Panic p \<Rightarrow> (None, Some 2)
           | Hang \<Rightarrow> (None, None)))"

section \<open>Lemmas\<close>

text \<open>When the copy ends without an error, every list succeeded.\<close>

lemma sync_each_lists:
  "sync_each client tab ks = (Ok (), ks') \<Longrightarrow> g \<in> fst ` set tab \<Longrightarrow> \<exists>xs. client g = Inr xs"
proof (induction tab arbitrary: ks)
  case (Cons e tab)
  obtain h l c where e: "e = (h, l, c)" by (cases e) auto
  show ?case
  proof (cases "client h")
    case (Inr items)
    obtain r t where "create_each (create_obj h) (filter copied items) (externalkubeclient ks) = (r, t)" by fastforce
    with Cons Inr show ?thesis by (cases r) (auto simp: e)
  qed (use Cons.prems in \<open>simp add: e\<close>)
qed simp

lemma Run_Ok:
  assumes "Run pf uid opt ro = Ok r"
  obtains cfg client cc where "pf_NewForConfig pf cfg = Inr client" and "run_workloads r = cl_workloads client"
    and "run_address r = '':'' @ o_Port opt" and "run_router r = add_routes"
    and "NewSimulator (pf_libs pf) (node_strategy opt) cc empty_tracker ro = Inr (run_setup r)"
    and "start_sync opt client (New (node_strategy opt) empty_tracker) = Ok (run_sim r, run_watchers r)"
    and "run_activities r = sim_Run [DefaultSchedulerName] (run_sim r)"
  using assms
  by (auto simp: Run_def prepare_def map_res_Ok router_registers NewSimulator_servers(3,4) split: res.splits sum.splits option.splits)

text \<open>A list of a real cluster: pairwise different objects of the kind.\<close>

definition listing :: "gvr \<Rightarrow> api_error + kobj list \<Rightarrow> bool" where
  "listing g l \<longleftrightarrow> distinct (map obj_key (listed l)) \<and> list_all (kind_ok g) (listed l)"

lemma listing_copyable: "listing g (client g) \<Longrightarrow> client g = Inr xs \<Longrightarrow> copyable client empty_tracker g"
  by (auto simp: listing_def copyable_def list_all_iff objs_def empty_tracker_def)

section \<open>Properties\<close>

text \<open>
  C27. When the command comes up, the state it serves from is one the job machine starts in, and one
  scheduler and one worker run; the informers are started with a nil channel, so they never stop. With
  \<open>skipsync\<close> the simulated cluster is empty and nothing is watched; without it every list of the
  thirteen resources succeeded, the simulated cluster holds exactly the listed objects that are not
  pending pods, and the eight watchers run, each for its resource.
\<close>

theorem command_starts_server:
  assumes "NewKubesimCommand pf uid present ro fl = Ok r"
    and "\<forall>cfg client g. pf_NewForConfig pf cfg = Inr client \<longrightarrow> listing g (cl_lists client g)"
  shows "run_router r = add_routes \<and>
    run_activities r = [InformersUntil ChanNil, EventRecorder, SchedulerRun DefaultSchedulerName, Worker] \<and>
    server_reachable env (server_start (run_sim r)) \<and> tracker_wf (externalkubeclient (run_sim r)) \<and>
    (\<exists>cfg client. pf_NewForConfig pf cfg = Inr client \<and>
      (if flag_or (bool_flag fl) ''skipsync'' False
       then run_watchers r = [] \<and> (\<forall>g. objs (externalkubeclient (run_sim r)) g = Map.empty)
       else run_watchers r = [(Nodes, NodeWatch), (Pods, PodWatch), (PersistentVolumes, PVWatch),
           (PersistentVolumeClaims, PVCWatch), (StorageClasses, StorageClassWatch), (CSINodes, CSINodeWatch),
           (CSIDrivers, CSIDriverWatch), (VolumeAttachments, VolumeAttachmentsWatch)] \<and>
         (\<forall>g \<in> cluster_resources. \<exists>xs. cl_lists client g = Inr xs) \<and>
         (\<forall>g k x. objs (externalkubeclient (run_sim r)) g k = Some x \<longleftrightarrow>
           g \<in> cluster_resources \<and> x \<in> set (listed (cl_lists client g)) \<and> \<not> pending_pod x \<and> k = obj_key x)))"
proof -
  let ?opt = "AddFlags fl NewKubesimOptions" and ?new = "New (node_strategy (AddFlags fl NewKubesimOptions)) empty_tracker"
  have "Run pf uid ?opt ro = Ok r"
    using assms(1) by (auto simp: NewKubesimCommand_def Let_def split: option.splits)
  then obtain cfg client where c: "pf_NewForConfig pf cfg = Inr client"
    "start_sync ?opt client ?new = Ok (run_sim r, run_watchers r)" "run_router r = add_routes"
    "run_activities r = sim_Run [DefaultSchedulerName] (run_sim r)"
    by (rule Run_Ok)
  have acts: "run_activities r = [InformersUntil ChanNil, EventRecorder, SchedulerRun DefaultSchedulerName, Worker]"
    if "run_sim r = ?new\<lparr>externalkubeclient := t\<rparr>" for t
    using c(4) that by (simp add: sim_Run_def New_def)
  have skip: "o_SKipSyncCluster ?opt = flag_or (bool_flag fl) ''skipsync'' False" by (simp add: AddFlags_def)
  have start: "server_reachable env (server_start (?new\<lparr>externalkubeclient := t\<rparr>))" for t
    by (rule server_reachable.start) simp_all
  have start_empty: "server_reachable env (server_start ?new)"
    by (rule server_reachable.start) simp_all
  show ?thesis
  proof (cases "flag_or (bool_flag fl) ''skipsync'' False")
    case True
    then have r: "run_sim r = ?new" "run_watchers r = []" using c(2) skip by (simp_all add: start_sync_def)
    then have "run_activities r = [InformersUntil ChanNil, EventRecorder, SchedulerRun DefaultSchedulerName, Worker]"
      using acts [of "externalkubeclient ?new"] by simp
    with r show ?thesis using c(1,3) True start_empty by (auto simp: objs_def tracker_wf_empty) (simp add: empty_tracker_def)
  next
    case False
    then have y: "fst (SyncWithClient (cl_lists client) ?new) = Ok ()" "run_sim r = snd (SyncWithClient (cl_lists client) ?new)"
      "run_watchers r = all_watchers"
      using c(2) skip by (auto simp: start_sync_def map_res_Ok)
    then have e: "SyncWithClient (cl_lists client) ?new = (Ok (), run_sim r)" by (simp add: prod_eq_iff)
    have lists: "\<forall>g \<in> synced. \<exists>xs. cl_lists client g = Inr xs"
      using sync_each_lists [OF e [unfolded SyncWithClient_def]] by blast
    then have cp: "\<forall>g \<in> synced. copyable (cl_lists client) (externalkubeclient ?new) g"
      using listing_copyable [of _ "cl_lists client"] assms(2) [rule_format, OF c(1)] by fastforce
    have wf: "tracker_wf (externalkubeclient ?new)" by (simp add: tracker_wf_empty)
    obtain t' where t': "SyncWithClient (cl_lists client) ?new = (Ok (), ?new\<lparr>externalkubeclient := t'\<rparr>)"
      "copy_of (cl_lists client) synced (externalkubeclient ?new) t'"
      unfolding SyncWithClient_def using sync_each_ok [OF wf distinct_table cp] by blast
    have r: "run_sim r = ?new\<lparr>externalkubeclient := t'\<rparr>" using e t'(1) by simp
    have "objs t' g k = Some x \<longleftrightarrow> g \<in> synced \<and> x \<in> set (listed (cl_lists client g)) \<and> copied x \<and> k = obj_key x" for g k x
      using copy_of_mem [OF t'(2) cp] by (simp add: objs_def empty_tracker_def)
    then have mem: "objs (externalkubeclient (run_sim r)) g k = Some x \<longleftrightarrow>
        g \<in> cluster_resources \<and> x \<in> set (listed (cl_lists client g)) \<and> \<not> pending_pod x \<and> k = obj_key x" for g k x
      unfolding r by (simp add: synced_resources [symmetric] copied_not_pending [symmetric])
    have w: "run_watchers r = [(Nodes, NodeWatch), (Pods, PodWatch), (PersistentVolumes, PVWatch),
        (PersistentVolumeClaims, PVCWatch), (StorageClasses, StorageClassWatch), (CSINodes, CSINodeWatch),
        (CSIDrivers, CSIDriverWatch), (VolumeAttachments, VolumeAttachmentsWatch)]"
      using y(3) by (simp add: all_watchers_def storage_watchers_def)
    have "tracker_wf (externalkubeclient (run_sim r))" unfolding r using t'(2) by (simp add: copy_of_def)
    moreover have "server_reachable env (server_start (run_sim r))" unfolding r by (rule start)
    ultimately show ?thesis
      unfolding if_not_P [OF False] using c(1,3) lists [unfolded synced_resources] acts [OF r] w mem by blast
  qed
qed

definition example_platform :: platform where
  "example_platform =
     \<lparr>pf_LoadFromFile = (\<lambda>f. Inr \<lparr>CurrentContext = ''c'', Contexts = [''c'' \<mapsto> ''k''], Clusters = [''k'' \<mapsto> ''https://k:6443'']\<rparr>),
      pf_BuildConfigFromFlags = (\<lambda>m f. Inr m), pf_InClusterConfig = Inl (Msg ''not in a cluster''),
      pf_NewForConfig = (\<lambda>c. Inr \<lparr>cl_lists = small_cluster, cl_workloads = example_external\<rparr>),
      pf_NewOptions = Inr \<lparr>so_ConfigFile = [], so_ClientCA = [], so_ClientCAFile = [], so_RemoteKubeConfigFile = [],
        so_PolicyConfigFile = [], so_UseLegacyPolicyConfig = False, so_LeaderElect = False, so_InsecurePort = 0,
        so_SecurePort = Some 0\<rparr>,
      pf_SelfSignedCerts = (\<lambda>opts. None), pf_ApplyTo = (\<lambda>opts. Inr (example_sched_config\<lparr>sc_LeaderElect := so_LeaderElect opts\<rparr>)),
      pf_Hostname = Inr ''host'', pf_ResourceLock = (\<lambda>n. None), pf_Configz = None, pf_libs = example_libraries\<rparr>"

definition example_flags :: flags where
  "example_flags = \<lparr>string_flag = [''kubeconfig'' \<mapsto> ''kube.conf'', ''port'' \<mapsto> ''8080''], bool_flag = Map.empty\<rparr>"

theorem command_starts_server_witness:
  "\<exists>r. NewKubesimCommand example_platform ''u'' False [] example_flags = Ok r \<and>
    (PersistentVolumeClaims, PVCWatch) \<in> set (run_watchers r) \<and> server_reachable first_fit_env (server_start (run_sim r)) \<and>
    objs (externalkubeclient (run_sim r)) Pods (''ns'', ''web'') = Some (PodObj (bound_pod (example_pod ''web'' []) ''n1'')) \<and>
    objs (externalkubeclient (run_sim r)) Nodes ([], ''n1'') = Some (NodeObj (example_node ''n1''))"
proof -
  have w: "tracker_wf (externalkubeclient (New ''prd'' empty_tracker))" by (simp add: tracker_wf_empty)
  have c: "\<forall>g \<in> synced. copyable small_cluster (externalkubeclient (New ''prd'' empty_tracker)) g"
    by (simp add: small_cluster_copyable)
  obtain t where "SyncWithClient small_cluster (New ''prd'' empty_tracker) = (Ok (), (New ''prd'' empty_tracker)\<lparr>externalkubeclient := t\<rparr>)"
    unfolding SyncWithClient_def using sync_each_ok [OF w distinct_table c] by blast
  moreover obtain su where su: "NewSimulator example_libraries ''prd'' (example_sched_config\<lparr>sc_LeaderElect := True\<rparr>) empty_tracker [] = Inr su"
    by (simp add: NewSimulator_def createScheduler_def serve_if_def example_libraries_def example_sched_config_def)
  moreover note NewSimulator_servers(3) [OF su]
  ultimately have "\<exists>r. NewKubesimCommand example_platform ''u'' False [] example_flags = Ok r"
    by (simp add: router_registers NewKubesimCommand_def Run_def prepare_def rest_config_def GetMasterFromKubeConfig_def example_platform_def
      example_flags_def AddFlags_def NewKubesimOptions_def Validate_def flag_or_def scheduler_options_def
      InitKubeSchedulerConfiguration_def makeLeaderElectionConfig_def start_sync_def node_strategy_def Let_def)
  then obtain r where r: "NewKubesimCommand example_platform ''u'' False [] example_flags = Ok r" by blast
  have "listing g (small_cluster g)" for g
    using copyableD(2,3) [OF small_cluster_copyable [of g]] by (simp add: listing_def)
  then have l: "\<forall>cfg client g. pf_NewForConfig example_platform cfg = Inr client \<longrightarrow> listing g (cl_lists client g)"
    by (auto simp: example_platform_def)
  have s: "\<not> flag_or (bool_flag example_flags) ''skipsync'' False" by (simp add: flag_or_def example_flags_def)
  have n: "pf_NewForConfig example_platform cfg = Inr client \<Longrightarrow> cl_lists client = small_cluster" for cfg client
    by (auto simp: example_platform_def)
  note st = command_starts_server [where env = first_fit_env, OF r l, unfolded if_not_P [OF s]]
  from st obtain cfg client where c: "pf_NewForConfig example_platform cfg = Inr client"
    and w: "run_watchers r = [(Nodes, NodeWatch), (Pods, PodWatch), (PersistentVolumes, PVWatch),
      (PersistentVolumeClaims, PVCWatch), (StorageClasses, StorageClassWatch), (CSINodes, CSINodeWatch),
      (CSIDrivers, CSIDriverWatch), (VolumeAttachments, VolumeAttachmentsWatch)]"
    and m: "\<forall>g k x. objs (externalkubeclient (run_sim r)) g k = Some x \<longleftrightarrow>
      g \<in> cluster_resources \<and> x \<in> set (listed (cl_lists client g)) \<and> \<not> pending_pod x \<and> k = obj_key x"
    by (elim conjE exE) (rule that)
  have "objs (externalkubeclient (run_sim r)) Nodes ([], ''n1'') = Some (NodeObj (example_node ''n1''))"
    unfolding m [rule_format] n [OF c] by (simp add: cluster_resources_def small_cluster_def pending_pod_def node_key_def example_node_def)
  moreover have "objs (externalkubeclient (run_sim r)) Pods (''ns'', ''web'') = Some (PodObj (bound_pod (example_pod ''web'' []) ''n1''))"
    unfolding m [rule_format] n [OF c]
    by (simp add: cluster_resources_def small_cluster_def pending_pod_def pod_key_def example_pod_def bound_pod_def running_def PodRunning_def)
  moreover have "(PersistentVolumeClaims, PVCWatch) \<in> set (run_watchers r)" by (simp add: w)
  ultimately show ?thesis using r st [THEN conjunct2, THEN conjunct2, THEN conjunct1] by blast
qed

text \<open>
  The files for client certificates are handled the wrong way round: with \<open>skipinclusterlookup\<close> both
  must be given and are then ignored, without it they may be missing and are handed over.
\<close>

lemma skip_lookup_ignores_files:
  assumes "scheduler_options opt opts = Ok opts'"
  shows "if o_SkipInClusterLookup opt
    then o_ClientCertClientCA opt \<noteq> [] \<and> o_RequestHeaderClientCAFile opt \<noteq> [] \<and>
      so_ClientCA opts' = so_ClientCA opts \<and> so_ClientCAFile opts' = so_ClientCAFile opts
    else so_ClientCA opts' = o_ClientCertClientCA opt \<and> so_ClientCAFile opts' = o_RequestHeaderClientCAFile opt"
  using assms by (auto simp: scheduler_options_def Let_def split: if_splits option.splits)

lemma skip_lookup_ignores_files_example:
  "\<exists>opts opts'. scheduler_options (NewKubesimOptions\<lparr>o_SkipInClusterLookup := True, o_ClientCertClientCA := ''ca.pem'',
      o_RequestHeaderClientCAFile := ''front.pem''\<rparr>) opts = Ok opts' \<and> so_ClientCA opts' = []"
proof -
  let ?opt = "NewKubesimOptions\<lparr>o_SkipInClusterLookup := True, o_ClientCertClientCA := ''ca.pem'', o_RequestHeaderClientCAFile := ''front.pem''\<rparr>"
  obtain opts where o: "pf_NewOptions example_platform = Inr opts" "so_ClientCA opts = []"
    by (simp add: example_platform_def)
  then have "\<exists>opts'. scheduler_options ?opt opts = Ok opts'"
    by (auto simp: scheduler_options_def NewKubesimOptions_def Let_def example_platform_def)
  then obtain opts' where "scheduler_options ?opt opts = Ok opts'" by blast
  with skip_lookup_ignores_files [OF this] o(2) show ?thesis by auto
qed

end
