(* ===== verification/Goroutines.thy ===== *)
theory Goroutines
  imports Scheduling
begin

text \<open>
  Rounds that overlap. The worker of \<open>Run\<close> and the handlers of the deprecated routes call
  \<open>UpdatePodRequest\<close> and \<open>SchedulerPod\<close> on the same \<open>Kubesim\<close> from different goroutines, without a lock
  around the two calls. The theory \<open>Scheduling\<close> runs one round from start to end; here its blocking
  points are separate steps: a request, the first pod, reading \<open>ks.stop\<close>, the receive, the \<open>close\<close>.

  Channels have identities: \<open>UpdatePodRequest\<close> assigns a fresh one to \<open>ks.stop\<close>. Its state is the field
  \<open>stop\<close> of the simulator; \<open>w_old\<close> holds the states of the channels it had before. A goroutine waits on
  the channel \<open>ks.stop\<close> was when it read it; \<open>close(ks.stop)\<close> reads it again. A send that has not been
  received yet is in \<open>w_sends\<close>; several sends of one call of \<open>Update\<close> are one.

  The handlers \<open>Bind\<close> and \<open>Update\<close> are atomic up to their send. A panic ends an HTTP handler's goroutine
  only; one of the worker, number 0, or of the scheduler ends the process (\<open>w_crashed\<close>).
\<close>

section \<open>The machine\<close>

text \<open>Where a goroutine is in its call of \<open>UpdatePodRequest\<close> and \<open>SchedulerPod\<close>.\<close>

datatype location = Idle | Made | Posted | Waiting_on nat | Woken | Dead

record world =
  w_sim :: kubesim
  w_cur :: nat
  w_old :: "nat \<Rightarrow> chan"
  w_loc :: "nat \<Rightarrow> location"
  w_backlog :: "pod list"
  w_sends :: "nat list"
  w_crashed :: bool

definition chan_state :: "world \<Rightarrow> nat \<Rightarrow> chan" where
  "chan_state w c = (if c = w_cur w then stop (w_sim w) else w_old w c)"

definition make_stop :: "nat \<Rightarrow> pod option \<Rightarrow> 32 word \<Rightarrow> world \<Rightarrow> world" where
  "make_stop g p n w = w\<lparr>w_sim := UpdatePodRequest p n (w_sim w), w_old := (w_old w)(w_cur w := stop (w_sim w)),
     w_cur := Suc (w_cur w), w_loc := (w_loc w)(g := Made)\<rparr>"

definition moves :: "nat \<Rightarrow> location \<Rightarrow> kubesim \<Rightarrow> world \<Rightarrow> world" where
  "moves g l ks w = w\<lparr>w_sim := ks, w_loc := (w_loc w)(g := l)\<rparr>"

definition dies :: "nat \<Rightarrow> kubesim \<Rightarrow> world \<Rightarrow> world" where
  "dies g ks w = (moves g Dead ks w)\<lparr>w_crashed := (g = 0)\<rparr>"

text \<open>
  One step of the process, whose rounds are called by the goroutines in \<open>G\<close>. The first eight rules are
  the statements of the two functions, \<open>received\<close> and \<open>found_closed\<close> the two ways in which a receive
  returns; then the scheduler decides on a pod it has seen.
\<close>

inductive conc_step :: "env \<Rightarrow> nat set \<Rightarrow> world \<Rightarrow> world \<Rightarrow> bool" for env G where
  request: "\<not> w_crashed w \<Longrightarrow> g \<in> G \<Longrightarrow> w_loc w g = Idle \<Longrightarrow> conc_step env G w (make_stop g p n w)"
| first_pod: "\<not> w_crashed w \<Longrightarrow> w_loc w g = Made \<Longrightarrow> nextPod env (w_sim w) = (Ok u, ks) \<Longrightarrow>
     lastSimulatedPod ks = Some p \<Longrightarrow>
     conc_step env G w ((moves g Posted ks w)\<lparr>w_backlog := w_backlog w @ [p]\<rparr>)"
| no_pod: "\<not> w_crashed w \<Longrightarrow> w_loc w g = Made \<Longrightarrow> nextPod env (w_sim w) = (Err e, ks1) \<Longrightarrow>
     seq (Close ks1) (\<lambda>_ ks2. close_stop ks2) id = (Ok (), ks) \<Longrightarrow> conc_step env G w (moves g Idle ks w)"
| no_pod_panic: "\<not> w_crashed w \<Longrightarrow> w_loc w g = Made \<Longrightarrow> nextPod env (w_sim w) = (Err e, ks1) \<Longrightarrow>
     seq (Close ks1) (\<lambda>_ ks2. close_stop ks2) id = (Panic q, ks) \<Longrightarrow> conc_step env G w (dies g ks w)"
| pod_panic: "\<not> w_crashed w \<Longrightarrow> w_loc w g = Made \<Longrightarrow> nextPod env (w_sim w) = (Panic q, ks) \<Longrightarrow>
     conc_step env G w (dies g ks w)"
| read_stop: "\<not> w_crashed w \<Longrightarrow> w_loc w g = Posted \<Longrightarrow> conc_step env G w (moves g (Waiting_on (w_cur w)) (w_sim w) w)"
| close_ok: "\<not> w_crashed w \<Longrightarrow> w_loc w g = Woken \<Longrightarrow> close_stop (w_sim w) = (Ok u, ks) \<Longrightarrow>
     conc_step env G w (moves g Idle ks w)"
| close_panic: "\<not> w_crashed w \<Longrightarrow> w_loc w g = Woken \<Longrightarrow> close_stop (w_sim w) = (Panic q, ks) \<Longrightarrow>
     conc_step env G w (dies g ks w)"
| received: "\<not> w_crashed w \<Longrightarrow> w_loc w g = Waiting_on c \<Longrightarrow> c \<in> set (w_sends w) \<Longrightarrow> chan_state w c = ChanOpen \<Longrightarrow>
     conc_step env G w ((moves g Woken (w_sim w) w)\<lparr>w_sends := remove1 c (w_sends w)\<rparr>)"
| found_closed: "\<not> w_crashed w \<Longrightarrow> w_loc w g = Waiting_on c \<Longrightarrow> chan_state w c = ChanClosed \<Longrightarrow>
     conc_step env G w (moves g Woken (w_sim w) w)"
| send_panic: "\<not> w_crashed w \<Longrightarrow> c \<in> set (w_sends w) \<Longrightarrow> chan_state w c = ChanClosed \<Longrightarrow>
     conc_step env G w (w\<lparr>w_crashed := True\<rparr>)"
| bound_next: "\<not> w_crashed w \<Longrightarrow> p \<in> set (w_backlog w) \<Longrightarrow> Bind env p n (w_sim w) = (Ok BindDone, ks) \<Longrightarrow>
     lastSimulatedPod ks = Some p' \<Longrightarrow>
     conc_step env G w (w\<lparr>w_sim := ks, w_backlog := remove1 p (w_backlog w) @ [p']\<rparr>)"
| bound_last: "\<not> w_crashed w \<Longrightarrow> p \<in> set (w_backlog w) \<Longrightarrow> Bind env p n (w_sim w) = (Ok BindStop, ks) \<Longrightarrow>
     conc_step env G w (w\<lparr>w_sim := ks, w_backlog := remove1 p (w_backlog w), w_sends := w_cur w # w_sends w\<rparr>)"
| not_bound: "\<not> w_crashed w \<Longrightarrow> p \<in> set (w_backlog w) \<Longrightarrow> Bind env p n (w_sim w) = (Err e, ks) \<Longrightarrow>
     conc_step env G w (w\<lparr>w_sim := ks\<rparr>)"
| bind_panic: "\<not> w_crashed w \<Longrightarrow> p \<in> set (w_backlog w) \<Longrightarrow> Bind env p n (w_sim w) = (Panic q, ks) \<Longrightarrow>
     conc_step env G w (w\<lparr>w_sim := ks, w_crashed := True\<rparr>)"
| gave_up: "\<not> w_crashed w \<Longrightarrow> p \<in> set (w_backlog w) \<Longrightarrow> schedule_failed p m (w_sim w) = (Ok (Suc k), ks) \<Longrightarrow>
     conc_step env G w (w\<lparr>w_sim := ks, w_backlog := remove1 p (w_backlog w), w_sends := w_cur w # w_sends w\<rparr>)"
| retried: "\<not> w_crashed w \<Longrightarrow> p \<in> set (w_backlog w) \<Longrightarrow> schedule_failed p m (w_sim w) = (Ok 0, ks) \<Longrightarrow>
     conc_step env G w (w\<lparr>w_sim := ks\<rparr>)"
| update_panic: "\<not> w_crashed w \<Longrightarrow> p \<in> set (w_backlog w) \<Longrightarrow> schedule_failed p m (w_sim w) = (Panic q, ks) \<Longrightarrow>
     conc_step env G w (w\<lparr>w_sim := ks, w_crashed := True\<rparr>)"

definition world_of :: "kubesim \<Rightarrow> world" where
  "world_of ks = \<lparr>w_sim = ks, w_cur = 0, w_old = (\<lambda>_. ChanNil), w_loc = (\<lambda>_. Idle), w_backlog = [], w_sends = [],
     w_crashed = False\<rparr>"

section \<open>Nobody but \<open>close\<close> and \<open>UpdatePodRequest\<close> touches \<open>ks.stop\<close>\<close>

named_theorems same_stop \<open>the operations that leave \<open>ks.stop\<close> alone\<close>

lemma seq_stop:
  assumes "stop (snd m) = c" and "\<And>x s. stop s = c \<Longrightarrow> stop (snd (f x s)) = c"
  shows "stop (snd (seq m f id)) = c"
proof -
  obtain r s where m: "m = (r, s)" by fastforce
  show ?thesis using assms by (cases r) (simp_all add: m)
qed

lemma Close_stop [same_stop]: "stop (snd (Close ks)) = stop ks"
  by (auto simp: Close_def Let_def split: res.splits)

lemma nextPod_stop [same_stop]: "stop (snd (nextPod env ks)) = stop ks"
  by (auto simp: nextPod_def Let_def split: option.splits sum.splits)

lemma CleanPendingPod_stop [same_stop]: "stop (snd (CleanPendingPod p ks)) = stop ks"
  by (simp add: CleanPendingPod_drop)

lemma Update_stop [same_stop]: "stop (snd (Update p c ks)) = stop ks"
  by (auto simp: Update_def Let_def same_stop intro!: seq_stop)

lemma condition_loop_stop [same_stop]: "stop (snd (condition_loop p cs ks)) = stop ks"
proof (induction cs arbitrary: ks)
  case (Cons c cs)
  then show ?case by (auto simp: same_stop intro!: seq_stop)
qed simp

lemma schedule_failed_stop [same_stop]: "stop (snd (schedule_failed p m ks)) = stop ks"
  by (auto simp: schedule_failed_def pod_update_handler_def Let_def same_stop split: sum.splits)

lemma Bind_stop [same_stop]: "stop (snd (Bind env p n ks)) = stop ks"
proof -
  have next_case: "stop (snd (case nextPod env k of
       (Ok _, ks2) \<Rightarrow> (Ok BindDone, ks2)
     | (Err e, ks2) \<Rightarrow> (Err (Wrap ''Unable to create next pod to schedule'' e), ks2)
     | (Panic x, ks2) \<Rightarrow> (Panic x, ks2) | (Hang, ks2) \<Rightarrow> (Hang, ks2))) = stop k" for k
    using nextPod_stop [of env k] by (auto split: prod.splits res.splits)
  have close_case: "stop (snd (seq (Close k) (\<lambda>_ ks3. (Ok BindStop, ks3)) id)) = stop k" for k
    by (rule seq_stop) (simp_all add: same_stop)
  show ?thesis
    by (auto simp: Bind_def Let_def next_case close_case split: sum.splits option.splits)
qed

lemma stop_after:
  "Bind env p n ks = (r1, k1) \<Longrightarrow> stop k1 = stop ks" "nextPod env ks = (r2, k2) \<Longrightarrow> stop k2 = stop ks"
  "schedule_failed p m ks = (r3, k3) \<Longrightarrow> stop k3 = stop ks" "Close ks = (r4, k4) \<Longrightarrow> stop k4 = stop ks"
  using Bind_stop [of env p n ks] nextPod_stop [of env ks] schedule_failed_stop [of p m ks] Close_stop [of ks] by auto

lemma stop_UpdatePodRequest [simp]: "stop (UpdatePodRequest p n ks) = ChanOpen"
  by (simp add: UpdatePodRequest_def)

lemma nextPod_last: "nextPod env ks = (Ok u, ks') \<Longrightarrow> \<exists>p. lastSimulatedPod ks' = Some p"
  by (auto simp: nextPod_def Let_def split: option.splits sum.splits)

lemma close_stop_open: "stop ks = ChanOpen \<Longrightarrow> close_stop ks = (Ok (), ks\<lparr>stop := ChanClosed\<rparr>)"
  by (simp add: close_stop_def)

lemma close_stop_closed: "stop ks = ChanClosed \<Longrightarrow> close_stop ks = (Panic CloseOfClosedChannel, ks)"
  by (simp add: close_stop_def)

lemmas world_simps = make_stop_def moves_def dies_def chan_state_def

section \<open>A goroutine whose channel was replaced\<close>

definition overtaken :: "nat \<Rightarrow> nat \<Rightarrow> world \<Rightarrow> bool" where
  "overtaken g c w \<longleftrightarrow> w_loc w g = Waiting_on c \<and> c < w_cur w \<and> c \<notin> set (w_sends w) \<and> w_old w c = ChanOpen"

lemma overtaken_step:
  assumes "conc_step env G w w'" and "overtaken g c w"
  shows "overtaken g c w'"
  using assms by (cases rule: conc_step.cases) (auto simp: overtaken_def world_simps dest: notin_set_remove1)

section \<open>One goroutine alone\<close>

fun alone_at :: "location \<Rightarrow> world \<Rightarrow> bool" where
  "alone_at Idle w \<longleftrightarrow> w_backlog w = [] \<and> w_sends w = []"
| "alone_at Dead w \<longleftrightarrow> w_backlog w = [] \<and> w_sends w = []"
| "alone_at Made w \<longleftrightarrow> w_backlog w = [] \<and> w_sends w = [] \<and> stop (w_sim w) = ChanOpen"
| "alone_at Woken w \<longleftrightarrow> w_backlog w = [] \<and> w_sends w = [] \<and> stop (w_sim w) = ChanOpen"
| "alone_at Posted w \<longleftrightarrow> stop (w_sim w) = ChanOpen \<and>
     ((\<exists>p. w_backlog w = [p]) \<and> w_sends w = [] \<or> w_backlog w = [] \<and> w_sends w = [w_cur w])"
| "alone_at (Waiting_on c) w \<longleftrightarrow> c = w_cur w \<and> stop (w_sim w) = ChanOpen \<and>
     ((\<exists>p. w_backlog w = [p]) \<and> w_sends w = [] \<or> w_backlog w = [] \<and> w_sends w = [w_cur w])"

definition alone :: "nat \<Rightarrow> world \<Rightarrow> bool" where
  "alone g w \<longleftrightarrow> (\<forall>h. h \<noteq> g \<longrightarrow> w_loc w h = Idle) \<and> alone_at (w_loc w g) w"

definition in_round :: "nat \<Rightarrow> world \<Rightarrow> bool" where
  "in_round g w \<longleftrightarrow> w_loc w g = Posted \<or> w_loc w g = Waiting_on (w_cur w)"

lemma alone_backlog:
  assumes "alone g w" and "p \<in> set (w_backlog w)"
  shows "w_backlog w = [p]" and "w_sends w = []" and "in_round g w" and "stop (w_sim w) = ChanOpen"
  using assms by (cases "w_loc w g"; auto simp: alone_def in_round_def)+

lemma alone_sends:
  assumes "alone g w" and "c \<in> set (w_sends w)"
  shows "w_sends w = [c]" and "c = w_cur w" and "w_backlog w = []" and "in_round g w" and "stop (w_sim w) = ChanOpen"
  using assms by (cases "w_loc w g"; auto simp: alone_def in_round_def)+

lemma alone_round:
  assumes "alone g w" and "in_round g w" and "w_loc w' = w_loc w" and "w_cur w' = w_cur w" and "stop (w_sim w') = ChanOpen"
    and "(\<exists>p. w_backlog w' = [p]) \<and> w_sends w' = [] \<or> w_backlog w' = [] \<and> w_sends w' = [w_cur w]"
  shows "alone g w'"
  using assms by (auto simp: alone_def in_round_def)

lemma alone_step:
  assumes "conc_step env {g} w w'" and "alone g w"
  shows "alone g w'"
proof -
  have at: "h = g" if "w_loc w h \<noteq> Idle" for h using that assms(2) by (auto simp: alone_def)
  have others: "\<forall>h. h \<noteq> g \<longrightarrow> w_loc w h = Idle" and me: "alone_at (w_loc w g) w" using assms(2) by (auto simp: alone_def)
  show ?thesis
    using assms(1)
  proof (cases rule: conc_step.cases)
    case (first_pod h u ks p)
    have "h = g" using at first_pod(3) by simp
    then show ?thesis using first_pod others me stop_after(2) [OF first_pod(4)] by (simp add: alone_def world_simps)
  next
    case (bound_next p n ks p')
    note b = alone_backlog [OF assms(2) bound_next(3)]
    show ?thesis
      using bound_next(1) b stop_after(1) [OF bound_next(4)] by (intro alone_round [OF assms(2) b(3)]) simp_all
  next
    case (bound_last p n ks)
    note b = alone_backlog [OF assms(2) bound_last(3)]
    show ?thesis
      using bound_last(1) b stop_after(1) [OF bound_last(4)] by (intro alone_round [OF assms(2) b(3)]) simp_all
  next
    case (not_bound p n e ks)
    note b = alone_backlog [OF assms(2) not_bound(3)]
    show ?thesis
      using not_bound(1) b stop_after(1) [OF not_bound(4)] by (intro alone_round [OF assms(2) b(3)]) simp_all
  next
    case (bind_panic p n q ks)
    note b = alone_backlog [OF assms(2) bind_panic(3)]
    show ?thesis
      using bind_panic(1) b stop_after(1) [OF bind_panic(4)] by (intro alone_round [OF assms(2) b(3)]) simp_all
  next
    case (gave_up p m k ks)
    note b = alone_backlog [OF assms(2) gave_up(3)]
    show ?thesis
      using gave_up(1) b stop_after(3) [OF gave_up(4)] by (intro alone_round [OF assms(2) b(3)]) simp_all
  next
    case (retried p m ks)
    note b = alone_backlog [OF assms(2) retried(3)]
    show ?thesis
      using retried(1) b stop_after(3) [OF retried(4)] by (intro alone_round [OF assms(2) b(3)]) simp_all
  next
    case (update_panic p m q ks)
    note b = alone_backlog [OF assms(2) update_panic(3)]
    show ?thesis
      using update_panic(1) b stop_after(3) [OF update_panic(4)] by (intro alone_round [OF assms(2) b(3)]) simp_all
  next
    case (received h c)
    note b = alone_sends [OF assms(2) received(4)]
    have "h = g" using at received(3) by simp
    then show ?thesis using received(1) others b by (simp add: alone_def world_simps)
  next
    case (found_closed h c)
    have "h = g" using at found_closed(3) by simp
    then have False using found_closed(3,4) me by (simp add: chan_state_def)
    then show ?thesis ..
  next
    case (send_panic c)
    note b = alone_sends [OF assms(2) send_panic(3)]
    have False using send_panic(4) b(2,5) by (simp add: chan_state_def)
    then show ?thesis ..
  next
    case (request h p n)
    then show ?thesis using others me by (simp add: alone_def world_simps)
  next
    case (no_pod h e ks1 ks)
    have "h = g" using at no_pod(3) by simp
    then show ?thesis using no_pod(1,3) others me by (simp add: alone_def world_simps)
  next
    case (no_pod_panic h e ks1 q ks)
    have "h = g" using at no_pod_panic(3) by simp
    then show ?thesis using no_pod_panic(1,3) others me by (simp add: alone_def world_simps)
  next
    case (pod_panic h q ks)
    have "h = g" using at pod_panic(3) by simp
    then show ?thesis using pod_panic(1,3) others me by (simp add: alone_def world_simps)
  next
    case (read_stop h)
    have "h = g" using at read_stop(3) by simp
    then show ?thesis using read_stop(1,3) others me by (simp add: alone_def world_simps)
  next
    case (close_ok h u ks)
    have "h = g" using at close_ok(3) by simp
    then show ?thesis using close_ok(1,3) others me by (simp add: alone_def world_simps)
  next
    case (close_panic h q ks)
    have "h = g" using at close_panic(3) by simp
    then show ?thesis using close_panic(1,3) others me by (simp add: alone_def world_simps)
  qed
qed

section \<open>A round of the sequential model is a run\<close>

definition settled :: "kubesim \<Rightarrow> (nat \<Rightarrow> location) \<Rightarrow> nat \<Rightarrow> world \<Rightarrow> bool" where
  "settled ks loc c w \<longleftrightarrow> \<not> w_crashed w \<and> w_sim w = ks \<and> w_loc w = loc \<and> w_cur w = c \<and> w_backlog w = [] \<and> w_sends w = []"

lemma close_chan_no_error: "close_chan c \<noteq> Err e"
  by (cases c) simp_all

lemma Close_no_error: "fst (Close ks) \<noteq> Err e"
  using close_chan_no_error [of "schedulerCh ks" e] close_chan_no_error [of "informerStopCh ks" e]
  by (auto simp: Close_def Let_def split: res.splits)

lemma seq_no_error:
  assumes "fst m \<noteq> Err e" and "\<And>x s. fst (f x s) \<noteq> Err e"
  shows "fst (seq m f id) \<noteq> Err e"
proof -
  obtain r s where "m = (r, s)" by fastforce
  then show ?thesis using assms by (cases r) auto
qed

lemma condition_loop_no_error: "fst (condition_loop p cs ks) \<noteq> Err e"
proof (induction cs arbitrary: ks)
  case (Cons c cs)
  have "fst (seq (Close k) (\<lambda>_ s. (Ok True, h s)) id) \<noteq> Err e" for k h
    by (rule seq_no_error) (simp_all add: Close_no_error)
  then have "fst (Update p c k) \<noteq> Err e" for k by (simp add: Update_def Let_def)
  with Cons show ?case by (simp add: seq_no_error)
qed simp

lemma schedule_failed_no_error: "fst (schedule_failed p m ks) \<noteq> Err e"
  using condition_loop_no_error by (auto simp: schedule_failed_def pod_update_handler_def Let_def split: sum.splits)

lemma await_no_error: "fst (await fuel i env p ks) \<noteq> Err e"
proof (induction fuel arbitrary: i p ks)
  case (Suc fuel)
  have "fst (send_stop k) \<noteq> Err e" for k by (auto simp: send_stop_def split: chan.split)
  with Suc show ?case
    by (auto split: decision.splits prod.splits res.splits bind_end.splits option.splits if_splits)
qed simp

lemma send_stop_Ok: "send_stop ks = (Ok (), ks') \<longleftrightarrow> stop ks = ChanOpen \<and> ks' = ks"
  by (auto simp: send_stop_def split: chan.splits)

text \<open>The last send of a round arrives at the goroutine that waits for it.\<close>

lemma send_arrives:
  assumes "\<not> w_crashed w" and "w_loc w g = Waiting_on (w_cur w)" and "send_stop ks = (Ok (), ks')"
  defines "w1 \<equiv> w\<lparr>w_sim := ks, w_backlog := [], w_sends := [w_cur w]\<rparr>"
  shows "\<exists>w'. conc_step env G w1 w' \<and> settled ks' ((w_loc w)(g := Woken)) (w_cur w) w'"
proof -
  have "conc_step env G w1 ((moves g Woken (w_sim w1) w1)\<lparr>w_sends := remove1 (w_cur w) (w_sends w1)\<rparr>)"
    using assms by (intro conc_step.received) (auto simp: chan_state_def send_stop_Ok)
  then show ?thesis using assms by (intro exI conjI) (auto simp: settled_def moves_def send_stop_Ok)
qed

lemma await_runs:
  "await fuel i env p ks = (Ok (), ks') \<Longrightarrow> \<not> w_crashed w \<Longrightarrow> w_sim w = ks \<Longrightarrow> w_loc w g = Waiting_on (w_cur w) \<Longrightarrow>
   w_backlog w = [p] \<Longrightarrow> w_sends w = [] \<Longrightarrow>
   \<exists>w'. (conc_step env G)\<^sup>*\<^sup>* w w' \<and> settled ks' ((w_loc w)(g := Woken)) (w_cur w) w'"
proof (induction fuel arbitrary: i p ks w)
  case (Suc fuel)
  have mem: "p \<in> set (w_backlog w)" using Suc.prems(5) by simp
  have go_on: ?case if "conc_step env G w w1" "await fuel (Suc i) env q ks1 = (Ok (), ks')"
    "w1 = w\<lparr>w_sim := ks1, w_backlog := [q]\<rparr>" for w1 q ks1
  proof -
    have "\<exists>w'. (conc_step env G)\<^sup>*\<^sup>* w1 w' \<and> settled ks' ((w_loc w1)(g := Woken)) (w_cur w1) w'"
      using that(2) Suc.prems(2,4,6) by (intro Suc.IH [of "Suc i" q ks1 w1]) (simp_all add: that(3))
    then have "\<exists>w'. (conc_step env G)\<^sup>*\<^sup>* w1 w' \<and> settled ks' ((w_loc w)(g := Woken)) (w_cur w) w'"
      by (simp add: that(3))
    then show ?thesis using converse_rtranclp_into_rtranclp [of "conc_step env G", OF that(1)] by blast
  qed
  have stop_it: ?case if "conc_step env G w w1" "w1 = w\<lparr>w_sim := ks1, w_backlog := [], w_sends := [w_cur w]\<rparr>"
    "send_stop ks1 = (Ok (), ks')" for w1 ks1
  proof -
    have "\<exists>w'. conc_step env G w1 w' \<and> settled ks' ((w_loc w)(g := Woken)) (w_cur w) w'"
      unfolding that(2) by (rule send_arrives [OF Suc.prems(2,4) that(3)])
    then show ?thesis using converse_rtranclp_into_rtranclp [of "conc_step env G", OF that(1)] by blast
  qed
  show ?case
  proof (cases "e_schedule env i (draws ks) (externalkubeclient ks) p")
    case NotYet
    have "await fuel (Suc i) env p ks = (Ok (), ks')" using Suc.prems(1) NotYet by simp
    then show ?thesis by (rule Suc.IH [OF _ Suc.prems(2-6)])
  next
    case (BindTo n)
    obtain r ks1 where b: "Bind env p n ks = (r, ks1)" by fastforce
    note steps = conc_step.bound_next conc_step.bound_last conc_step.not_bound
    show ?thesis
    proof (cases r)
      case (Ok e)
      show ?thesis
      proof (cases e)
        case BindDone
        then obtain q where q: "lastSimulatedPod ks1 = Some q" "await fuel (Suc i) env q ks1 = (Ok (), ks')"
          using Suc.prems(1) BindTo b Ok by (auto split: option.splits)
        have "conc_step env G w (w\<lparr>w_sim := ks1, w_backlog := remove1 p (w_backlog w) @ [q]\<rparr>)"
          using Suc.prems(2,3) b Ok BindDone q(1) by (intro conc_step.bound_next [OF _ mem]) simp_all
        then show ?thesis using q(2) Suc.prems(5) by (intro go_on) simp_all
      next
        case BindStop
        have "conc_step env G w (w\<lparr>w_sim := ks1, w_backlog := remove1 p (w_backlog w), w_sends := w_cur w # w_sends w\<rparr>)"
          using Suc.prems(2,3) b Ok BindStop by (intro conc_step.bound_last [OF _ mem]) simp_all
        then show ?thesis using Suc.prems(1,5,6) BindTo b Ok BindStop by (intro stop_it) simp_all
      qed
    next
      case (Err e)
      have "conc_step env G w (w\<lparr>w_sim := ks1\<rparr>)"
        using Suc.prems(2,3) b Err by (intro conc_step.not_bound [OF _ mem]) simp_all
      then show ?thesis using Suc.prems(1,5) BindTo b Err by (intro go_on [of "w\<lparr>w_sim := ks1\<rparr>" p ks1]) simp_all
    qed (use Suc.prems(1) BindTo b in simp_all)
  next
    case (Unschedulable m)
    obtain r ks1 where b: "schedule_failed p m ks = (r, ks1)" by fastforce
    show ?thesis
    proof (cases r)
      case (Ok k)
      show ?thesis
      proof (cases k)
        case 0
        have "conc_step env G w (w\<lparr>w_sim := ks1\<rparr>)"
          using Suc.prems(2,3) b Ok 0 by (intro conc_step.retried [OF _ mem]) simp_all
        then show ?thesis using Suc.prems(1,5) Unschedulable b Ok 0 by (intro go_on [of "w\<lparr>w_sim := ks1\<rparr>" p ks1]) simp_all
      next
        case (Suc k')
        have "conc_step env G w (w\<lparr>w_sim := ks1, w_backlog := remove1 p (w_backlog w), w_sends := w_cur w # w_sends w\<rparr>)"
          using Suc.prems(2,3) b Ok Suc by (intro conc_step.gave_up [OF _ mem]) simp_all
        then show ?thesis using Suc.prems(1,5,6) Unschedulable b Ok Suc by (intro stop_it) simp_all
      qed
    next
      case (Err e)
      then show ?thesis using b schedule_failed_no_error [of p m ks e] by simp
    qed (use Suc.prems(1) Unschedulable b in simp_all)
  qed
qed simp

text \<open>The parts of a round that returns without an error, and the run up to its \<open>close\<close>.\<close>

lemma SchedulerPod_parts:
  assumes "SchedulerPod fuel env ks = (Ok (), ks')"
  obtains ks1 q ks2 where "nextPod env ks = (Ok (), ks1)" and "lastSimulatedPod ks1 = Some q"
    and "await fuel 0 env q ks1 = (Ok (), ks2)" and "close_stop ks2 = (Ok (), ks')"
proof -
  obtain u ks1 where n: "nextPod env ks = (u, ks1)" by fastforce
  have "u = Ok ()"
    using assms n by (cases u; cases "Close ks1"; cases "fst (Close ks1)"; cases "close_stop (snd (Close ks1))";
        cases "fst (close_stop (snd (Close ks1)))") (auto simp: SchedulerPod_def)
  moreover obtain q where "lastSimulatedPod ks1 = Some q" using nextPod_last n calculation by blast
  ultimately show thesis using assms n that by (auto simp: SchedulerPod_def seq_Ok)
qed

lemma round_wakes:
  assumes "nextPod env (UpdatePodRequest p n (w_sim w)) = (Ok (), ks1)" and "lastSimulatedPod ks1 = Some q"
    and "await fuel 0 env q ks1 = (Ok (), ks2)" and "settled (w_sim w) (w_loc w) (w_cur w) w" and "w_loc w g = Idle" and "g \<in> G"
  shows "\<exists>w'. (conc_step env G)\<^sup>*\<^sup>* w w' \<and> settled ks2 ((w_loc w)(g := Woken)) (Suc (w_cur w)) w'"
proof -
  let ?w1 = "make_stop g p n w"
  have ok: "\<not> w_crashed w" "w_backlog w = []" "w_sends w = []" using assms(4) by (simp_all add: settled_def)
  have s1: "conc_step env G w ?w1" using ok(1) assms(6,5) by (rule conc_step.request)
  let ?w2 = "(moves g Posted ks1 ?w1)\<lparr>w_backlog := w_backlog ?w1 @ [q]\<rparr>"
  let ?w3 = "moves g (Waiting_on (w_cur ?w2)) (w_sim ?w2) ?w2"
  have s2: "conc_step env G ?w1 ?w2" using ok(1) assms(1,2) by (intro conc_step.first_pod) (simp_all add: make_stop_def)
  have s3: "conc_step env G ?w2 ?w3" using ok(1) by (intro conc_step.read_stop) (simp_all add: world_simps)
  obtain w4 where w4: "(conc_step env G)\<^sup>*\<^sup>* ?w3 w4" "settled ks2 ((w_loc ?w3)(g := Woken)) (w_cur ?w3) w4"
    using await_runs [OF assms(3), of ?w3 g G] ok by (auto simp: moves_def make_stop_def)
  have "(conc_step env G)\<^sup>*\<^sup>* w w4" using s1 s2 s3 w4(1) by (meson converse_rtranclp_into_rtranclp)
  then show ?thesis using w4(2) by (intro exI conjI) (auto simp: world_simps)
qed

section \<open>Properties\<close>

text \<open>
  A round run from start to end is a run of the machine: when \<open>SchedulerPod\<close> returns, with or without
  an error, the goroutine that called it can take the steps of the round, one decision of the
  scheduler after the other, and they leave the same simulator, nobody waiting and no send pending.
\<close>

lemma rounds_are_runs:
  assumes "SchedulerPod fuel env (UpdatePodRequest p n (w_sim w)) = (r, ks')" and "r = Ok () \<or> r = Err e"
    and "settled (w_sim w) (w_loc w) (w_cur w) w" and "w_loc w g = Idle" and "g \<in> G"
  shows "\<exists>w'. (conc_step env G)\<^sup>*\<^sup>* w w' \<and> settled ks' (w_loc w) (Suc (w_cur w)) w'"
proof -
  let ?w1 = "make_stop g p n w"
  have ok: "\<not> w_crashed w" "w_backlog w = []" "w_sends w = []" using assms(3) by (simp_all add: settled_def)
  have returned: "(w_loc w)(g := l, g := Idle) = w_loc w" for l using assms(4) by auto
  show ?thesis
  proof (cases r)
    case (Ok x)
    obtain ks1 q ks2 where sp: "nextPod env (UpdatePodRequest p n (w_sim w)) = (Ok (), ks1)" "lastSimulatedPod ks1 = Some q"
      "await fuel 0 env q ks1 = (Ok (), ks2)" "close_stop ks2 = (Ok (), ks')"
      using assms(1) Ok by (auto elim: SchedulerPod_parts)
    obtain w4 where w4: "(conc_step env G)\<^sup>*\<^sup>* w w4" "settled ks2 ((w_loc w)(g := Woken)) (Suc (w_cur w)) w4"
      using round_wakes [OF sp(1-3) assms(3-5)] by blast
    have "conc_step env G w4 (moves g Idle ks' w4)"
      using w4(2) sp(4) by (intro conc_step.close_ok) (simp_all add: settled_def)
    with w4(1) have "(conc_step env G)\<^sup>*\<^sup>* w (moves g Idle ks' w4)" by (rule rtranclp.rtrancl_into_rtrancl)
    moreover have "settled ks' (w_loc w) (Suc (w_cur w)) (moves g Idle ks' w4)"
      using w4(2) returned by (simp add: settled_def moves_def)
    ultimately show ?thesis by blast
  next
    case (Err e1)
    obtain u ks1 where n: "nextPod env (w_sim ?w1) = (u, ks1)" by fastforce
    have s1: "conc_step env G w ?w1" using ok(1) assms(5,4) by (rule conc_step.request)
    have made: "w_loc ?w1 g = Made" "\<not> w_crashed ?w1" using ok by (simp_all add: make_stop_def)
    have sp: "SchedulerPod fuel env (w_sim ?w1) = (Err e1, ks')" using assms(1) Err by (simp add: make_stop_def)
    have "fst (close_stop k) \<noteq> Err e1" for k by (simp add: close_stop_def close_chan_no_error split: res.split)
    then have "fst (seq (await fuel 0 env q ks1) (\<lambda>_ ks2. close_stop ks2) id) \<noteq> Err e1" for q
      by (rule seq_no_error [OF await_no_error])
    then obtain e2 where u: "u = Err e2"
      using sp n by (cases u) (auto simp: SchedulerPod_def split: option.splits, metis fst_conv)
    have "seq (Close ks1) (\<lambda>_ ks2. close_stop ks2) id = (Ok (), ks')"
      using sp n u
      by (cases "Close ks1"; cases "fst (Close ks1)"; cases "close_stop (snd (Close ks1))"; cases "fst (close_stop (snd (Close ks1)))")
        (use Close_no_error [of ks1] in \<open>auto simp: SchedulerPod_def close_stop_def close_chan_no_error split: res.splits\<close>)
    then have "conc_step env G ?w1 (moves g Idle ks' ?w1)" using made n u by (intro conc_step.no_pod) simp_all
    with s1 have "(conc_step env G)\<^sup>*\<^sup>* w (moves g Idle ks' ?w1)" by (meson converse_rtranclp_into_rtranclp rtranclp.rtrancl_refl)
    moreover have "settled ks' (w_loc w) (Suc (w_cur w)) (moves g Idle ks' ?w1)"
      using ok returned by (simp add: settled_def moves_def make_stop_def)
    ultimately show ?thesis by blast
  qed (use assms(2) in auto)
qed

text \<open>
  C13. As long as one goroutine runs all rounds, the channel is used as it is meant to: the goroutine
  waits on the channel \<open>ks.stop\<close> is, at most one pod or one send is under way, every send is to that
  channel while it is open, and closing it does not panic.
\<close>

theorem one_goroutine_safe:
  assumes "(conc_step env {g})\<^sup>*\<^sup>* (world_of ks) w"
  shows "(\<forall>c. w_loc w g = Waiting_on c \<longrightarrow> c = w_cur w \<and> chan_state w c = ChanOpen) \<and>
    length (w_backlog w) + length (w_sends w) \<le> 1 \<and>
    (\<forall>c \<in> set (w_sends w). c = w_cur w \<and> chan_state w c = ChanOpen) \<and>
    (w_loc w g = Woken \<longrightarrow> (\<exists>ks'. close_stop (w_sim w) = (Ok (), ks')))"
proof -
  have "alone g (world_of ks)" by (simp add: alone_def world_of_def)
  with assms have a: "alone g w" by (induction rule: rtranclp_induct) (blast intro: alone_step)+
  then show ?thesis by (cases "w_loc w g") (auto simp: alone_def chan_state_def close_stop_open)
qed

text \<open>
  C14. A request that overtakes a waiting one leaves it waiting for ever. When the goroutine \<open>g\<close>, the worker
  say, waits for a round that is not decided and \<open>h\<close>, the handler of a deprecated route, starts a
  request, then \<open>g\<close> waits in every later state, whatever the scheduler and the other goroutines do:
  nothing is ever sent to the channel it reads. The worker takes no further job.
\<close>

theorem overtaken_waits_forever:
  assumes "w_loc w g = Waiting_on (w_cur w)" and "w_cur w \<notin> set (w_sends w)" and "stop (w_sim w) = ChanOpen"
    and "\<not> w_crashed w" and "h \<in> G" and "w_loc w h = Idle"
  shows "conc_step env G w (make_stop h p n w) \<and>
    (\<forall>w'. (conc_step env G)\<^sup>*\<^sup>* (make_stop h p n w) w' \<longrightarrow> w_loc w' g = Waiting_on (w_cur w))"
proof -
  have "overtaken g (w_cur w) w'" if "(conc_step env G)\<^sup>*\<^sup>* (make_stop h p n w) w'" for w'
    using that
  proof (induction rule: rtranclp_induct)
    case base
    have "h \<noteq> g" using assms(1,6) by auto
    then show ?case using assms(1-3) by (simp add: overtaken_def make_stop_def)
  next
    case (step w1 w2)
    then show ?case using overtaken_step by blast
  qed
  then show ?thesis using assms(4-6) by (auto simp: overtaken_def intro: conc_step.request)
qed

text \<open>
  C15. A request that starts while another one returns can take the server down. When a handler's round is
  over but \<open>close(ks.stop)\<close> not yet reached, and the worker starts a request, then the handler can close
  the worker's channel: the worker wakes up before its round is decided, and its own \<open>close\<close> panics.
\<close>

theorem late_close_crashes:
  assumes "w_loc w g = Woken" and "g \<noteq> 0" and "w_loc w 0 = Idle" and "0 \<in> G" and "\<not> w_crashed w"
    and "nextPod env (UpdatePodRequest p n (w_sim w)) = (Ok u, ks1)"
  shows "\<exists>w'. (conc_step env G)\<^sup>*\<^sup>* w w' \<and> w_crashed w' \<and> w_sends w' = w_sends w"
proof -
  let ?w1 = "make_stop 0 p n w"
  obtain q where q: "lastSimulatedPod ks1 = Some q" using nextPod_last assms(6) by blast
  let ?w2 = "(moves 0 Posted ks1 ?w1)\<lparr>w_backlog := w_backlog ?w1 @ [q]\<rparr>"
  let ?w3 = "moves 0 (Waiting_on (w_cur ?w2)) (w_sim ?w2) ?w2"
  let ?ks = "ks1\<lparr>stop := ChanClosed\<rparr>"
  let ?w4 = "moves g Idle ?ks ?w3"
  let ?w5 = "moves 0 Woken (w_sim ?w4) ?w4"
  have open1: "stop ks1 = ChanOpen" using stop_after(2) [OF assms(6)] by simp
  have "conc_step env G w ?w1" using assms(5,4,3) by (rule conc_step.request)
  moreover have "conc_step env G ?w1 ?w2" using assms(5,6) q by (intro conc_step.first_pod) (simp_all add: make_stop_def)
  moreover have "conc_step env G ?w2 ?w3" using assms(5) by (intro conc_step.read_stop) (simp_all add: world_simps)
  moreover have "conc_step env G ?w3 ?w4"
    using assms(1,2,5) close_stop_open [OF open1] by (intro conc_step.close_ok) (simp_all add: world_simps)
  moreover have "conc_step env G ?w4 ?w5"
    using assms(2,5) by (intro conc_step.found_closed [where c = "w_cur ?w2"]) (simp_all add: world_simps)
  moreover have "conc_step env G ?w5 (dies 0 ?ks ?w5)"
    using assms(5) by (intro conc_step.close_panic) (simp_all add: world_simps close_stop_closed)
  ultimately have "(conc_step env G)\<^sup>*\<^sup>* w (dies 0 ?ks ?w5)"
    by (meson converse_rtranclp_into_rtranclp rtranclp.rtrancl_refl)
  then show ?thesis by (intro exI [of _ "dies 0 ?ks ?w5"] conjI) (simp_all add: world_simps)
qed

section \<open>Examples\<close>

definition first_world :: world where
  "first_world = world_of (New ''addNode'' (\<lambda>_. []))"

lemma first_world_settled: "settled (w_sim first_world) (w_loc first_world) (w_cur first_world) first_world"
  by (simp add: first_world_def world_of_def settled_def)

lemma rounds_are_runs_example:
  "\<exists>ks' w'. (conc_step (example_env one_then_full) {0})\<^sup>*\<^sup>* first_world w' \<and> settled ks' (\<lambda>_. Idle) 1 w'"
proof -
  have "one_then_full i \<noteq> NotYet" for i by (simp add: one_then_full_def)
  then obtain bound ks' where "SchedulerPod 2 (example_env one_then_full)
      (UpdatePodRequest (Some (example_pod ''web'' [])) 2 (New ''addNode'' (\<lambda>_. []))) = (Ok (), ks')"
    using request_round [OF example_request_ok [of one_then_full]] by blast
  then have "SchedulerPod 2 (example_env one_then_full)
      (UpdatePodRequest (Some (example_pod ''web'' [])) 2 (w_sim first_world)) = (Ok (), ks')"
    by (simp add: first_world_def world_of_def)
  from rounds_are_runs [OF this disjI1 [OF refl] first_world_settled, of 0 "{0}"]
  show ?thesis by (simp add: first_world_def world_of_def) blast
qed

text \<open>The worker is at each of the points the last two properties start from in a real run.\<close>

definition web_request :: "nat \<Rightarrow> world \<Rightarrow> world" where
  "web_request g w = make_stop g (Some (example_pod ''web'' [])) 2 w"

lemma first_pod_posted:
  "\<exists>ks p. nextPod (example_env one_then_full) (w_sim (web_request g first_world)) = (Ok (), ks) \<and>
    lastSimulatedPod ks = Some p \<and> stop ks = ChanOpen"
proof -
  obtain ks where n: "nextPod (example_env one_then_full) (w_sim (web_request g first_world)) = (Ok (), ks)"
    by (auto simp: web_request_def make_stop_def first_world_def world_of_def nextPod_def Let_def UpdatePodRequest_def
      create_obj_eq objs_def split: option.splits)
  then show ?thesis using nextPod_last [OF n] stop_after(2) [OF n] by (auto simp: web_request_def make_stop_def)
qed

lemma waiting_world:
  "\<exists>w. (conc_step (example_env one_then_full) {g})\<^sup>*\<^sup>* first_world w \<and> w_loc w = (\<lambda>_. Idle)(g := Waiting_on 1) \<and>
    w_cur w = 1 \<and> w_sends w = [] \<and> stop (w_sim w) = ChanOpen \<and> \<not> w_crashed w"
proof -
  let ?step = "conc_step (example_env one_then_full) {g}"
  let ?w1 = "web_request g first_world"
  obtain ks p where n: "nextPod (example_env one_then_full) (w_sim ?w1) = (Ok (), ks)" "lastSimulatedPod ks = Some p"
    "stop ks = ChanOpen" using first_pod_posted by blast
  let ?w2 = "(moves g Posted ks ?w1)\<lparr>w_backlog := w_backlog ?w1 @ [p]\<rparr>"
  let ?w3 = "moves g (Waiting_on (w_cur ?w2)) (w_sim ?w2) ?w2"
  have "?step first_world ?w1"
    unfolding web_request_def by (rule conc_step.request) (simp_all add: first_world_def world_of_def)
  moreover have "?step ?w1 ?w2"
    using n by (intro conc_step.first_pod) (simp_all add: web_request_def make_stop_def first_world_def world_of_def)
  moreover have "?step ?w2 ?w3"
    by (intro conc_step.read_stop) (simp_all add: web_request_def world_simps first_world_def world_of_def)
  ultimately have "?step\<^sup>*\<^sup>* first_world ?w3" by (meson converse_rtranclp_into_rtranclp rtranclp.rtrancl_refl)
  moreover have "w_loc ?w3 = (\<lambda>_. Idle)(g := Waiting_on 1) \<and> w_cur ?w3 = 1 \<and> w_sends ?w3 = [] \<and>
      stop (w_sim ?w3) = ChanOpen \<and> \<not> w_crashed ?w3"
    using n(3) by (auto simp: web_request_def world_simps first_world_def world_of_def)
  ultimately show ?thesis by blast
qed

theorem one_goroutine_safe_witness:
  "\<exists>w. w_loc w 0 = Waiting_on (w_cur w) \<and> chan_state w (w_cur w) = ChanOpen \<and> length (w_backlog w) + length (w_sends w) \<le> 1"
proof -
  obtain w where w: "(conc_step (example_env one_then_full) {0})\<^sup>*\<^sup>* first_world w"
    "w_loc w = (\<lambda>_. Idle)(0 := Waiting_on 1)" "w_cur w = 1"
    using waiting_world [of 0] by blast
  from w(1) have "(conc_step (example_env one_then_full) {0})\<^sup>*\<^sup>* (world_of (New ''addNode'' (\<lambda>_. []))) w"
    by (simp add: first_world_def)
  from one_goroutine_safe [OF this] show ?thesis using w(2,3) by (intro exI [of _ w]) auto
qed

theorem overtaken_waits_forever_witness:
  "\<exists>w w1. w_loc w 0 = Waiting_on 1 \<and> conc_step (example_env one_then_full) {0, 1} w w1 \<and>
    (\<forall>w'. (conc_step (example_env one_then_full) {0, 1})\<^sup>*\<^sup>* w1 w' \<longrightarrow> w_loc w' 0 = Waiting_on 1)"
proof -
  obtain w where "(conc_step (example_env one_then_full) {0})\<^sup>*\<^sup>* first_world w"
    and w: "w_loc w = (\<lambda>_. Idle)(0 := Waiting_on 1)" "w_cur w = 1" "w_sends w = []" "stop (w_sim w) = ChanOpen" "\<not> w_crashed w"
    using waiting_world [of 0] by blast
  then have "w_loc w 0 = Waiting_on (w_cur w)" "w_cur w \<notin> set (w_sends w)" "1 \<in> {0, 1 :: nat}" "w_loc w 1 = Idle" by simp_all
  from overtaken_waits_forever [OF this(1,2) w(4,5) this(3,4), of "example_env one_then_full" "Some (example_pod ''web'' [])" 2]
  show ?thesis using w(1,2)
    by (intro exI [where x = w] exI [where x = "make_stop 1 (Some (example_pod ''web'' [])) 2 w"]) simp
qed

text \<open>A handler whose round has just ended, and a request of the worker for a pod of another namespace.\<close>

lemma handler_woken:
  "\<exists>w ks1. (conc_step (example_env one_then_full) {0, 1})\<^sup>*\<^sup>* first_world w \<and> w_loc w = (\<lambda>_. Idle)(1 := Woken) \<and> \<not> w_crashed w \<and>
    nextPod (example_env one_then_full) (UpdatePodRequest (Some (example_pod ''web'' []\<lparr>pod_Namespace := ''other''\<rparr>)) 2 (w_sim w)) =
      (Ok (), ks1)"
proof -
  let ?env = "example_env one_then_full" and ?web = "example_pod ''web'' []" and ?new = "New ''addNode'' (\<lambda>_. [])"
  have "one_then_full i \<noteq> NotYet" for i by (simp add: one_then_full_def)
  then obtain bound ks' where r: "SchedulerPod 2 ?env (UpdatePodRequest (Some ?web) 2 ?new) = (Ok (), ks')"
    "round_of_request ?env ?web 2 ?new bound ks'"
    using request_round [OF example_request_ok [of one_then_full]] by metis
  obtain ks1 q ks2 where p: "nextPod ?env (UpdatePodRequest (Some ?web) 2 ?new) = (Ok (), ks1)" "lastSimulatedPod ks1 = Some q"
    "await 2 0 ?env q ks1 = (Ok (), ks2)" "close_stop ks2 = (Ok (), ks')"
    using r(1) by (rule SchedulerPod_parts)
  have same: "externalkubeclient ks' = externalkubeclient ks2"
    using p(4) by (auto simp: close_stop_def split: res.splits)
  have new: "w_sim first_world = ?new" "w_loc first_world = (\<lambda>_. Idle)" by (simp_all add: first_world_def world_of_def)
  obtain w where w: "(conc_step ?env {0, 1})\<^sup>*\<^sup>* first_world w" "settled ks2 ((\<lambda>_. Idle)(1 := Woken)) (Suc (w_cur first_world)) w"
    using round_wakes [OF _ p(2,3) first_world_settled, of "Some ?web" 2 1 "{0, 1}"] p(1) by (auto simp: new)
  let ?sp = "?web\<lparr>pod_Namespace := ''other''\<rparr>"
  have ns: "fst (pod_key q) = ''ns''" if "q \<in> set bound" for q
  proof -
    have "map pod_key bound = take (length bound) (names ?env ?web 0 2)" using r(2) by (simp add: round_result_def)
    then have "pod_key q \<in> set (names ?env ?web 0 2)" using that by (metis image_eqI in_set_takeD list.set_map)
    then show ?thesis by (auto simp: numeral_2_eq_2 next_key_def example_pod_def)
  qed
  have "(''other'', x) \<noteq> pod_key q" if "q \<in> set bound" for x q
    using ns [OF that] by (cases "pod_key q") auto
  then have "pods_map bound (''other'', x) = None" for x
    unfolding pods_map_def map_of_eq_None_iff by auto
  then have free: "objs (externalkubeclient ks2) Pods (''other'', x) = None" for x
    using r(2) by (simp add: round_result_def same [symmetric] objs_def)
  obtain ks3 where "nextPod ?env (UpdatePodRequest (Some ?sp) 2 ks2) = (Ok (), ks3)"
  proof (rule nextPod_new)
    show "simulatedPod (UpdatePodRequest (Some ?sp) 2 ks2) = Some ?sp" by (simp add: UpdatePodRequest_def)
    show "tracker_wf (externalkubeclient (UpdatePodRequest (Some ?sp) 2 ks2))"
      using r(2) by (simp add: round_result_def same [symmetric] UpdatePodRequest_def)
    show "objs (externalkubeclient (UpdatePodRequest (Some ?sp) 2 ks2)) Pods
        (next_key ?env (draws (UpdatePodRequest (Some ?sp) 2 ks2)) ?sp) = None"
      using free by (simp add: UpdatePodRequest_def next_key_def)
  qed
  then show ?thesis using w by (intro exI [of _ w] exI [of _ ks3]) (simp add: settled_def)
qed

theorem late_close_crashes_witness:
  "\<exists>w w'. (conc_step (example_env one_then_full) {0, 1})\<^sup>*\<^sup>* first_world w \<and> w_loc w = (\<lambda>_. Idle)(1 := Woken) \<and>
    (conc_step (example_env one_then_full) {0, 1})\<^sup>*\<^sup>* w w' \<and> w_crashed w'"
proof -
  obtain w ks1 where w: "(conc_step (example_env one_then_full) {0, 1})\<^sup>*\<^sup>* first_world w" "w_loc w = (\<lambda>_. Idle)(1 := Woken)"
    "\<not> w_crashed w" and n: "nextPod (example_env one_then_full)
      (UpdatePodRequest (Some (example_pod ''web'' []\<lparr>pod_Namespace := ''other''\<rparr>)) 2 (w_sim w)) = (Ok (), ks1)"
    using handler_woken by blast
  have "w_loc w 1 = Woken" "(1 :: nat) \<noteq> 0" "w_loc w 0 = Idle" "0 \<in> {0, 1 :: nat}" using w(2) by simp_all
  from late_close_crashes [OF this w(3) n] show ?thesis using w(1,2) by blast
qed

end
