(* ===== verification/Lone_Rounds.thy ===== *)
theory Lone_Rounds
  imports Goroutines
begin

text \<open>
  A round on the machine of \<open>Goroutines\<close> when one goroutine alone calls \<open>UpdatePodRequest\<close> and
  \<open>SchedulerPod\<close>: whatever the scheduler decides on a pod, and whenever it does, the round goes on, ends
  after a bounded number of steps, and leaves what \<open>round_result\<close> of \<open>Scheduling\<close> says. The proof is an
  invariant with the number of steps that are left: \<open>in_progress\<close> while a pod is pending, \<open>decided\<close>
  once the stop reason is set.
\<close>

section \<open>The simulator during a round\<close>

text \<open>The request \<open>sp\<close>, \<open>n\<close> came when the simulator was \<open>k0\<close>; the pods \<open>bound\<close> are bound and \<open>p\<close> is pending.\<close>

definition in_progress :: "env \<Rightarrow> pod \<Rightarrow> 32 word \<Rightarrow> kubesim \<Rightarrow> pod list \<Rightarrow> pod \<Rightarrow> kubesim \<Rightarrow> bool" where
  "in_progress env sp n k0 bound p ks \<longleftrightarrow>
     same_job (UpdatePodRequest (Some sp) n k0) ks \<and> closeable ks \<and> stop ks = ChanOpen \<and>
     tracker_wf (externalkubeclient ks) \<and>
     objs (externalkubeclient ks) = (objs (externalkubeclient k0))(Pods :=
       (objs (externalkubeclient k0) Pods ++ pods_map bound)(pod_key p \<mapsto> PodObj p)) \<and>
     st_Pods (status ks) = st_Pods (status k0) @ bound \<and>
     map pod_key bound @ [pod_key p] = take (Suc (length bound)) (names env sp (draws k0) (nat (sint n))) \<and>
     (\<forall>q \<in> set bound. simulates (UpdatePodRequest (Some sp) n k0) sp q \<and> Phase (pod_Status q) = PodRunning) \<and>
     simulates (UpdatePodRequest (Some sp) n k0) sp p \<and>
     simulated ks = word_of_nat (Suc (length bound)) \<and> length bound < nat (sint n) \<and>
     draws ks = draws k0 + 2 * Suc (length bound)"

definition decided :: "env \<Rightarrow> pod \<Rightarrow> 32 word \<Rightarrow> kubesim \<Rightarrow> kubesim \<Rightarrow> bool" where
  "decided env sp n k0 ks \<longleftrightarrow> (\<exists>bound. round_of_request env sp n k0 bound ks) \<and> stop ks = ChanOpen"

text \<open>The requests whose rounds end: those of \<open>request_ok\<close>, without the fuel and whatever the scheduler does.\<close>

definition startable :: "env \<Rightarrow> pod \<Rightarrow> 32 word \<Rightarrow> kubesim \<Rightarrow> bool" where
  "startable env sp n k0 \<longleftrightarrow> tracker_wf (externalkubeclient k0) \<and> 0 < sint n \<and> unmarked sp \<and>
     fresh_names env sp (draws k0) (nat (sint n)) (objs (externalkubeclient k0) Pods)"

lemma names_nth: "i < m \<Longrightarrow> names env sp d m ! i = next_key env (d + 2 * i) sp"
proof (induction m arbitrary: i d)
  case (Suc m)
  then show ?case by (cases i) simp_all
qed simp

lemma pods_map_snoc:
  assumes "pod_key q \<notin> pod_key ` set bound"
  shows "pods_map (bound @ [q]) = (pods_map bound)(pod_key q \<mapsto> PodObj q)"
proof -
  have "pods_map (bound @ [q]) = [pod_key q \<mapsto> PodObj q] ++ pods_map bound" by (simp add: pods_map_def)
  also have "\<dots> = pods_map bound ++ [pod_key q \<mapsto> PodObj q]"
    using assms by (intro map_add_comm) (simp add: dom_pods_map)
  finally show ?thesis by simp
qed

lemma pods_map_none: "k \<notin> pod_key ` set ps \<Longrightarrow> pods_map ps k = None"
  using dom_pods_map [of ps] by blast

text \<open>The key of the pending pod is used neither by a bound pod nor by one that was there before.\<close>

lemma pending_key:
  assumes "startable env sp n k0" and "in_progress env sp n k0 bound p ks"
  shows "pod_key p \<notin> pod_key ` set bound" and "objs (externalkubeclient k0) Pods (pod_key p) = None"
    and "pod_key p = next_key env (draws k0 + 2 * length bound) sp"
proof -
  let ?ns = "names env sp (draws k0) (nat (sint n))"
  have t: "map pod_key bound @ [pod_key p] = take (Suc (length bound)) ?ns" and l: "length bound < nat (sint n)"
    using assms(2) by (simp_all add: in_progress_def)
  have d: "distinct ?ns" "set ?ns \<inter> dom (objs (externalkubeclient k0) Pods) = {}"
    using assms(1) by (simp_all add: startable_def fresh_names_def)
  have "distinct (map pod_key bound @ [pod_key p])" unfolding t by (rule distinct_take [OF d(1)])
  then show "pod_key p \<notin> pod_key ` set bound" by simp
  have "pod_key p \<in> set (take (Suc (length bound)) ?ns)" unfolding t [symmetric] by simp
  then show "objs (externalkubeclient k0) Pods (pod_key p) = None" using d(2) by (auto dest: in_set_takeD)
  have "(map pod_key bound @ [pod_key p]) ! length bound = take (Suc (length bound)) ?ns ! length bound" unfolding t ..
  then show "pod_key p = next_key env (draws k0 + 2 * length bound) sp" using l by (simp add: nth_append names_nth)
qed

text \<open>The first pod.\<close>

lemma first_in_progress:
  assumes "startable env sp n k0"
  obtains ks p where "nextPod env (UpdatePodRequest (Some sp) n k0) = (Ok (), ks)" and "lastSimulatedPod ks = Some p"
    and "in_progress env sp n k0 [] p ks"
proof -
  let ?u = "UpdatePodRequest (Some sp) n k0"
  let ?p = "simulated_pod env ?u sp"
  have wf: "tracker_wf (externalkubeclient ?u)" and pos: "0 < sint n" using assms by (simp_all add: startable_def)
  then obtain m where m: "nat (sint n) = Suc m" using gr0_implies_Suc by fastforce
  have new: "objs (externalkubeclient ?u) Pods (next_key env (draws ?u) sp) = None"
    using assms by (simp add: startable_def m fresh_names_Suc)
  have sp: "simulatedPod ?u = Some sp" by simp
  obtain t where t: "nextPod env ?u = (Ok (), ?u\<lparr>simulated := simulated ?u + 1, lastSimulatedPod := Some ?p,
      draws := draws ?u + 2, externalkubeclient := t\<rparr>)" "tracker_wf t"
    "objs t = (objs (externalkubeclient ?u))(Pods := (objs (externalkubeclient ?u) Pods)(next_key env (draws ?u) sp \<mapsto> PodObj ?p))"
    using nextPod_new [OF sp wf new] by blast
  let ?k = "?u\<lparr>simulated := simulated ?u + 1, lastSimulatedPod := Some ?p, draws := draws ?u + 2, externalkubeclient := t\<rparr>"
  have cl: "closeable ?u" by simp
  have "in_progress env sp n k0 [] ?p ?k"
    unfolding in_progress_def
  proof (intro conjI ballI)
    show "same_job ?u ?k" by (simp add: same_job_def)
    show "closeable ?k" using cl by (simp add: closeable_def)
    show "simulates ?u sp ?p" by (simp add: simulates_def)
    show "map pod_key [] @ [pod_key ?p] = take (Suc (length [])) (names env sp (draws k0) (nat (sint n)))" by (simp add: m)
  qed (use t pos in \<open>simp_all\<close>)
  with t(1) show thesis by (intro that [of ?k ?p]) simp_all
qed

section \<open>The decisions of the scheduler\<close>

text \<open>The pending pod is bound: to any node, and whether this ends the round is decided by the count alone.\<close>

lemma bind_in_progress:
  assumes ok: "startable env sp n k0" and p: "in_progress env sp n k0 bound p ks"
  obtains (last) ks' where "Suc (length bound) = nat (sint n)" and "Bind env p m ks = (Ok BindStop, ks')"
    and "decided env sp n k0 ks'"
  | (more) q ks' where "Suc (length bound) < nat (sint n)" and "Bind env p m ks = (Ok BindDone, ks')"
    and "lastSimulatedPod ks' = Some q" and "in_progress env sp n k0 (bound @ [bound_pod p m]) q ks'"
proof -
  let ?u = "UpdatePodRequest (Some sp) n k0" and ?N = "nat (sint n)" and ?b = "bound @ [bound_pod p m]"
  let ?old = "objs (externalkubeclient k0) Pods"
  note P = p [unfolded in_progress_def]
  note key = pending_key [OF ok p]
  have job: "simulatedPod ks = Some sp" "maxSimulated ks = n" "same_job ?u ks" using P by (simp_all add: same_job_def)
  have wf: "tracker_wf (externalkubeclient ks)" using P by simp
  have st: "objs (externalkubeclient ks) Pods (pod_key p) = Some (PodObj p)" using P by simp
  have pos: "0 < sint n" using ok by (simp add: startable_def)
  obtain t where t: "tracker_wf t"
    "objs t = (objs (externalkubeclient ks))(Pods := (objs (externalkubeclient ks) Pods)(pod_key p \<mapsto> PodObj (bound_pod p m)))"
    "Bind env p m ks = (if 0 <s n \<and> n \<le>s simulated ks
       then seq (Close ((after_bind p m t ks)\<lparr>status := (status (after_bind p m t ks))\<lparr>st_StopReason := schedulable_reason n\<rparr>\<rparr>))
            (\<lambda>_ ks3. (Ok BindStop, ks3)) id
       else (case nextPod env (after_bind p m t ks) of
               (Ok _, ks2) \<Rightarrow> (Ok BindDone, ks2)
             | (Err e, ks2) \<Rightarrow> (Err (Wrap ''Unable to create next pod to schedule'' e), ks2)
             | (Panic x, ks2) \<Rightarrow> (Panic x, ks2) | (Hang, ks2) \<Rightarrow> (Hang, ks2)))"
    by (rule Bind_stored [OF wf st, where n = m and env = env]) (use job(2) in \<open>simp only: that\<close>)
  have "int (Suc (length bound)) \<le> sint n" using P by linarith
  then have full: "(0 <s n \<and> n \<le>s simulated ks) \<longleftrightarrow> sint n = int (Suc (length bound))"
    using count_reached [OF pos, of "Suc (length bound)"] P by simp
  have keys: "map pod_key ?b = take (length ?b) (names env sp (draws k0) ?N)" using P by simp
  have sim: "simulates ?u sp (bound_pod p m)" using P by (simp add: simulates_def)
  have pods: "objs t = (objs (externalkubeclient k0))(Pods := ?old ++ pods_map ?b)"
    using P key(1) by (simp add: t(2) pods_map_snoc)
  show thesis
  proof (cases "Suc (length bound) = ?N")
    case True
    let ?k = "(after_bind p m t ks)\<lparr>status := (status (after_bind p m t ks))\<lparr>st_StopReason := schedulable_reason n\<rparr>\<rparr>"
    have "closeable ?k" using P by (simp add: closeable_def after_bind_def)
    moreover have "sint n = int (Suc (length bound))" using True pos by linarith
    ultimately have b: "Bind env p m ks = (Ok BindStop, closing ?k)" using t(3) full by (simp add: Close_closeable)
    have "round_of_request env sp n k0 ?b (closing ?k)"
      unfolding round_result_def
    proof (intro conjI ballI)
      show "same_job ?u (closing ?k)" using job(3) by (simp add: same_job_def closing_def after_bind_def)
      show "objs (externalkubeclient (closing ?k)) = (objs (externalkubeclient ?u))(Pods := ?old ++ pods_map ?b)"
        using pods by (simp add: closing_def after_bind_def)
      show "map pod_key ?b = take (length ?b) (names env sp (draws k0) ?N)" by (rule keys)
    qed (use P t(1) sim True in \<open>auto simp: closing_def after_bind_def\<close>)
    moreover have "stop (closing ?k) = ChanOpen" using P by (simp add: closing_def after_bind_def)
    ultimately show thesis using last [OF True b] unfolding decided_def by blast
  next
    case False
    then have less: "Suc (length bound) < ?N" using P by simp
    let ?k = "after_bind p m t ks"
    let ?q = "simulated_pod env ?k sp"
    have dr: "draws ?k = draws k0 + 2 * Suc (length bound)" using P by simp
    have nf: "\<not> (0 <s n \<and> n \<le>s simulated ks)" using full False by simp
    let ?key = "next_key env (draws ?k) sp"
    have nth: "?key = names env sp (draws k0) ?N ! Suc (length bound)" unfolding dr using less by (simp add: names_nth)
    then have "?key \<in> set (names env sp (draws k0) ?N)" using less by simp
    then have none: "?old ?key = None" using ok by (auto simp: startable_def fresh_names_def)
    have "map pod_key ?b @ [?key] = take (Suc (length ?b)) (names env sp (draws k0) ?N)"
      unfolding keys nth using less by (simp add: take_Suc_conv_app_nth)
    moreover have "distinct (take (Suc (length ?b)) (names env sp (draws k0) ?N))"
      using ok by (simp add: startable_def fresh_names_def)
    ultimately have keys2: "map pod_key ?b @ [pod_key ?q] = take (Suc (length ?b)) (names env sp (draws k0) ?N)"
      and notin: "?key \<notin> pod_key ` set ?b"
      by (simp, metis distinct_append disjoint_insert(1) list.set(2) set_map)
    have new: "objs (externalkubeclient ?k) Pods ?key = None"
      using none pods_map_none [OF notin] pods by (simp add: map_add_def)
    have sp: "simulatedPod ?k = Some sp" and wf2: "tracker_wf (externalkubeclient ?k)" using job(1) t(1) by simp_all
    obtain t2 where t2: "nextPod env ?k = (Ok (), ?k\<lparr>simulated := simulated ?k + 1, lastSimulatedPod := Some ?q,
        draws := draws ?k + 2, externalkubeclient := t2\<rparr>)" "tracker_wf t2"
      "objs t2 = (objs (externalkubeclient ?k))(Pods := (objs (externalkubeclient ?k) Pods)(?key \<mapsto> PodObj ?q))"
      using nextPod_new [OF sp wf2 new] by blast
    let ?k2 = "?k\<lparr>simulated := simulated ?k + 1, lastSimulatedPod := Some ?q, draws := draws ?k + 2, externalkubeclient := t2\<rparr>"
    have b: "Bind env p m ks = (Ok BindDone, ?k2)" using t(3) nf t2(1) by simp
    have "in_progress env sp n k0 ?b ?q ?k2"
      unfolding in_progress_def
    proof (intro conjI)
      show "same_job ?u ?k2" using job(3) by (simp add: same_job_def after_bind_def)
      show "closeable ?k2" using P by (simp add: closeable_def after_bind_def)
      show "objs (externalkubeclient ?k2) = (objs (externalkubeclient k0))(Pods := (?old ++ pods_map ?b)(pod_key ?q \<mapsto> PodObj ?q))"
        using t2(3) pods by simp
      have "ours ?k ?q" by (rule simulated_pod_simps(2))
      then have "ours ?u ?q" using job(3) by (simp add: ours_def same_job_def after_bind_def)
      then show "simulates ?u sp ?q" by (simp add: simulates_def)
      show "map pod_key ?b @ [pod_key ?q] = take (Suc (length ?b)) (names env sp (draws k0) ?N)" by (rule keys2)
      show "simulated ?k2 = word_of_nat (Suc (length ?b))" using P by (simp add: add.commute)
    qed (use P t2(2) sim less dr in auto)
    then show thesis using more [OF less b, of ?q] by simp
  qed
qed

text \<open>The pending pod cannot be scheduled, for whatever reason: the round ends with the pods bound so far.\<close>

lemma fail_in_progress:
  assumes ok: "startable env sp n k0" and p: "in_progress env sp n k0 bound p ks"
  obtains k ks' where "schedule_failed p m ks = (Ok (Suc k), ks')" and "decided env sp n k0 ks'"
proof -
  let ?u = "UpdatePodRequest (Some sp) n k0" and ?old = "objs (externalkubeclient k0) Pods"
  note P = p [unfolded in_progress_def]
  note key = pending_key [OF ok p]
  have un: "unmarked p" using ok P by (simp add: startable_def simulates_def unmarked_def)
  have "ours ?u p" using P by (simp add: simulates_def)
  then have ours: "ours ks p" using P by (simp add: ours_def same_job_def)
  have wf: "tracker_wf (externalkubeclient ks)" and cl: "closeable ks" and st: "objs (externalkubeclient ks) Pods (pod_key p) \<noteq> None"
    using P by simp_all
  from wf st ours cl show thesis
  proof (cases rule: schedule_failed_stored [where msg = m])
    case same
    then show thesis using un by blast
  next
    case (stop k r ks')
    have "(?old ++ pods_map bound)(pod_key p := None) = ?old ++ pods_map bound"
      using key(2) pods_map_none [OF key(1)] by (simp add: fun_eq_iff map_add_def)
    then have pods: "objs (externalkubeclient ks') = (objs (externalkubeclient k0))(Pods := ?old ++ pods_map bound)"
      using stop(5) P by simp
    have "same_job ?u ks'" using P stop(2) same_job_trans by blast
    moreover have "map pod_key bound = take (length bound) (names env sp (draws k0) (nat (sint n)))"
    proof -
      have "map pod_key bound = take (length bound) (map pod_key bound @ [pod_key p])" by simp
      also have "\<dots> = take (length bound) (take (Suc (length bound)) (names env sp (draws k0) (nat (sint n))))" using P by simp
      finally show ?thesis by (simp add: min_def)
    qed
    ultimately have "round_of_request env sp n k0 bound ks'"
      using stop pods P by (auto simp: round_result_def)
    then show thesis using that [OF stop(1)] stop(3) P unfolding decided_def by auto
  qed
qed

section \<open>The invariant of the round\<close>

text \<open>A step of the machine until the goroutine has returned.\<close>

definition round_step :: "env \<Rightarrow> nat \<Rightarrow> world \<Rightarrow> world \<Rightarrow> bool" where
  "round_step env g w w' \<longleftrightarrow> w_loc w g \<noteq> Idle \<and> conc_step env {g} w w'"

text \<open>\<open>left_at\<close> is where the goroutine is, with the number of steps that are left at most.\<close>

definition undecided :: "env \<Rightarrow> pod \<Rightarrow> 32 word \<Rightarrow> kubesim \<Rightarrow> nat \<Rightarrow> world \<Rightarrow> bool" where
  "undecided env sp n k0 j w \<longleftrightarrow> stop (w_sim w) = ChanOpen \<and>
     ((\<exists>bound p. w_backlog w = [p] \<and> w_sends w = [] \<and> in_progress env sp n k0 bound p (w_sim w) \<and> j = nat (sint n) - length bound) \<or>
      w_backlog w = [] \<and> w_sends w = [w_cur w] \<and> decided env sp n k0 (w_sim w) \<and> j = 0)"

lemma undecided_pending:
  "in_progress env sp n k0 bound p (w_sim w) \<Longrightarrow> w_backlog w = [p] \<Longrightarrow> w_sends w = [] \<Longrightarrow>
   undecided env sp n k0 (nat (sint n) - length bound) w"
  by (auto simp: undecided_def) (simp add: in_progress_def)

lemma undecided_sent:
  "decided env sp n k0 (w_sim w) \<Longrightarrow> w_backlog w = [] \<Longrightarrow> w_sends w = [w_cur w] \<Longrightarrow> undecided env sp n k0 0 w"
  by (auto simp: undecided_def decided_def)

fun left_at :: "env \<Rightarrow> pod \<Rightarrow> 32 word \<Rightarrow> kubesim \<Rightarrow> location \<Rightarrow> nat \<Rightarrow> world \<Rightarrow> bool" where
  "left_at env sp n k0 Made j w \<longleftrightarrow> w_sim w = UpdatePodRequest (Some sp) n k0 \<and> w_backlog w = [] \<and> w_sends w = [] \<and>
     j = nat (sint n) + 4"
| "left_at env sp n k0 Posted j w \<longleftrightarrow> (\<exists>i. undecided env sp n k0 i w \<and> j = i + 3)"
| "left_at env sp n k0 (Waiting_on c) j w \<longleftrightarrow> c = w_cur w \<and> (\<exists>i. undecided env sp n k0 i w \<and> j = i + 2)"
| "left_at env sp n k0 Woken j w \<longleftrightarrow> w_backlog w = [] \<and> w_sends w = [] \<and> decided env sp n k0 (w_sim w) \<and> j = 1"
| "left_at env sp n k0 Idle j w \<longleftrightarrow> w_backlog w = [] \<and> w_sends w = [] \<and> stop (w_sim w) = ChanClosed \<and>
     (\<exists>bound. round_of_request env sp n k0 bound (w_sim w)) \<and> j = 0"
| "left_at env sp n k0 Dead j w \<longleftrightarrow> False"

definition lone_round :: "env \<Rightarrow> pod \<Rightarrow> 32 word \<Rightarrow> kubesim \<Rightarrow> nat \<Rightarrow> nat \<Rightarrow> nat \<Rightarrow> world \<Rightarrow> bool" where
  "lone_round env sp n k0 g c j w \<longleftrightarrow> \<not> w_crashed w \<and> w_cur w = c \<and> (\<forall>h. h \<noteq> g \<longrightarrow> w_loc w h = Idle) \<and>
     left_at env sp n k0 (w_loc w g) j w"

lemma lone_backlog:
  assumes "lone_round env sp n k0 g c j w" and "p \<in> set (w_backlog w)"
  obtains bound where "w_backlog w = [p]" and "w_sends w = []" and "in_progress env sp n k0 bound p (w_sim w)"
    and "in_round g w" and "nat (sint n) - length bound < j"
    and "\<And>i w'. w_loc w' = w_loc w \<Longrightarrow> w_cur w' = w_cur w \<Longrightarrow> w_crashed w' = w_crashed w \<Longrightarrow>
      undecided env sp n k0 i w' \<Longrightarrow> i < nat (sint n) - length bound \<Longrightarrow> \<exists>j' < j. lone_round env sp n k0 g c j' w'"
proof (cases "w_loc w g")
  case Posted
  with assms obtain bound where b: "w_backlog w = [p]" "w_sends w = []" "in_progress env sp n k0 bound p (w_sim w)"
    "j = nat (sint n) - length bound + 3" by (auto simp: lone_round_def undecided_def)
  show thesis
  proof (rule that [OF b(1-3)])
    fix i w'
    assume "w_loc w' = w_loc w" "w_cur w' = w_cur w" "w_crashed w' = w_crashed w" "undecided env sp n k0 i w'"
      "i < nat (sint n) - length bound"
    then show "\<exists>j' < j. lone_round env sp n k0 g c j' w'"
      using assms(1) Posted b(4) by (intro exI [of _ "i + 3"]) (simp add: lone_round_def)
  qed (use Posted b(4) in \<open>simp_all add: in_round_def\<close>)
next
  case (Waiting_on d)
  with assms obtain bound where b: "w_backlog w = [p]" "w_sends w = []" "in_progress env sp n k0 bound p (w_sim w)"
    "j = nat (sint n) - length bound + 2" "d = w_cur w" by (auto simp: lone_round_def undecided_def)
  show thesis
  proof (rule that [OF b(1-3)])
    fix i w'
    assume "w_loc w' = w_loc w" "w_cur w' = w_cur w" "w_crashed w' = w_crashed w" "undecided env sp n k0 i w'"
      "i < nat (sint n) - length bound"
    then show "\<exists>j' < j. lone_round env sp n k0 g c j' w'"
      using assms(1) Waiting_on b(4,5) by (intro exI [of _ "i + 2"]) (simp add: lone_round_def)
  qed (use Waiting_on b(4,5) in \<open>simp_all add: in_round_def\<close>)
qed (use assms in \<open>simp_all add: lone_round_def\<close>)

lemma lone_alone: "lone_round env sp n k0 g c j w \<Longrightarrow> alone g w"
  by (cases "w_loc w g") (auto simp: lone_round_def alone_def undecided_def decided_def)

lemma lone_decided:
  assumes "lone_round env sp n k0 g c j w" and "w_loc w g = Woken \<or> w_loc w g = Waiting_on d \<and> d \<in> set (w_sends w)"
  shows "decided env sp n k0 (w_sim w)" and "w_backlog w = []"
  using assms by (auto simp: lone_round_def undecided_def)

text \<open>Every step keeps the invariant with fewer steps left.\<close>

lemma lone_round_step:
  assumes ok: "startable env sp n k0" and inv: "lone_round env sp n k0 g c j w" and step: "round_step env g w w'"
  shows "\<exists>j' < j. lone_round env sp n k0 g c j' w'"
proof -
  have st: "conc_step env {g} w w'" and busy: "w_loc w g \<noteq> Idle" using step by (simp_all add: round_step_def)
  have others: "\<forall>h. h \<noteq> g \<longrightarrow> w_loc w h = Idle" and live: "\<not> w_crashed w" and c: "w_cur w = c"
    and me: "left_at env sp n k0 (w_loc w g) j w" using inv by (simp_all add: lone_round_def)
  have at: "h = g" if "w_loc w h \<noteq> Idle" for h using that others by blast
  have alone: "alone g w" by (rule lone_alone [OF inv])
  from ok obtain ks1 p1 where first: "nextPod env (UpdatePodRequest (Some sp) n k0) = (Ok (), ks1)"
    "lastSimulatedPod ks1 = Some p1" "in_progress env sp n k0 [] p1 ks1"
    by (rule first_in_progress)
  from st show ?thesis
  proof (cases rule: conc_step.cases)
    case (request h p m)
    then show ?thesis using busy by simp
  next
    case (first_pod h u ks p)
    have h: "h = g" using at first_pod(3) by simp
    with first_pod me have sim: "w_sim w = UpdatePodRequest (Some sp) n k0" "w_backlog w = []" "w_sends w = []"
      "j = nat (sint n) + 4" by simp_all
    with first_pod first have k: "ks = ks1" "p = p1" by simp_all
    have "undecided env sp n k0 (nat (sint n)) w'"
      using undecided_pending [of env sp n k0 "[]" p1 w'] first_pod(1) first(3) sim k by (simp add: world_simps)
    then show ?thesis using first_pod(1) h others live c sim(4)
      by (intro exI [of _ "nat (sint n) + 3"]) (simp add: lone_round_def world_simps)
  next
    case (no_pod h e ks2 ks)
    have "h = g" using at no_pod(3) by simp
    then show ?thesis using no_pod me first by simp
  next
    case (no_pod_panic h e ks2 q ks)
    have "h = g" using at no_pod_panic(3) by simp
    then show ?thesis using no_pod_panic me first by simp
  next
    case (pod_panic h q ks)
    have "h = g" using at pod_panic(3) by simp
    then show ?thesis using pod_panic me first by simp
  next
    case (read_stop h)
    have h: "h = g" using at read_stop(3) by simp
    with read_stop me obtain i where i: "undecided env sp n k0 i w" "j = i + 3" by auto
    then have "undecided env sp n k0 i w'" using read_stop(1) by (simp add: undecided_def world_simps)
    then show ?thesis using read_stop(1) h others live c i(2)
      by (intro exI [of _ "i + 2"]) (auto simp: lone_round_def world_simps)
  next
    case (close_ok h u ks)
    have h: "h = g" using at close_ok(3) by simp
    with close_ok me have d: "decided env sp n k0 (w_sim w)" "w_backlog w = []" "w_sends w = []" "j = 1" by simp_all
    then have "ks = (w_sim w)\<lparr>stop := ChanClosed\<rparr>" using close_ok(4) by (simp add: decided_def close_stop_open)
    then show ?thesis using close_ok(1) h others live c d
      by (intro exI [of _ 0]) (simp add: lone_round_def world_simps decided_def)
  next
    case (close_panic h q ks)
    have "h = g" using at close_panic(3) by simp
    then have "decided env sp n k0 (w_sim w)" using close_panic(3) me by simp
    then show ?thesis using close_panic(4) by (simp add: decided_def close_stop_open)
  next
    case (received h d)
    have h: "h = g" using at received(3) by simp
    note b = alone_sends [OF alone received(4)]
    have dec: "decided env sp n k0 (w_sim w)" using lone_decided(1) [OF inv] received(3,4) h by blast
    have "1 < j" using me received(3) h by auto
    then show ?thesis using received(1) h others live c b dec
      by (intro exI [of _ 1]) (simp add: lone_round_def world_simps)
  next
    case (found_closed h d)
    have h: "h = g" using at found_closed(3) by simp
    then have "d = w_cur w" "stop (w_sim w) = ChanOpen" using found_closed(3) me by (auto simp: undecided_def)
    then show ?thesis using found_closed(4) by (simp add: chan_state_def)
  next
    case (send_panic d)
    note b = alone_sends [OF alone send_panic(3)]
    then show ?thesis using send_panic(4) by (simp add: chan_state_def)
  next
    case (bound_next p m ks p')
    from lone_backlog [OF inv bound_next(3)] obtain bound where b: "w_backlog w = [p]" "w_sends w = []"
      "in_progress env sp n k0 bound p (w_sim w)"
      and go: "\<And>i w'. w_loc w' = w_loc w \<Longrightarrow> w_cur w' = w_cur w \<Longrightarrow> w_crashed w' = w_crashed w \<Longrightarrow>
        undecided env sp n k0 i w' \<Longrightarrow> i < nat (sint n) - length bound \<Longrightarrow> \<exists>j' < j. lone_round env sp n k0 g c j' w'"
      by metis
    from ok b(3) show ?thesis
    proof (cases rule: bind_in_progress [where m = m])
      case (more q ks')
      then have k: "ks = ks'" "p' = q" using bound_next(4,5) by simp_all
      have "undecided env sp n k0 (nat (sint n) - Suc (length bound)) w'"
        using undecided_pending [of env sp n k0 "bound @ [bound_pod p m]" q w'] bound_next(1) more(4) b(1,2) k by simp
      moreover have "nat (sint n) - Suc (length bound) < nat (sint n) - length bound" using more(1) by (rule diff_less_mono2 [OF lessI Suc_lessD])
      ultimately show ?thesis using bound_next(1) by (intro go) simp_all
    qed (use bound_next(4) in simp)
  next
    case (bound_last p m ks)
    from lone_backlog [OF inv bound_last(3)] obtain bound where b: "w_backlog w = [p]" "w_sends w = []"
      "in_progress env sp n k0 bound p (w_sim w)"
      and go: "\<And>i w'. w_loc w' = w_loc w \<Longrightarrow> w_cur w' = w_cur w \<Longrightarrow> w_crashed w' = w_crashed w \<Longrightarrow>
        undecided env sp n k0 i w' \<Longrightarrow> i < nat (sint n) - length bound \<Longrightarrow> \<exists>j' < j. lone_round env sp n k0 g c j' w'"
      by metis
    from ok b(3) show ?thesis
    proof (cases rule: bind_in_progress [where m = m])
      case (last ks')
      then have u: "undecided env sp n k0 0 w'" using bound_last(1,4) b(1,2) by (intro undecided_sent) simp_all
      have "0 < nat (sint n) - length bound" using last(1) by linarith
      from go [OF _ _ _ u this] show ?thesis by (simp add: bound_last(1))
    qed (use bound_last(4) in simp)
  next
    case (not_bound p m e ks)
    obtain bound where "in_progress env sp n k0 bound p (w_sim w)" by (rule lone_backlog [OF inv not_bound(3)])
    with ok show ?thesis by (cases rule: bind_in_progress [where m = m]) (use not_bound(4) in simp_all)
  next
    case (bind_panic p m q ks)
    obtain bound where "in_progress env sp n k0 bound p (w_sim w)" by (rule lone_backlog [OF inv bind_panic(3)])
    with ok show ?thesis by (cases rule: bind_in_progress [where m = m]) (use bind_panic(4) in simp_all)
  next
    case (gave_up p m k ks)
    from lone_backlog [OF inv gave_up(3)] obtain bound where b: "w_backlog w = [p]" "w_sends w = []"
      "in_progress env sp n k0 bound p (w_sim w)"
      and go: "\<And>i w'. w_loc w' = w_loc w \<Longrightarrow> w_cur w' = w_cur w \<Longrightarrow> w_crashed w' = w_crashed w \<Longrightarrow>
        undecided env sp n k0 i w' \<Longrightarrow> i < nat (sint n) - length bound \<Longrightarrow> \<exists>j' < j. lone_round env sp n k0 g c j' w'"
      by metis
    obtain k' ks' where f: "schedule_failed p m (w_sim w) = (Ok (Suc k'), ks')" "decided env sp n k0 ks'"
      by (rule fail_in_progress [OF ok b(3)])
    then have u: "undecided env sp n k0 0 w'" using gave_up(1,4) b(1,2) by (intro undecided_sent) simp_all
    have "0 < nat (sint n) - length bound" using b(3) unfolding in_progress_def by linarith
    from go [OF _ _ _ u this] show ?thesis by (simp add: gave_up(1))
  next
    case (retried p m ks)
    obtain bound where b: "in_progress env sp n k0 bound p (w_sim w)" by (rule lone_backlog [OF inv retried(3)])
    show ?thesis by (rule fail_in_progress [OF ok b, of m]) (use retried(4) in simp)
  next
    case (update_panic p m q ks)
    obtain bound where b: "in_progress env sp n k0 bound p (w_sim w)" by (rule lone_backlog [OF inv update_panic(3)])
    show ?thesis by (rule fail_in_progress [OF ok b, of m]) (use update_panic(4) in simp)
  qed
qed

text \<open>The scheduler may decide on a pending pod, a send is received, and nothing else is waited for.\<close>

lemma lone_round_goes_on:
  assumes ok: "startable env sp n k0" and inv: "lone_round env sp n k0 g c j w" and busy: "w_loc w g \<noteq> Idle"
  shows "\<exists>w'. round_step env g w w'"
proof -
  have live: "\<not> w_crashed w" and me: "left_at env sp n k0 (w_loc w g) j w" using inv by (simp_all add: lone_round_def)
  have pending: "\<exists>w'. conc_step env {g} w w'" if p: "p \<in> set (w_backlog w)" for p
  proof -
    obtain bound where b: "in_progress env sp n k0 bound p (w_sim w)" by (rule lone_backlog [OF inv p])
    obtain k ks where "schedule_failed p [] (w_sim w) = (Ok (Suc k), ks)" by (rule fail_in_progress [OF ok b])
    from conc_step.gave_up [OF live p this] show ?thesis by blast
  qed
  have "\<exists>w'. conc_step env {g} w w'"
  proof (cases "w_loc w g")
    case Idle
    then show ?thesis using busy by simp
  next
    case Made
    obtain ks p where "nextPod env (UpdatePodRequest (Some sp) n k0) = (Ok (), ks)" "lastSimulatedPod ks = Some p"
      using first_in_progress [OF ok] by blast
    then have "nextPod env (w_sim w) = (Ok (), ks)" "lastSimulatedPod ks = Some p" using me Made by simp_all
    from conc_step.first_pod [OF live Made this] show ?thesis by blast
  next
    case Posted
    then show ?thesis using conc_step.read_stop [OF live] by blast
  next
    case (Waiting_on d)
    with me obtain i where u: "d = w_cur w" "undecided env sp n k0 i w" by auto
    show ?thesis
    proof (cases "w_backlog w")
      case Nil
      then have "d \<in> set (w_sends w)" "chan_state w d = ChanOpen" using u by (auto simp: undecided_def chan_state_def)
      then show ?thesis using conc_step.received [OF live Waiting_on] by blast
    next
      case (Cons p ps)
      then show ?thesis using pending [of p] by simp
    qed
  next
    case Woken
    with me have "close_stop (w_sim w) = (Ok (), (w_sim w)\<lparr>stop := ChanClosed\<rparr>)" by (simp add: decided_def close_stop_open)
    from conc_step.close_ok [OF live Woken this] show ?thesis by blast
  qed (use me in simp)
  then show ?thesis using busy by (simp add: round_step_def)
qed

section \<open>Properties\<close>

lemma lone_round_run:
  assumes ok: "startable env sp n (w_sim w)" and w: "settled (w_sim w) (\<lambda>_. Idle) (w_cur w) w"
    and run: "(round_step env g ^^ k) (make_stop g (Some sp) n w) w'"
  shows "\<exists>j. k + j \<le> nat (sint n) + 4 \<and> lone_round env sp n (w_sim w) g (Suc (w_cur w)) j w'"
  using run
proof (induction k arbitrary: w')
  case 0
  have "w_loc w h = Idle" for h using w by (simp add: settled_def)
  moreover have "w' = make_stop g (Some sp) n w" using 0 by simp
  ultimately show ?case using w
    by (intro exI [of _ "nat (sint n) + 4"]) (simp add: lone_round_def settled_def make_stop_def)
next
  case (Suc k)
  then obtain w1 where w1: "(round_step env g ^^ k) (make_stop g (Some sp) n w) w1" "round_step env g w1 w'" by auto
  from Suc.IH [OF w1(1)] obtain j where j: "k + j \<le> nat (sint n) + 4"
    "lone_round env sp n (w_sim w) g (Suc (w_cur w)) j w1" by blast
  from lone_round_step [OF ok j(2) w1(2)] obtain j' where "j' < j" "lone_round env sp n (w_sim w) g (Suc (w_cur w)) j' w'"
    by blast
  then show ?case using j(1) by (intro exI [of _ j']) simp
qed

text \<open>
  C12. As long as one goroutine runs all rounds, every round ends and ends right, whatever the scheduler
  decides and however late its decisions come. From the request on, the process takes at most as many
  steps as replicas are requested and four more before the goroutine returns, it can take a step
  until then, and nothing panics. On its return nobody waits, no send is pending, the channel is closed, and the
  round has the result of \<open>request_completes\<close>: the pods bound bear the first names of the request, are
  stored beside the pods from before and listed in the status, and the reason is Schedulable
  exactly when as many were bound as requested. The hypotheses are those of \<open>request_completes\<close> without
  its scheduler that always answers, and without fuel.
\<close>

theorem lone_round_ends:
  assumes "startable env sp n (w_sim w)" and "settled (w_sim w) (\<lambda>_. Idle) (w_cur w) w"
  shows "conc_step env {g} w (make_stop g (Some sp) n w) \<and>
    (\<forall>k w'. (round_step env g ^^ k) (make_stop g (Some sp) n w) w' \<longrightarrow>
      k \<le> nat (sint n) + 4 \<and> \<not> w_crashed w' \<and>
      (if w_loc w' g = Idle
       then settled (w_sim w') (\<lambda>_. Idle) (Suc (w_cur w)) w' \<and> stop (w_sim w') = ChanClosed \<and>
         (\<exists>bound. round_of_request env sp n (w_sim w) bound (w_sim w'))
       else \<exists>w''. round_step env g w' w''))"
proof (intro conjI allI impI)
  have idle: "w_loc w g = Idle" and live: "\<not> w_crashed w" using assms(2) by (simp_all add: settled_def)
  show "conc_step env {g} w (make_stop g (Some sp) n w)" by (rule conc_step.request [OF live insertI1 idle])
next
  fix k w'
  assume "(round_step env g ^^ k) (make_stop g (Some sp) n w) w'"
  from lone_round_run [OF assms this] obtain j where j: "k + j \<le> nat (sint n) + 4"
    "lone_round env sp n (w_sim w) g (Suc (w_cur w)) j w'" by blast
  then show "k \<le> nat (sint n) + 4" "\<not> w_crashed w'" by (simp_all add: lone_round_def)
  show "if w_loc w' g = Idle
      then settled (w_sim w') (\<lambda>_. Idle) (Suc (w_cur w)) w' \<and> stop (w_sim w') = ChanClosed \<and>
        (\<exists>bound. round_of_request env sp n (w_sim w) bound (w_sim w'))
      else \<exists>w''. round_step env g w' w''"
  proof (cases "w_loc w' g = Idle")
    case True
    have "w_loc w' h = Idle" for h using j(2) True by (cases "h = g") (simp_all add: lone_round_def)
    then have "w_loc w' = (\<lambda>_. Idle)" by (rule ext)
    then show ?thesis unfolding if_P [OF True] using j(2) by (simp add: lone_round_def settled_def)
  next
    case False
    show ?thesis unfolding if_not_P [OF False] by (rule lone_round_goes_on [OF assms(1) j(2) False])
  qed
qed

text \<open>A request for two replicas, the worker's: its round ends after at most six steps, with no, one or two pods bound.\<close>

theorem lone_round_ends_witness:
  "\<exists>k w'. k \<le> 6 \<and> (round_step (example_env one_then_full) 0 ^^ k) (web_request 0 first_world) w' \<and> w_loc w' 0 = Idle \<and>
    stop (w_sim w') = ChanClosed \<and> \<not> w_crashed w'"
proof -
  let ?env = "example_env one_then_full" and ?web = "example_pod ''web'' []"
  have s: "startable ?env ?web 2 (w_sim first_world)"
    using example_request_ok [of one_then_full]
    by (simp add: one_then_full_def request_ok_def startable_def first_world_def world_of_def)
  have i: "settled (w_sim first_world) (\<lambda>_. Idle) (w_cur first_world) first_world"
    using first_world_settled by (simp add: first_world_def world_of_def)
  have two: "nat (sint (2 :: 32 word)) + 4 = 6" by simp
  note r = lone_round_ends [OF s i, of 0, folded web_request_def, THEN conjunct2, rule_format, unfolded two]
  have "\<exists>k w'. (round_step ?env 0 ^^ k) (web_request 0 first_world) w' \<and> w_loc w' 0 = Idle"
  proof (rule ccontr)
    assume never: "\<not> ?thesis"
    have "\<exists>w'. (round_step ?env 0 ^^ k) (web_request 0 first_world) w'" for k
    proof (induction k)
      case (Suc k)
      then obtain w' where w': "(round_step ?env 0 ^^ k) (web_request 0 first_world) w'" by blast
      then have "w_loc w' 0 \<noteq> Idle" using never by blast
      then show ?case using r [OF w'] w' by auto
    qed simp
    from this [of 7] obtain w' where "(round_step ?env 0 ^^ 7) (web_request 0 first_world) w'" by blast
    from r [OF this] show False by simp
  qed
  then obtain k w' where w': "(round_step ?env 0 ^^ k) (web_request 0 first_world) w'" "w_loc w' 0 = Idle" by blast
  from r [OF w'(1)] w' show ?thesis by (intro exI [of _ k] exI [of _ w']) simp
qed

end
