(* ===== verification/Report_Print.thy ===== *)
theory Report_Print
  imports Scheduling
begin

text \<open>
  The printers of \<open>pkg/scheduler/report.go\<close> and \<open>PrintPod\<close> of \<open>pkg/utils/utils.go\<close>. Nothing in the
  repository calls them; they are the library's way to show a review.

  What a printer has written is its state: a list of texts, on standard output or, for JSON and YAML,
  handed to \<open>klog.Infof\<close>, which takes it as a format. How the API machinery renders quantities, maps,
  selectors and objects is the record \<open>rendering\<close>. An empty list of failures stands for a nil slice,
  the only one without elements that occurs: nothing sets the field.
\<close>

section \<open>Printing a review\<close>

datatype printed = Stdout string | LogFormat string

record rendering =
  rd_Cpu :: "quantity \<Rightarrow> string"
  rd_Memory :: "quantity \<Rightarrow> string"
  rd_Scalars :: "(string \<rightharpoonup> 64 word) \<Rightarrow> string"
  rd_Selector :: "(string \<rightharpoonup> string) \<Rightarrow> string"
  rd_Quote :: "string \<Rightarrow> string"
  rd_Json :: "review \<Rightarrow> gerr + string"
  rd_Yaml :: "review \<Rightarrow> gerr + string"
  rd_HasSerializer :: "string \<Rightarrow> bool"
  rd_Encode :: "string \<Rightarrow> pod \<Rightarrow> gerr + string"

definition nl :: string where "nl = [CHR 0x0A]"
definition item :: string where "item = CHR 0x09 # ''- ''"

definition requirement_text :: "rendering \<Rightarrow> requirements \<Rightarrow> string" where
  "requirement_text rd req =
     req_PodName req @ '' pod requirements:'' @ nl @
     item @ ''CPU: '' @ rd_Cpu rd (primary_get (PrimaryResources (req_Resources req)) ResourceCPU) @ nl @
     item @ ''Memory: '' @ rd_Memory rd (primary_get (PrimaryResources (req_Resources req)) ResourceMemory) @ nl @
     (case ScalarResources (req_Resources req) of
        None \<Rightarrow> [] | Some m \<Rightarrow> item @ ''ScalarResources: '' @ rd_Scalars rd m @ nl) @
     (case req_NodeSelectors req of
        None \<Rightarrow> [] | Some m \<Rightarrow> item @ ''NodeSelector: '' @ rd_Selector rd m @ nl)"

definition instances_text :: "bool \<Rightarrow> review_result \<Rightarrow> string" where
  "instances_text verbose p =
     (if verbose
      then ''The cluster can schedule '' @ string_of_int (instancesSum (ReplicasOnNodes p)) @ '' instance(s) of the pod '' @
        UsName p @ ''.'' @ nl
      else string_of_int (instancesSum (ReplicasOnNodes p)) @ nl)"

definition reason_text :: "fail_reason \<Rightarrow> string" where
  "reason_text r = fr_Type r @ '': '' @ fr_Message r"

definition failures_text :: "review_result \<Rightarrow> string" where
  "failures_text p =
     (if FailSummary p \<noteq> []
      then ''fit failure summary on nodes: '' @
        concat (map (\<lambda>fs. fs_Reason fs @ '' ('' @ string_of_int (fs_Count fs) @ ''), '') (FailSummary p)) @ nl
      else [])"

definition distribution_text :: "review_result \<Rightarrow> string" where
  "distribution_text p =
     UsName p @ nl @
     concat (map (\<lambda>ron. item @ ron_NodeName ron @ '': '' @ string_of_int (ron_Replicas ron) @ '' instance(s)'' @ nl)
       (ReplicasOnNodes p))"

text \<open>The last part is only printed for a review with replicas.\<close>

definition details_text :: "review_status \<Rightarrow> string" where
  "details_text st =
     (if 0 <s rev_Replicas st
      then concat (map failures_text (rev_Pods st)) @ nl @ ''Pod distribution among nodes:'' @ nl @
        concat (map distribution_text (rev_Pods st))
      else [])"

definition SchedulerEmulatorReviewPrettyPrint :: "rendering \<Rightarrow> review \<Rightarrow> bool \<Rightarrow> (printed list, unit) outcome" where
  "SchedulerEmulatorReviewPrettyPrint rd r verbose =
     (let st = rev_Status r;
          requirements = (if verbose then concat (map (requirement_text rd) (PodRequirements (rev_Spec r))) else []);
          instances = concat (map (instances_text verbose) (rev_Pods st))
      in if verbose
         then (case rev_Reason st of
                 None \<Rightarrow> (Panic NilDereference, [Stdout (requirements @ instances)])
               | Some reason \<Rightarrow>
                   (Ok (), [Stdout (requirements @ instances @ nl @ ''Termination reason: '' @ reason_text reason @ nl @
                      details_text st)]))
         else (Ok (), [Stdout instances]))"

definition SchedulerEmulatorReviewPrintJson :: "rendering \<Rightarrow> review \<Rightarrow> (printed list, unit) outcome" where
  "SchedulerEmulatorReviewPrintJson rd r =
     (case rd_Json rd r of
        Inl e \<Rightarrow> (Err (Wrap ''Failed to create json'' e), [])
      | Inr jsoned \<Rightarrow> (Ok (), [LogFormat jsoned]))"

definition SchedulerEmulatorReviewPrintYaml :: "rendering \<Rightarrow> review \<Rightarrow> (printed list, unit) outcome" where
  "SchedulerEmulatorReviewPrintYaml rd r =
     (case rd_Yaml rd r of
        Inl e \<Rightarrow> (Err (Wrap ''Failed to create yaml'' e), [])
      | Inr yamled \<Rightarrow> (Ok (), [LogFormat yamled]))"

definition SchedulerEmulatorReviewPrint ::
  "rendering \<Rightarrow> review \<Rightarrow> bool \<Rightarrow> string \<Rightarrow> (printed list, unit) outcome" where
  "SchedulerEmulatorReviewPrint rd r verbose format =
     (if format = ''json'' then SchedulerEmulatorReviewPrintJson rd r
      else if format = ''yaml'' then SchedulerEmulatorReviewPrintYaml rd r
      else if format = '''' then SchedulerEmulatorReviewPrettyPrint rd r verbose
      else (Err (Msg (''output format '' @ rd_Quote rd format @ '' not recognized'')), []))"

section \<open>Printing a pod\<close>

text \<open>Any format but \<open>json\<close> is YAML here, unlike for a review.\<close>

definition PrintPod :: "rendering \<Rightarrow> pod \<Rightarrow> string \<Rightarrow> (printed list, unit) outcome" where
  "PrintPod rd p format =
     (let contentType = (if format = ''json'' then ''application/json'' else ''application/yaml'') in
      if \<not> rd_HasSerializer rd contentType
      then (Err (Msg (''serializer for '' @ contentType @ '' not registered'')), [])
      else
        (case rd_Encode rd contentType p of
           Inl e \<Rightarrow> (Err (Wrap ''Failed to create pod'' e), [])
         | Inr stream \<Rightarrow> (Ok (), [Stdout stream])))"

section \<open>Lemmas\<close>

text \<open>A reason that survives being printed and read: the parser only returns such reasons.\<close>

definition clean_reason :: "fail_reason \<Rightarrow> bool" where
  "clean_reason r \<longleftrightarrow> CHR '':'' \<notin> set (fr_Type r) \<and> CHR 0x0A \<notin> set (fr_Type r) \<and> CHR 0x0A \<notin> set (fr_Message r) \<and>
     strings_Trim CHR '' '' (fr_Message r) = fr_Message r"

lemma strings_Trim_idem: "strings_Trim x (strings_Trim x s) = strings_Trim x s"
proof -
  let ?P = "(=) x"
  define u where "u = dropWhile ?P s"
  define t where "t = rev (dropWhile ?P (rev u))"
  have "rev (rev u) = rev (takeWhile ?P (rev u) @ dropWhile ?P (rev u))" by simp
  then have u: "u = t @ rev (takeWhile ?P (rev u))" unfolding t_def by (simp only: rev_rev_ident rev_append)
  have "t = [] \<or> \<not> ?P (hd t)"
  proof (cases "t = []")
    case False
    then have "hd u = hd t" by (subst u) simp
    moreover have "u \<noteq> []" using False by (subst u) simp
    ultimately show ?thesis using hd_dropWhile [of ?P s] by (simp add: u_def)
  qed simp
  then have "dropWhile ?P t = t" by (simp add: dropWhile_eq_self_iff)
  moreover have "dropWhile ?P (rev t) = rev t"
    using hd_dropWhile [of ?P "rev u"] by (auto simp: t_def dropWhile_eq_self_iff)
  moreover have "strings_Trim x s = t" by (simp add: strings_Trim_def t_def u_def)
  ultimately show ?thesis by (simp add: strings_Trim_def)
qed

lemma strings_Trim_subset: "set (strings_Trim x s) \<subseteq> set s"
  by (auto simp: strings_Trim_def dest!: set_dropWhileD)

lemma strings_Index_take: "strings_Index x s = Some i \<Longrightarrow> x \<notin> set (take i s)"
  by (induction s arbitrary: i) (auto split: if_splits)

lemma parsed_reason_clean:
  assumes "getMainFailReason s = Ok r"
  shows "clean_reason r"
proof -
  let ?first = "takeWhile (\<lambda>c. c \<noteq> CHR 0x0A) s"
  obtain i where i: "strings_Index CHR '':'' ?first = Some i"
    and r: "r = \<lparr>fr_Type = take i ?first, fr_Message = strings_Trim CHR '' '' (drop (Suc i) ?first)\<rparr>"
    using assms by (auto simp: getMainFailReason_def Let_def hd_strings_Split split: option.splits)
  have "CHR 0x0A \<notin> set ?first" by (auto dest: set_takeWhileD)
  then show ?thesis
    using strings_Index_take [OF i] strings_Trim_subset [of "CHR '' ''" "drop (Suc i) ?first"]
    by (auto simp: clean_reason_def r strings_Trim_idem dest: in_set_takeD in_set_dropD)
qed

lemma reason_read_back: "clean_reason r \<Longrightarrow> getMainFailReason (reason_text r) = Ok r"
proof -
  assume c: "clean_reason r"
  have "takeWhile (\<lambda>c. c \<noteq> CHR 0x0A) (fr_Message r) = fr_Message r"
    unfolding takeWhile_eq_all_conv using c by (auto simp: clean_reason_def)
  then have "getMainFailReason (fr_Type r @ '': '' @ fr_Message r) = Ok \<lparr>fr_Type = fr_Type r, fr_Message = fr_Message r\<rparr>"
    using c getMainFailReason_form [of "fr_Type r" "fr_Message r"] unfolding clean_reason_def by metis
  then show ?thesis by (simp add: reason_text_def)
qed

text \<open>What \<open>Bind\<close> writes is printed as it was written.\<close>

lemma schedulable_reason_clean:
  "\<exists>r. getMainFailReason (schedulable_reason n) = Ok r \<and> reason_text r = schedulable_reason n"
proof -
  let ?m = "''Schedule the number of simulated pods: '' @ string_of_int (sint n)"
  have ne: "string_of_int i \<noteq> []" for i
    by (simp add: string_of_int_def digits_of_nat.simps)
  have "CHR 0x0A \<notin> set ?m" using string_of_int_clean [of "CHR 0x0A" "sint n"] by auto
  moreover have "strings_Trim CHR '' '' ?m = ?m"
  proof -
    have "last (string_of_int (sint n)) \<in> set (string_of_int (sint n))" using ne by (rule last_in_set)
    then have "last (string_of_int (sint n)) \<noteq> CHR '' ''" using string_of_int_clean by blast
    then have "last ?m \<noteq> CHR '' ''" unfolding last_appendR [OF ne] .
    then have "dropWhile ((=) CHR '' '') (rev ?m) = rev ?m"
      unfolding dropWhile_eq_self_iff by (metis hd_rev)
    moreover have "dropWhile ((=) CHR '' '') ?m = ?m" by simp
    ultimately show ?thesis unfolding strings_Trim_def by (simp only: rev_rev_ident)
  qed
  ultimately have "clean_reason \<lparr>fr_Type = ''Schedulable'', fr_Message = ?m\<rparr>" by (simp add: clean_reason_def)
  from reason_read_back [OF this] show ?thesis
    by (intro exI [of _ "\<lparr>fr_Type = ''Schedulable'', fr_Message = ?m\<rparr>"]) (simp add: reason_text_def schedulable_reason_def)
qed

section \<open>Properties\<close>

text \<open>
  C20. The reason of a report can be read back from its print: the verbose printer writes it as one line
  Type: Message after Termination reason, and reading that text as a stop reason gives the same
  reason, for every reason that was itself read from the simulator's status. What \<open>Bind\<close> writes when a
  request is complete is printed exactly as it was written.
\<close>

theorem printed_reason_roundtrip:
  assumes "getMainFailReason (st_StopReason st) = Ok reason"
    and "GetReport isScalar (p # ps) st n = Ok rv"
  shows "(\<exists>before after. SchedulerEmulatorReviewPrint rd rv True [] =
      (Ok (), [Stdout (before @ ''Termination reason: '' @ reason_text reason @ nl @ after)])) \<and>
    CHR 0x0A \<notin> set (reason_text reason) \<and>
    getMainFailReason (reason_text reason) = Ok reason \<and>
    (st_StopReason st = schedulable_reason n \<longrightarrow> reason_text reason = st_StopReason st)"
proof -
  have c: "clean_reason reason" using assms(1) by (rule parsed_reason_clean)
  have "rev_Reason (rev_Status rv) = Some reason"
    using assms by (auto simp: GetReport_def getReviewStatus_def map_res_Ok)
  then have "SchedulerEmulatorReviewPrint rd rv True [] =
      (Ok (), [Stdout (((concat (map (requirement_text rd) (PodRequirements (rev_Spec rv))) @
          concat (map (instances_text True) (rev_Pods (rev_Status rv)))) @ nl) @ ''Termination reason: '' @
        reason_text reason @ nl @ details_text (rev_Status rv))])"
    by (simp add: SchedulerEmulatorReviewPrint_def SchedulerEmulatorReviewPrettyPrint_def Let_def)
  then have "\<exists>before after. SchedulerEmulatorReviewPrint rd rv True [] =
      (Ok (), [Stdout (before @ ''Termination reason: '' @ reason_text reason @ nl @ after)])" by blast
  moreover have "CHR 0x0A \<notin> set (reason_text reason)" using c by (simp add: clean_reason_def reason_text_def)
  ultimately show ?thesis
    using reason_read_back [OF c] schedulable_reason_clean [of n] assms(1) by auto
qed

definition plain_rendering :: rendering where
  "plain_rendering = \<lparr>rd_Cpu = (\<lambda>q. ''0''), rd_Memory = (\<lambda>q. ''0''), rd_Scalars = (\<lambda>m. ''map[]''), rd_Selector = (\<lambda>m. []),
     rd_Quote = (\<lambda>s. s), rd_Json = (\<lambda>r. Inr ''{}''), rd_Yaml = (\<lambda>r. Inr ''{}''), rd_HasSerializer = (\<lambda>s. True),
     rd_Encode = (\<lambda>s p. Inr ''{}'')\<rparr>"

theorem printed_reason_roundtrip_witness:
  "\<exists>rv before after. GetReport (\<lambda>_. False) [example_pod ''web'' []]
       \<lparr>st_Pods = [example_pod ''a'' ''n1''], st_StopReason = schedulable_reason 1\<rparr> 1 = Ok rv \<and>
     SchedulerEmulatorReviewPrint plain_rendering rv True [] =
       (Ok (), [Stdout (before @ ''Termination reason: '' @ schedulable_reason 1 @ nl @ after)])"
proof -
  let ?st = "\<lparr>st_Pods = [example_pod ''a'' ''n1''], st_StopReason = schedulable_reason 1\<rparr>"
  obtain reason where r: "getMainFailReason (st_StopReason ?st) = Ok reason"
    using schedulable_reason_clean [of 1] by auto
  then obtain rv where rv: "GetReport (\<lambda>_. False) [example_pod ''web'' []] ?st 1 = Ok rv"
    using GetReport_one by blast
  note t = printed_reason_roundtrip [OF r rv, of plain_rendering]
  have "reason_text reason = schedulable_reason 1" using t by (elim conjE impE) simp_all
  with t [THEN conjunct1] rv show ?thesis by (simp only:) blast
qed

text \<open>
  The short print of a report on one pod is the number of pods that were scheduled.
\<close>

lemma short_print_counts:
  assumes "getMainFailReason (st_StopReason st) = Ok reason"
  shows "\<exists>rv. GetReport isScalar [p] st n = Ok rv \<and>
    SchedulerEmulatorReviewPrint rd rv False [] = (Ok (), [Stdout (string_of_int (int (length (st_Pods st))) @ nl)])"
proof -
  obtain rv rr where rv: "GetReport isScalar [p] st n = Ok rv" "rev_Pods (rev_Status rv) = [rr]"
    "ReplicasOnNodes rr = fold bump_node (map (\<lambda>q. NodeName (pod_Spec q)) (st_Pods st)) []"
    using GetReport_one [OF assms, of isScalar p n] by blast
  then have "instancesSum (ReplicasOnNodes rr) = int (length (st_Pods st))"
    using instancesSum_bumps [of "[]" "map (\<lambda>q. NodeName (pod_Spec q)) (st_Pods st)"] by (simp add: instancesSum_def)
  with rv show ?thesis
    by (auto simp: SchedulerEmulatorReviewPrint_def SchedulerEmulatorReviewPrettyPrint_def Let_def instances_text_def)
qed

end
