(* ===== verification/Search_Int64.thy ===== *)
theory Search_Int64
  imports Prediction
begin

text \<open>
  The search of \<open>PredictionEmulator\<close> on Go's 64-bit \<open>int\<close>.

  The theory \<open>Node_Search\<close> counts nodes with unbounded integers. Here every variable of the search is
  a 64-bit word and every operation is the one of the machine: sums and products wrap around,
  comparisons and the division are signed. The definitions follow the same lines of \<open>simulator.go\<close>
  once more. The two searches agree step by step as long as the bounds stay far below the largest
  \<open>int\<close> (\<open>within\<close>); each probe moves them by at most 100, so a request for at most \<open>2 ^ 53\<close> nodes would
  need more than \<open>2 ^ 54\<close> probes to leave that range.
\<close>

section \<open>Machine integers\<close>

type_synonym int64 = "64 word"

definition quot64 :: "int64 \<Rightarrow> int64 \<Rightarrow> int64" where
  "quot64 a b = word_of_int (quot (sint a) (sint b))"

definition fits64 :: "int \<Rightarrow> bool" where
  "fits64 x \<longleftrightarrow> - (2 ^ 63) \<le> x \<and> x < 2 ^ 63"

lemma sint_of_int64: "fits64 x \<Longrightarrow> sint (word_of_int x :: int64) = x"
  by (simp add: fits64_def signed_of_int signed_take_bit_int_eq_self)

lemma of_int64_eq: "fits64 x \<Longrightarrow> fits64 y \<Longrightarrow> (word_of_int x :: int64) = word_of_int y \<longleftrightarrow> x = y"
  by (metis sint_of_int64)

lemma quot64_of_int: "fits64 x \<Longrightarrow> fits64 y \<Longrightarrow> quot64 (word_of_int x) (word_of_int y) = word_of_int (quot x y)"
  by (simp add: quot64_def sint_of_int64)

lemma less_of_int64: "fits64 x \<Longrightarrow> fits64 y \<Longrightarrow> (word_of_int x :: int64) <s word_of_int y \<longleftrightarrow> x < y"
  by (simp add: word_sless_alt sint_of_int64)

lemma le_of_int64: "fits64 x \<Longrightarrow> fits64 y \<Longrightarrow> (word_of_int x :: int64) \<le>s word_of_int y \<longleftrightarrow> x \<le> y"
  by (simp add: word_sle_eq sint_of_int64)

section \<open>The search on machine integers\<close>

record search64 =
  minNode64 :: int64
  maxNode64 :: int64
  FminNode64 :: int64
  FmaxNode64 :: int64
  predictionNodeCount64 :: int64

text \<open>
  \<open>conv\<close> converts the integral part of a float64 to \<open>int\<close>. Go defines it for values in range only
  (\<open>converts\<close>); outside, the result depends on the platform.
\<close>

definition converts :: "(int \<Rightarrow> int64) \<Rightarrow> bool" where
  "converts conv \<longleftrightarrow> (\<forall>x. fits64 x \<longrightarrow> conv x = word_of_int x)"

definition generateMaxNode64 :: "(int \<Rightarrow> int64) \<Rightarrow> int64 \<Rightarrow> int64" where
  "generateMaxNode64 conv n =
     (if n \<le>s 1 then 10
      else if 1 <s n \<and> n \<le>s 100 then 2 * n
      else if 100 <s n \<and> n \<le>s 1000 then conv (int_of_product float_1_2 (sint n))
      else if 1000 <s n \<and> n \<le>s 3000 then conv (int_of_product float_1_3 (sint n))
      else if 4000 <s n then conv (int_of_product float_1_4 (sint n))
      else 0)"

definition search_start64 :: "(int \<Rightarrow> int64) \<Rightarrow> int64 \<Rightarrow> search64" where
  "search_start64 conv n =
     \<lparr>minNode64 = n, maxNode64 = generateMaxNode64 conv n, FminNode64 = n, FmaxNode64 = generateMaxNode64 conv n,
      predictionNodeCount64 = quot64 (n + generateMaxNode64 conv n) 2\<rparr>"

definition search_update64 :: "bool \<Rightarrow> search64 \<Rightarrow> search64" where
  "search_update64 go s0 =
     (let s = (if go then s0\<lparr>maxNode64 := predictionNodeCount64 s0\<rparr>
               else s0\<lparr>minNode64 := predictionNodeCount64 s0\<rparr>)
      in s\<lparr>predictionNodeCount64 := quot64 (minNode64 s + maxNode64 s) 2\<rparr>)"

definition search_next64 :: "search64 \<Rightarrow> search64 search_end" where
  "search_next64 s =
     (if maxNode64 s - minNode64 s = 1 \<and> FmaxNode64 s \<noteq> maxNode64 s \<and> FminNode64 s \<noteq> minNode64 s
      then Found (s\<lparr>predictionNodeCount64 := maxNode64 s\<rparr>)
      else if maxNode64 s - minNode64 s = 1 \<and> FmaxNode64 s = maxNode64 s
      then (let s1 = s\<lparr>FmaxNode64 := FmaxNode64 s + 100\<rparr>; s2 = s1\<lparr>maxNode64 := FmaxNode64 s1\<rparr>
            in Again (s2\<lparr>predictionNodeCount64 := quot64 (minNode64 s2 + maxNode64 s2) 2\<rparr>))
      else if maxNode64 s - minNode64 s = 1 \<and> FminNode64 s = minNode64 s \<and>
        quot64 (maxNode64 s + minNode64 s) 2 \<noteq> 0
      then (let s1 = s\<lparr>FminNode64 := quot64 (FminNode64 s) 2\<rparr>; s2 = s1\<lparr>minNode64 := FminNode64 s1\<rparr>
            in Again (s2\<lparr>predictionNodeCount64 := quot64 (minNode64 s2 + maxNode64 s2) 2\<rparr>))
      else if maxNode64 s - minNode64 s = 1 \<and> FminNode64 s = minNode64 s \<and>
        quot64 (maxNode64 s + minNode64 s) 2 = 0
      then AtZero s
      else Again s)"

section \<open>Agreement with the unbounded search\<close>

definition to64 :: "search \<Rightarrow> search64" where
  "to64 s = \<lparr>minNode64 = word_of_int (minNode s), maxNode64 = word_of_int (maxNode s),
     FminNode64 = word_of_int (FminNode s), FmaxNode64 = word_of_int (FmaxNode s),
     predictionNodeCount64 = word_of_int (predictionNodeCount s)\<rparr>"

definition within :: "int \<Rightarrow> search \<Rightarrow> bool" where
  "within b s \<longleftrightarrow> search_nonneg s \<and> minNode s \<le> b \<and> maxNode s \<le> b \<and> FminNode s \<le> b \<and> FmaxNode s \<le> b \<and>
     predictionNodeCount s \<le> b"

lemma to64_simps [simp]:
  "minNode64 (to64 s) = word_of_int (minNode s)" "maxNode64 (to64 s) = word_of_int (maxNode s)"
  "FminNode64 (to64 s) = word_of_int (FminNode s)" "FmaxNode64 (to64 s) = word_of_int (FmaxNode s)"
  "predictionNodeCount64 (to64 s) = word_of_int (predictionNodeCount s)"
  by (simp_all add: to64_def)

lemma half64: "fits64 x \<Longrightarrow> quot64 (word_of_int x) 2 = word_of_int (quot x 2)"
  using quot64_of_int [of x 2] by (simp add: fits64_def)

lemma half64_add: "fits64 (x + y) \<Longrightarrow> quot64 (word_of_int x + word_of_int y) 2 = word_of_int (quot (x + y) 2)"
  using half64 [of "x + y"] by simp

lemma half_between: "0 \<le> x \<Longrightarrow> 0 \<le> y \<Longrightarrow> x \<le> b \<Longrightarrow> y \<le> b \<Longrightarrow> 0 \<le> quot (x + y) 2 \<and> quot (x + y) 2 \<le> b"
  by (simp add: quot_nonneg)

lemma update64:
  assumes "within b s" and "2 * b < 2 ^ 63"
  shows "search_update64 go (to64 s) = to64 (search_update go s)" and "within b (search_update go s)"
proof -
  have r: "fits64 (minNode s + predictionNodeCount s)" "fits64 (predictionNodeCount s + maxNode s)"
    using assms by (simp_all add: within_def search_nonneg_def fits64_def)
  then show "search_update64 go (to64 s) = to64 (search_update go s)"
    by (cases go) (simp_all add: search_update64_def search_update_def to64_def half64_add)
  show "within b (search_update go s)"
    using assms search_nonneg_update [of s go] half_between [of "minNode s" "predictionNodeCount s" b]
      half_between [of "predictionNodeCount s" "maxNode s" b]
    by (cases go) (simp_all add: within_def search_nonneg_def search_update_def Let_def)
qed

lemma next64:
  assumes "within b s" and "2 * b + 200 < 2 ^ 63"
  shows "search_next64 (to64 s) = map_search_end to64 (search_next s)"
proof -
  have r: "fits64 (maxNode s - minNode s)" "fits64 1" "fits64 (FmaxNode s)" "fits64 (FminNode s)" "fits64 (maxNode s)"
    "fits64 (minNode s)" "fits64 (maxNode s + minNode s)" "fits64 0"
    using assms by (simp_all add: within_def search_nonneg_def fits64_def)
  have q: "fits64 (quot (maxNode s + minNode s) 2)"
    using assms half_between [of "maxNode s" "minNode s" b] by (simp add: within_def search_nonneg_def fits64_def)
  have d: "maxNode64 (to64 s) - minNode64 (to64 s) = 1 \<longleftrightarrow> maxNode s - minNode s = 1"
    using of_int64_eq [OF r(1,2)] by simp
  have f: "FmaxNode64 (to64 s) = maxNode64 (to64 s) \<longleftrightarrow> FmaxNode s = maxNode s"
    "FminNode64 (to64 s) = minNode64 (to64 s) \<longleftrightarrow> FminNode s = minNode s"
    using of_int64_eq [OF r(3,5)] of_int64_eq [OF r(4,6)] by simp_all
  have z: "quot64 (maxNode64 (to64 s) + minNode64 (to64 s)) 2 = 0 \<longleftrightarrow> quot (maxNode s + minNode s) 2 = 0"
    using of_int64_eq [OF q r(8)] by (simp add: half64_add [OF r(7)])
  have up: "quot64 (word_of_int (minNode s) + (word_of_int x + 100)) 2 = word_of_int (quot (minNode s + (x + 100)) 2)"
    if "x = FmaxNode s \<or> x = maxNode s" for x
  proof -
    have "fits64 (minNode s + (x + 100))"
      using that assms by (auto simp: within_def search_nonneg_def fits64_def)
    from half64 [OF this] show ?thesis by simp
  qed
  have down: "quot64 (word_of_int (quot x 2) + word_of_int (maxNode s)) 2 =
      word_of_int (quot (quot x 2 + maxNode s) 2)" "quot64 (word_of_int x) 2 = word_of_int (quot x 2)"
    if "x = FminNode s \<or> x = minNode s" for x
  proof -
    have "0 \<le> x" "x \<le> b" "0 \<le> maxNode s" "maxNode s \<le> b" using that assms(1) by (auto simp: within_def search_nonneg_def)
    then have "fits64 (quot x 2 + maxNode s)" and x: "fits64 x"
      using half_between [of 0 x b] assms(2) by (simp_all add: fits64_def)
    then show "quot64 (word_of_int (quot x 2) + word_of_int (maxNode s)) 2 = word_of_int (quot (quot x 2 + maxNode s) 2)"
      "quot64 (word_of_int x) 2 = word_of_int (quot x 2)"
      by (simp_all add: half64 half64_add)
  qed
  show ?thesis
    unfolding search_next64_def search_next_def d f z
    by (simp add: to64_def Let_def up down)
qed

lemma next_within:
  assumes w: "within b s" and n: "search_next s = Again s'"
  shows "within (b + 100) s'"
proof -
  have i: "0 \<le> minNode s" "minNode s \<le> b" "maxNode s \<le> b" "FminNode s \<le> b" "FmaxNode s \<le> b"
    "predictionNodeCount s \<le> b" "0 \<le> maxNode s" "0 \<le> FminNode s" "0 \<le> FmaxNode s"
    using w by (simp_all add: within_def search_nonneg_def)
  consider "s' = s"
    | "s' = s\<lparr>FmaxNode := FmaxNode s + 100, maxNode := FmaxNode s + 100,
          predictionNodeCount := quot (minNode s + (FmaxNode s + 100)) 2\<rparr>"
    | "s' = s\<lparr>FminNode := quot (FminNode s) 2, minNode := quot (FminNode s) 2,
          predictionNodeCount := quot (quot (FminNode s) 2 + maxNode s) 2\<rparr>"
    using n by (simp add: search_next_def Let_def split: if_splits)
  then have "minNode s' \<le> b + 100 \<and> maxNode s' \<le> b + 100 \<and> FminNode s' \<le> b + 100 \<and>
      FmaxNode s' \<le> b + 100 \<and> predictionNodeCount s' \<le> b + 100"
    by cases (use i half_between [of 0 "FminNode s" b] half_between [of "minNode s" "FmaxNode s + 100" "b + 100"]
      half_between [of "quot (FminNode s) 2" "maxNode s" b] in simp_all)
  moreover have "search_nonneg s'" using search_nonneg_next [OF _ n] w by (simp add: within_def)
  ultimately show ?thesis by (simp add: within_def)
qed

section \<open>The job on machine integers\<close>

text \<open>
  \<open>PredictionEmulator\<close> once more, with the search on words; \<open>AddNodes\<close> and \<open>SavePrediction\<close> take the
  counts as signed integers.
\<close>

fun prediction_loop64 ::
  "nat \<Rightarrow> nat \<Rightarrow> env \<Rightarrow> app_group \<Rightarrow> string \<Rightarrow> search64 \<Rightarrow> review list option \<Rightarrow> access_map \<Rightarrow>
   node_config \<times> kubesim \<Rightarrow> (kubesim, review list option) outcome"
where
  "prediction_loop64 0 fuel env g key s backupEmulator backupPrediction (cfg, ks) = (Hang, ks)"
| "prediction_loop64 (Suc n) fuel env g key s backupEmulator backupPrediction (cfg, ks) =
     (case CreateFakeNode fuel env (sint (predictionNodeCount64 s)) (cfg, ks) of
        (Err e, (cfg1, ks1)) \<Rightarrow> (Err (Msg ''failed to create nodes''), ks1)
      | (Panic p, (cfg1, ks1)) \<Rightarrow> (Panic p, ks1)
      | (Hang, (cfg1, ks1)) \<Rightarrow> (Hang, ks1)
      | (Ok access, (cfg1, ks1)) \<Rightarrow>
          seq (or_nil (CreateApps fuel env (ag_Apps g) ks1))
            (\<lambda>sp ks2.
               let go = PredictionGo sp;
                   be = (if go then ReportList sp else backupEmulator);
                   bp = (if go then access else backupPrediction)
               in case search_next64 (search_update64 go s) of
                    Found s' \<Rightarrow>
                      (let ks3 = DeleteNodes ks2 in
                       if go
                       then (Ok (ReportList sp), SavePrediction env access key (sint (minNode64 s'))
                               (sint (maxNode64 s')) (sint (predictionNodeCount64 s')) (ReportList sp) ks3)
                       else (Ok be, SavePrediction env bp key (sint (minNode64 s')) (sint (maxNode64 s'))
                               (sint (predictionNodeCount64 s')) be ks3))
                  | AtZero s' \<Rightarrow> last_try fuel env g key be bp ks2
                  | Again s' \<Rightarrow> prediction_loop64 n fuel env g key s' be bp (cfg1, ks2)) id)"

definition PredictionEmulator64 ::
  "(int \<Rightarrow> int64) \<Rightarrow> nat \<Rightarrow> nat \<Rightarrow> env \<Rightarrow> app_group \<Rightarrow> string \<Rightarrow> kubesim \<Rightarrow> (kubesim, review list option) outcome" where
  "PredictionEmulator64 conv n fuel env appgroup key ks =
     (let nodeConfig = last_config (ag_Nodes appgroup) in
      prediction_loop64 n fuel env appgroup key (search_start64 conv (word_of_int (NodeNumber nodeConfig))) None []
        (nodeConfig, ks))"

lemma within_fits:
  assumes "within b s" and "2 * b + 200 < 2 ^ 63"
  shows "fits64 (minNode s)" "fits64 (maxNode s)" "fits64 (predictionNodeCount s)"
  using assms by (simp_all add: within_def search_nonneg_def fits64_def)

lemma next_Found_within: "search_next s = Found s' \<Longrightarrow> within b s \<Longrightarrow> within b s'"
  by (auto simp: search_next_def within_def search_nonneg_def Let_def split: if_splits)

lemma prediction_loop_64:
  "within b s \<Longrightarrow> 2 * (b + 100 * int n) + 200 < 2 ^ 63 \<Longrightarrow>
   prediction_loop64 n fuel env g key (to64 s) be bp (cfg, ks) = prediction_loop n fuel env g key s be bp (cfg, ks)"
proof (induction n arbitrary: b s be bp cfg ks)
  case (Suc n)
  have b: "2 * b + 200 < 2 ^ 63" "2 * b < 2 ^ 63" using Suc.prems(2) by simp_all
  have p: "sint (predictionNodeCount64 (to64 s)) = predictionNodeCount s"
    using within_fits [OF Suc.prems(1) b(1)] by (simp add: sint_of_int64)
  obtain r cfg1 ks1 where c: "CreateFakeNode fuel env (predictionNodeCount s) (cfg, ks) = (r, (cfg1, ks1))"
    by (metis prod.exhaust)
  have e: "search_next64 (search_update64 go (to64 s)) = map_search_end to64 (search_next (search_update go s))" for go
    using update64 [OF Suc.prems(1) b(2)] next64 [OF _ b(1)] by simp
  have w: "within b (search_update go s)" for go by (rule update64(2) [OF Suc.prems(1) b(2)])
  have more: "prediction_loop64 n fuel env g key (to64 s') be' bp' (cfg1, ks2) = prediction_loop n fuel env g key s' be' bp' (cfg1, ks2)"
    if "search_next (search_update go s) = Again s'" for go s' be' bp' ks2
    using Suc.IH [OF next_within [OF w that]] Suc.prems(2) by simp
  have found: "sint (minNode64 (to64 s')) = minNode s'" "sint (maxNode64 (to64 s')) = maxNode s'"
    "sint (predictionNodeCount64 (to64 s')) = predictionNodeCount s'"
    if "search_next (search_update go s) = Found s'" for go s'
    using within_fits [OF next_Found_within [OF that w] b(1)] by (simp_all add: sint_of_int64)
  show ?case
  proof (cases r)
    case (Ok access)
    show ?thesis
      unfolding prediction_loop64.simps prediction_loop.simps p c Ok prod.case res.case Let_def e
      by (rule arg_cong [of _ _ "\<lambda>f. seq _ f _"], intro ext)
        (auto split: search_end.split simp: more found simp del: to64_simps)
  qed (simp_all only: prediction_loop64.simps prediction_loop.simps p c prod.case res.case)
qed simp

section \<open>The start\<close>

lemma round53_upper: "0 \<le> x \<Longrightarrow> round53 x \<le> 2 * x"
proof -
  assume x: "0 \<le> x"
  show ?thesis
  proof (cases "x = 0")
    case False
    then have "(2 :: nat) ^ (bit_length (nat x) - 53) \<le> 2 ^ (bit_length (nat x) - 1)"
      by (intro power_increasing) simp_all
    also have "\<dots> \<le> nat x" using bit_length_bounds [of "nat x"] False x by simp
    finally have "int (2 ^ (bit_length (nat x) - 53)) \<le> x" using x by linarith
    then show ?thesis using round_even_upper [OF x, of "bit_length (nat x) - 53"] by (simp add: round53_def)
  qed (simp add: round53_exact)
qed

lemma int_of_product_upper:
  assumes "0 \<le> n" and "0 \<le> c" and "c \<le> 2 * 2 ^ 52"
  shows "int_of_product c n \<le> 8 * n"
proof -
  have "c * round53 n \<le> (2 * 2 ^ 52) * (2 * n)"
    using assms round53_upper [OF assms(1)] round53_nonneg [OF assms(1)] by (intro mult_mono) simp_all
  moreover have "0 \<le> c * round53 n" using assms(2) round53_nonneg [OF assms(1)] by simp
  ultimately have "round53 (c * round53 n) \<le> 8 * n * 2 ^ 52" using round53_upper [of "c * round53 n"] by simp
  then have "round53 (c * round53 n) div 2 ^ 52 \<le> 8 * n * 2 ^ 52 div 2 ^ 52" by (intro zdiv_mono1) simp_all
  then show ?thesis by (simp add: int_of_product_def)
qed

lemma generateMaxNode_upper: "0 \<le> n \<Longrightarrow> generateMaxNode n \<le> 8 * n + 10"
  using int_of_product_upper [of n float_1_2] int_of_product_upper [of n float_1_3] int_of_product_upper [of n float_1_4]
  by (simp add: generateMaxNode_def float_1_2_def float_1_3_def float_1_4_def)

lemma generateMaxNode_64:
  assumes "converts conv" and "0 \<le> n" and "n \<le> 2 ^ 53"
  shows "generateMaxNode64 conv (word_of_int n) = word_of_int (generateMaxNode n)"
proof -
  have n: "fits64 n" using assms by (simp add: fits64_def)
  have c: "(word_of_int n :: int64) \<le>s word_of_int k \<longleftrightarrow> n \<le> k" "(word_of_int k :: int64) <s word_of_int n \<longleftrightarrow> k < n"
    if "fits64 k" for k
    using that n by (simp_all add: le_of_int64 less_of_int64)
  have p: "conv (int_of_product q n) = word_of_int (int_of_product q n)" if "0 \<le> q" "q \<le> 2 * 2 ^ 52" for q
  proof -
    have "0 \<le> int_of_product q n"
      using that(1) round53_nonneg [OF assms(2)] round53_nonneg [of "q * round53 n"] by (simp add: int_of_product_def)
    then have "fits64 (int_of_product q n)"
      using int_of_product_upper [OF assms(2) that] assms(3) by (simp add: fits64_def)
    then show ?thesis using assms(1) by (simp add: converts_def)
  qed
  show ?thesis
    using c [of 1] c [of 100] c [of 1000] c [of 3000] c [of 4000] n p [of float_1_2] p [of float_1_3] p [of float_1_4]
    by (simp add: generateMaxNode64_def generateMaxNode_def sint_of_int64 fits64_def float_1_2_def float_1_3_def float_1_4_def)
qed

lemma search_start_64:
  assumes "converts conv" and "0 \<le> n" and "n \<le> 2 ^ 53"
  shows "search_start64 conv (word_of_int n) = to64 (search_start n)" and "within (2 ^ 57) (search_start n)"
proof -
  have g: "0 \<le> generateMaxNode n" "generateMaxNode n \<le> 8 * n + 10"
    using generateMaxNode_nonneg generateMaxNode_upper assms(2) by simp_all
  then have "fits64 (n + generateMaxNode n)" using assms by (simp add: fits64_def)
  then show "search_start64 conv (word_of_int n) = to64 (search_start n)"
    by (simp add: search_start64_def search_start_def to64_def generateMaxNode_64 [OF assms] half64_add)
  show "within (2 ^ 57) (search_start n)"
    using assms g search_nonneg_start [OF assms(2)] half_between [of n "generateMaxNode n" "2 ^ 57"]
    by (simp add: within_def search_start_def)
qed

lemma prediction_64:
  assumes "converts conv"
    and "0 \<le> NodeNumber (last_config (ag_Nodes g))" and "NodeNumber (last_config (ag_Nodes g)) \<le> 2 ^ 53"
    and "n \<le> 2 ^ 54"
  shows "PredictionEmulator64 conv n fuel env g key ks = PredictionEmulator n fuel env g key ks"
proof -
  have "int n \<le> 2 ^ 54" using assms(4) by simp
  then have "2 * (2 ^ 57 + 100 * int n) + 200 < 2 ^ 63" by simp
  from prediction_loop_64 [OF search_start_64(2) [OF assms(1-3)] this] search_start_64(1) [OF assms(1-3)]
  show ?thesis by (simp add: PredictionEmulator64_def PredictionEmulator_def Let_def)
qed

section \<open>Beyond the range\<close>

text \<open>A first probe on a negative number of nodes slices the list of the nodes out of range.\<close>

lemma AddNodes_negative:
  assumes "NodeNumber cfg < 0" and "list_nodes Everything (externalkubeclient ks) = []" and "e_cap env 0 = 0"
  shows "AddNodes (Suc fuel) env (cfg, ks) = (Panic SliceBounds, (cfg, ks))"
  using assms by (simp add: AddNodes_def add_loop.simps node_count_def Let_def)

lemma CreateFakeNode_negative:
  assumes "n < 0" and "tracker_wf (externalkubeclient ks)" and "e_cap env 0 = 0"
  shows "CreateFakeNode (Suc fuel) env n (cfg, ks) = (Panic SliceBounds, (cfg\<lparr>NodeNumber := n\<rparr>, DeleteNodes ks))"
proof -
  obtain t where "DeleteNodes ks = ks\<lparr>externalkubeclient := t\<rparr>" "tracker_wf t"
    "objs t = (objs (externalkubeclient ks))
      (Pods := drop_matching kubesim_selector (objs (externalkubeclient ks) Pods), Nodes := Map.empty)"
    by (rule DeleteNodes_result [OF assms(2)])
  then have "node_count (externalkubeclient (DeleteNodes ks)) = 0" using node_count_card by simp
  then have "list_nodes Everything (externalkubeclient (DeleteNodes ks)) = []" by (simp add: node_count_def)
  from AddNodes_negative [OF _ this assms(3), of "cfg\<lparr>NodeNumber := n\<rparr>"] assms(1)
  show ?thesis by (simp add: CreateFakeNode_def)
qed

lemma prediction_negative:
  assumes "sint (predictionNodeCount64 (search_start64 conv (word_of_int (NodeNumber (last_config (ag_Nodes g)))))) < 0"
    and "tracker_wf (externalkubeclient ks)" and "e_cap env 0 = 0"
  shows "PredictionEmulator64 conv (Suc n) (Suc fuel) env g key ks = (Panic SliceBounds, DeleteNodes ks)"
  using CreateFakeNode_negative [OF assms] by (simp add: PredictionEmulator64_def Let_def)

lemma negative_start:
  assumes "- (2 ^ 63) \<le> m" and "m \<le> - 12"
  shows "sint (predictionNodeCount64 (search_start64 conv (word_of_int m))) < 0"
proof -
  have m: "fits64 m" "fits64 1" "fits64 (m + 10)" using assms by (simp_all add: fits64_def)
  have "generateMaxNode64 conv (word_of_int m) = word_of_int 10"
    using le_of_int64 [OF m(1,2)] assms(2) by (simp add: generateMaxNode64_def)
  then have "predictionNodeCount64 (search_start64 conv (word_of_int m)) = word_of_int (quot (m + 10) 2)"
    using half64_add [OF m(3)] by (simp add: search_start64_def)
  moreover have "quot (m + 10) 2 < 0 \<and> fits64 (quot (m + 10) 2)"
    using assms quot_two_neg [of "m + 10"] unfolding fits64_def by (simp, linarith)
  ultimately show ?thesis by (simp only: sint_of_int64)
qed

text \<open>
  A large start value: its product with 1.4 still fits 64 bits, but the sum of the two bounds does not.
\<close>

lemma round53_near: "0 \<le> x \<Longrightarrow> round53 x * 2 ^ 52 \<le> x * (2 ^ 52 + 1)"
proof (cases "x < 2 ^ 53")
  case False
  assume x: "0 \<le> x"
  define e where "e = bit_length (nat x) - 53"
  have pos: "0 < nat x" using False x by simp
  have b: "2 ^ (bit_length (nat x) - 1) \<le> nat x" "nat x < 2 ^ bit_length (nat x)"
    using bit_length_bounds [OF pos] by auto
  have "53 < bit_length (nat x)"
  proof (rule ccontr)
    assume "\<not> 53 < bit_length (nat x)"
    then have "(2 :: nat) ^ bit_length (nat x) \<le> 2 ^ 53" by (intro power_increasing) auto
    then have "nat x < 2 ^ 53" using b(2) by linarith
    with False x show False by (simp add: nat_less_iff)
  qed
  then have "bit_length (nat x) - 1 = e + 52" by (simp add: e_def)
  then have "2 ^ e * 2 ^ 52 \<le> nat x" using b(1) by (simp add: power_add)
  then have "int (2 ^ e * 2 ^ 52) \<le> x" using x by linarith
  then have "(2 :: int) ^ e * 2 ^ 52 \<le> x" by simp
  moreover have "round53 x * 2 ^ 52 \<le> (x + 2 ^ e) * 2 ^ 52"
    using round_even_upper [OF x, of e] by (intro mult_right_mono) (simp_all add: round53_def e_def)
  ultimately show ?thesis by (simp add: algebra_simps)
qed (simp add: round53_exact)

lemma large_product:
  assumes "385 * 10 ^ 16 \<le> m" and "m \<le> 658 * 10 ^ 16"
  shows "fits64 (int_of_product float_1_4 m)" and "2 ^ 63 \<le> m + int_of_product float_1_4 m"
    and "m + int_of_product float_1_4 m < 2 ^ 64 - 2"
proof -
  define r where "r = round53 m"
  define p where "p = round53 (float_1_4 * r)"
  have m: "0 \<le> m" using assms by simp
  have r: "m * (2 ^ 52 - 1) \<le> r * 2 ^ 52" "r * 2 ^ 52 \<le> m * (2 ^ 52 + 1)"
    unfolding r_def by (rule round53_lower [OF m], rule round53_near [OF m])
  then have r0: "m - 2000 \<le> r" "r \<le> m + 2000" using assms by simp_all
  then have "0 \<le> float_1_4 * r" using assms by (simp add: float_1_4_def)
  then have p: "float_1_4 * r * (2 ^ 52 - 1) \<le> p * 2 ^ 52" "p * 2 ^ 52 \<le> float_1_4 * r * (2 ^ 52 + 1)"
    unfolding p_def by (rule round53_lower, rule round53_near)
  have d: "int_of_product float_1_4 m = p div 2 ^ 52" by (simp add: int_of_product_def r_def p_def)
  have "5389 * 10 ^ 15 * 2 ^ 52 \<le> p" "p \<le> 9213 * 10 ^ 15 * 2 ^ 52"
    using p r0 assms unfolding float_1_4_def by simp_all
  then have b: "5389 * 10 ^ 15 \<le> p div 2 ^ 52" "p div 2 ^ 52 \<le> 9213 * 10 ^ 15"
    by simp_all
  show "fits64 (int_of_product float_1_4 m)" using b unfolding d fits64_def by simp
  show "2 ^ 63 \<le> m + int_of_product float_1_4 m" using b assms unfolding d by simp
  show "m + int_of_product float_1_4 m < 2 ^ 64 - 2" using b assms unfolding d by simp
qed

lemma overflow_start:
  assumes conv: "converts conv" and m: "385 * 10 ^ 16 \<le> m" "m \<le> 658 * 10 ^ 16"
  shows "sint (predictionNodeCount64 (search_start64 conv (word_of_int m))) < 0"
proof -
  let ?g = "int_of_product float_1_4 m"
  have n: "fits64 m" using m by (simp add: fits64_def)
  have "conv ?g = word_of_int ?g" using conv large_product(1) [OF m] by (simp add: converts_def)
  then have "generateMaxNode64 conv (word_of_int m) = word_of_int ?g"
    using le_of_int64 [OF n, of 1] le_of_int64 [OF n, of 100] le_of_int64 [OF n, of 1000] le_of_int64 [OF n, of 3000]
      less_of_int64 [OF _ n, of 4000] sint_of_int64 [OF n] m
    by (simp add: generateMaxNode64_def fits64_def)
  then have s: "predictionNodeCount64 (search_start64 conv (word_of_int m)) = quot64 (word_of_int (m + ?g)) 2"
    by (simp add: search_start64_def)
  have w: "(word_of_int (m + ?g) :: int64) = word_of_int (m + ?g - 2 ^ 64)"
  proof -
    have "(word_of_int (2 ^ 64) :: int64) = 0" by simp
    then show ?thesis by (simp only: of_int_diff) simp
  qed
  have f: "fits64 (m + ?g - 2 ^ 64)" using large_product(2,3) [OF m] by (simp add: fits64_def)
  have "quot (m + ?g - 2 ^ 64) 2 < 0 \<and> fits64 (quot (m + ?g - 2 ^ 64) 2)"
    using large_product(2,3) [OF m] quot_two_neg [of "m + ?g - 2 ^ 64"] unfolding fits64_def by (simp, linarith)
  then show ?thesis unfolding s w half64 [OF f] by (simp only: sint_of_int64)
qed

section \<open>Properties\<close>

text \<open>
  C10. On 64-bit machine integers a job of kind Prediction does what it does on unbounded integers:
  for every start value up to \<open>2 ^ 53\<close> and up to \<open>2 ^ 54\<close> probes no sum, product or quotient of the
  search wraps around, whatever the scheduler answers, and the two runs have the same result and
  leave the same simulator. No float64 is converted out of range: the platform does not matter.
\<close>

theorem PredictionEmulator_int64:
  assumes "converts conv"
    and "0 \<le> NodeNumber (last_config (ag_Nodes g))" and "NodeNumber (last_config (ag_Nodes g)) \<le> 2 ^ 53"
    and "n \<le> 2 ^ 54"
  shows "PredictionEmulator64 conv n fuel env g key ks = PredictionEmulator n fuel env g key ks"
  using assms by (rule prediction_64)

text \<open>A platform that answers the least integer out of range, as amd64 does.\<close>

definition amd64_conv :: "int \<Rightarrow> int64" where
  "amd64_conv x = (if fits64 x then word_of_int x else word_of_int (- (2 ^ 63)))"

lemma amd64_converts: "converts amd64_conv"
  by (simp add: converts_def amd64_conv_def)

theorem PredictionEmulator_int64_witness:
  "PredictionEmulator64 amd64_conv 1000 2 first_fit_env (cpu_group 3000 2) ''job'' (New ''addNode'' (\<lambda>_. [])) =
     PredictionEmulator 1000 2 first_fit_env (cpu_group 3000 2) ''job'' (New ''addNode'' (\<lambda>_. []))"
  by (rule PredictionEmulator_int64 [OF amd64_converts]) simp_all

text \<open>
  C35. Nothing checks the number of nodes of a request. From a number below -11, and from
  \<open>3.85 * 10 ^ 18\<close> to \<open>6.58 * 10 ^ 18\<close>, where both first bounds fit 64 bits but their sum does not, the first
  probe asks for a negative number of nodes: the job deletes all nodes of the cluster and then panics,
  slicing the empty list of nodes beyond its capacity.
\<close>

theorem PredictionEmulator_negative_count_panics:
  assumes "- (2 ^ 63) \<le> m \<and> m \<le> - 12 \<or> 385 * 10 ^ 16 \<le> m \<and> m \<le> 658 * 10 ^ 16"
    and "NodeNumber (last_config (ag_Nodes g)) = m" and "converts conv"
    and "tracker_wf (externalkubeclient ks)" and "e_cap env 0 = 0"
  shows "PredictionEmulator64 conv (Suc n) (Suc fuel) env g key ks = (Panic SliceBounds, DeleteNodes ks) \<and>
    objs (externalkubeclient (DeleteNodes ks)) Nodes = Map.empty"
proof -
  have "sint (predictionNodeCount64 (search_start64 conv (word_of_int m))) < 0"
    using assms(1) negative_start overflow_start [OF assms(3)] by blast
  then have "PredictionEmulator64 conv (Suc n) (Suc fuel) env g key ks = (Panic SliceBounds, DeleteNodes ks)"
    using prediction_negative assms(2,4,5) by simp
  moreover obtain t where "DeleteNodes ks = ks\<lparr>externalkubeclient := t\<rparr>" "tracker_wf t"
    "objs t = (objs (externalkubeclient ks))
      (Pods := drop_matching kubesim_selector (objs (externalkubeclient ks) Pods), Nodes := Map.empty)"
    by (rule DeleteNodes_result [OF assms(4)])
  ultimately show ?thesis by simp
qed

theorem PredictionEmulator_negative_count_panics_witness:
  "PredictionEmulator64 amd64_conv 1 1 first_fit_env ((cpu_group 3000 2)\<lparr>ag_Nodes := [example_config\<lparr>NodeNumber := 2 ^ 62\<rparr>]\<rparr>) ''job''
     (New ''addNode'' (\<lambda>_. [])) = (Panic SliceBounds, DeleteNodes (New ''addNode'' (\<lambda>_. [])))"
  using PredictionEmulator_negative_count_panics [of "2 ^ 62" "(cpu_group 3000 2)\<lparr>ag_Nodes := [example_config\<lparr>NodeNumber := 2 ^ 62\<rparr>]\<rparr>"
      amd64_conv "New ''addNode'' (\<lambda>_. [])" first_fit_env 0 0 "''job''"] amd64_converts
  by (simp add: last_config_def first_fit_env_def example_env_def)

end
