(* ===== verification/Node_Race.thy ===== *)
theory Node_Race
  imports Prediction
begin

text \<open>
  Several requests in \<open>AddNodes\<close> of \<open>simulator.go\<close> at once.

  The theory \<open>Nodes\<close> runs the loop of \<open>AddNodes\<close> alone. The server handles every request in a
  goroutine of its own and nothing locks the nodes, so here the loop is a machine that is at its head,
  has listed the nodes, or has returned; \<open>race_step\<close> lets one of the requests do its next step on the
  simulator they share. Listing is one step, and adding or deleting what that list asks for another:
  these are schedules of the code, a finer one may switch also between two nodes. A request alone is
  the loop of \<open>Nodes\<close>.
\<close>

section \<open>Requests as machines\<close>

datatype node_pc = AtHead | Listed node_info_list | Returned "access_map res"

record node_run =
  r_want :: int
  r_conf :: node_config
  r_access :: access_map
  r_pc :: node_pc

definition add_nodes_step :: "env \<Rightarrow> node_run \<times> kubesim \<Rightarrow> node_run \<times> kubesim" where
  "add_nodes_step env = (\<lambda>(r, ks).
     (case r_pc r of
        AtHead \<Rightarrow> (r\<lparr>r_pc := Listed (ListNodes env ks)\<rparr>, ks)
      | Listed nodeinfolist \<Rightarrow>
          (if nl_NodeNumber nodeinfolist < r_want r
           then (case addNodes env ((r_conf r)\<lparr>NodeNumber := r_want r - nl_NodeNumber nodeinfolist\<rparr>, ks) of
                (Ok access, (cfg, ks')) \<Rightarrow> (r\<lparr>r_conf := cfg, r_access := access, r_pc := AtHead\<rparr>, ks')
              | (Err e, (cfg, ks')) \<Rightarrow>
                  (r\<lparr>r_conf := cfg, r_pc := Returned (Err (Wrap ''Unable to create simulator node'' e))\<rparr>, ks')
              | (Panic p, (cfg, ks')) \<Rightarrow> (r\<lparr>r_conf := cfg, r_pc := Returned (Panic p)\<rparr>, ks')
              | (Hang, (cfg, ks')) \<Rightarrow> (r\<lparr>r_conf := cfg, r_pc := Returned Hang\<rparr>, ks'))
           else if nl_NodeNumber nodeinfolist > r_want r
           then (let deleteNodeCount = nat (nl_NodeNumber nodeinfolist - r_want r);
                     items = nl_NodeList nodeinfolist
                 in if e_cap env (length items) < deleteNodeCount \<and> length items < deleteNodeCount
                    then (r\<lparr>r_pc := Returned (Panic SliceBounds)\<rparr>, ks)
                    else (r\<lparr>r_pc := AtHead\<rparr>, ks\<lparr>externalkubeclient := delete_logged (delete_key Nodes)
                       (map node_key (take deleteNodeCount items) @
                        replicate (deleteNodeCount - length items) ([], [])) (externalkubeclient ks)\<rparr>))
           else (r\<lparr>r_pc := Returned (Ok (r_access r))\<rparr>, ks))
      | Returned _ \<Rightarrow> (r, ks)))"

definition start_run :: "node_config \<Rightarrow> node_run" where
  "start_run cfg = \<lparr>r_want = NodeNumber cfg, r_conf = cfg, r_access = [], r_pc = AtHead\<rparr>"

type_synonym node_race = "(nat \<Rightarrow> node_run) \<times> kubesim"

definition race_step :: "env \<Rightarrow> nat \<Rightarrow> node_race \<Rightarrow> node_race" where
  "race_step env i = (\<lambda>(runs, ks). case add_nodes_step env (runs i, ks) of (r, ks') \<Rightarrow> (runs(i := r), ks'))"

text \<open>A schedule says whose turn it is.\<close>

fun race_run :: "env \<Rightarrow> (nat \<Rightarrow> nat) \<Rightarrow> nat \<Rightarrow> node_race \<Rightarrow> node_race" where
  "race_run env turn 0 s = s"
| "race_run env turn (Suc k) s = race_step env (turn k) (race_run env turn k s)"

section \<open>A request alone\<close>

lemma alone:
  "add_loop fuel env n access (cfg, ks) = (Ok (access', infos), (cfg', ks')) \<Longrightarrow>
   \<exists>k. (add_nodes_step env ^^ k) (\<lparr>r_want = n, r_conf = cfg, r_access = access, r_pc = AtHead\<rparr>, ks) =
     (\<lparr>r_want = n, r_conf = cfg', r_access = access', r_pc = Returned (Ok access')\<rparr>, ks')"
proof (induction fuel arbitrary: access cfg ks)
  case 0
  then show ?case by (simp add: add_loop.simps)
next
  case (Suc fuel)
  let ?i = "ListNodes env ks"
  let ?run = "\<lambda>c a p. \<lparr>r_want = n, r_conf = c, r_access = a, r_pc = p\<rparr>"
  have two: "\<exists>k. (add_nodes_step env ^^ k) (?run cfg access AtHead, ks) = z"
    if "\<exists>k. (add_nodes_step env ^^ k) (add_nodes_step env (?run cfg access (Listed ?i), ks)) = z" for z
  proof -
    from that obtain k where "(add_nodes_step env ^^ k) (add_nodes_step env (?run cfg access (Listed ?i), ks)) = z"
      by blast
    then have "(add_nodes_step env ^^ (Suc (Suc k))) (?run cfg access AtHead, ks) = z"
      unfolding funpow_Suc_right by (simp add: add_nodes_step_def)
    then show ?thesis by blast
  qed
  consider "nl_NodeNumber ?i < n" | "n < nl_NodeNumber ?i" | "nl_NodeNumber ?i = n" by linarith
  then show ?case
  proof cases
    case 1
    obtain r c k where a: "addNodes env (cfg\<lparr>NodeNumber := n - nl_NodeNumber ?i\<rparr>, ks) = (r, (c, k))"
      by (metis prod.exhaust)
    obtain ac where r: "r = Ok ac" and l: "add_loop fuel env n ac (c, k) = (Ok (access', infos), (cfg', ks'))"
      using Suc.prems 1 a by (cases r) (simp_all add: add_loop.simps Let_def)
    have "add_nodes_step env (?run cfg access (Listed ?i), ks) = (?run c ac AtHead, k)"
      using 1 a r by (simp add: add_nodes_step_def)
    then show ?thesis using two Suc.IH [OF l] by auto
  next
    case 2
    define d where "d = nat (nl_NodeNumber ?i - n)"
    let ?items = "nl_NodeList ?i"
    let ?ks = "ks\<lparr>externalkubeclient := delete_logged (delete_key Nodes)
        (map node_key (take d ?items) @ replicate (d - length ?items) ([], [])) (externalkubeclient ks)\<rparr>"
    have c: "\<not> (e_cap env (length ?items) < d \<and> length ?items < d)"
      and l: "add_loop fuel env n access (cfg, ?ks) = (Ok (access', infos), (cfg', ks'))"
      using Suc.prems 2 unfolding d_def by (simp_all add: add_loop.simps Let_def split: if_splits)
    have "add_nodes_step env (?run cfg access (Listed ?i), ks) = (?run cfg access AtHead, ?ks)"
      using 2 c unfolding d_def by (simp add: add_nodes_step_def Let_def)
    then show ?thesis using two Suc.IH [OF l] by auto
  next
    case 3
    then have "cfg' = cfg" "ks' = ks" "access' = access" using Suc.prems by (simp_all add: add_loop.simps)
    moreover have "(add_nodes_step env ^^ 0) (add_nodes_step env (?run cfg access (Listed ?i), ks)) =
        (?run cfg access (Returned (Ok access)), ks)"
      using 3 by (simp add: add_nodes_step_def)
    ultimately show ?thesis using two by blast
  qed
qed

section \<open>Names that are still free\<close>

definition fresh_names :: "env \<Rightarrow> kubesim \<Rightarrow> bool" where
  "fresh_names env ks \<longleftrightarrow>
     (\<forall>d \<ge> draws ks. objs (externalkubeclient ks) Nodes ([], ''fake-'' @ e_uuid env d) = None)"

lemma plan_names_range:
  "set (plan_names (switch_plan env d ns)) \<subseteq> (\<lambda>i. ''fake-'' @ e_uuid env i) ` {d..<d + plan_draws ns}"
proof (induction ns arbitrary: d)
  case (Cons n ns)
  have e: "d + plan_draws (n # ns) = Suc d + nat n + plan_draws ns" by (simp add: plan_draws_def)
  have "set (plan_names (switch_plan env (Suc d + nat n) ns)) \<subseteq>
      (\<lambda>i. ''fake-'' @ e_uuid env i) ` {d..<d + plan_draws (n # ns)}"
    unfolding e by (rule order_trans [OF Cons.IH]) (intro image_mono, auto)
  moreover have "set (fake_names env (Suc d) (nat n)) \<subseteq> (\<lambda>i. ''fake-'' @ e_uuid env i) ` {d..<d + plan_draws (n # ns)}"
    unfolding e fake_names_draws by (intro image_mono) auto
  ultimately show ?case by (simp add: plan_names_def)
qed (simp add: plan_names_def)

lemma fresh_can_add:
  assumes "inj (e_uuid env)" and "fresh_names env ks" and "cfg_ok cfg" and "0 \<le> NodeNumber cfg"
    and "tracker_wf (externalkubeclient ks)"
  shows "can_add env cfg ks"
  using assms distinct_plan_names [OF assms(1)] plan_names_draws [of env "draws ks" "switch_list ks cfg"]
  by (fastforce simp: can_add_def names_free_def fresh_names_def)

lemma fresh_addNodes:
  assumes "inj (e_uuid env)" and "fresh_names env ks" and "cfg_ok cfg" and "0 \<le> NodeNumber cfg"
    and "tracker_wf (externalkubeclient ks)"
  obtains access cfg' ks' where "addNodes env (cfg, ks) = (Ok access, (cfg', ks'))" and "cfg_ok cfg'"
    and "fresh_names env ks'" and "tracker_wf (externalkubeclient ks')"
    and "node_count (externalkubeclient ks') = node_count (externalkubeclient ks) + NodeNumber cfg"
    and "\<exists>d. ks' = ks\<lparr>draws := d, externalkubeclient := externalkubeclient ks'\<rparr>"
    and "\<forall>g. g \<noteq> Nodes \<longrightarrow> objs (externalkubeclient ks') g = objs (externalkubeclient ks) g"
proof -
  have can: "can_add env cfg ks" by (rule fresh_can_add [OF assms])
  define plan where "plan = switch_plan env (draws ks) (switch_list ks cfg)"
  define d where "d = draws ks + plan_draws (switch_list ks cfg)"
  obtain cfg' t where r: "addNodes env (cfg, ks) = (Ok (record_access plan []), (cfg', ks\<lparr>draws := d, externalkubeclient := t\<rparr>))"
    "cfg_ok cfg'" "nodes_added (externalkubeclient ks) t (plan_names plan) (planned plan)"
    "int (length (plan_names plan)) = NodeNumber cfg"
    using addNodes_ok [OF can] unfolding plan_def d_def by metis
  have free: "names_free (plan_names plan) (externalkubeclient ks)" using can by (simp add: can_add_def plan_def)
  have wf: "tracker_wf t" using r(3) by (simp add: nodes_added_def)
  have "objs t Nodes ([], ''fake-'' @ e_uuid env e) = None" if "d \<le> e" for e
  proof -
    have "''fake-'' @ e_uuid env e \<notin> set (plan_names plan)"
    proof
      assume "''fake-'' @ e_uuid env e \<in> set (plan_names plan)"
      then have "''fake-'' @ e_uuid env e \<in> (\<lambda>i. ''fake-'' @ e_uuid env i) ` {draws ks..<d}"
        unfolding plan_def d_def by (rule subsetD [OF plan_names_range])
      then obtain i where "i < d" "e_uuid env e = e_uuid env i" by (auto elim!: imageE)
      with injD [OF assms(1)] that show False by fastforce
    qed
    moreover have "draws ks \<le> e" using that by (simp add: d_def)
    ultimately show ?thesis using nodes_added_old [OF r(3)] assms(2) by (simp add: fresh_names_def)
  qed
  then have "fresh_names env (ks\<lparr>draws := d, externalkubeclient := t\<rparr>)" by (simp add: fresh_names_def)
  moreover have "node_count t = node_count (externalkubeclient ks) + NodeNumber cfg"
    using nodes_added_count [OF r(3) assms(5) free] r(4) by simp
  moreover have "\<forall>g. g \<noteq> Nodes \<longrightarrow> objs t g = objs (externalkubeclient ks) g"
    using r(3) by (simp add: nodes_added_def)
  ultimately show thesis
    by - (rule that [OF r(1,2)], simp_all add: wf, rule exI [of _ d], simp)
qed

text \<open>So a request for more nodes than there are succeeds, and the names stay fresh.\<close>

lemma fresh_AddNodes:
  assumes inj: "inj (e_uuid env)" and fresh: "fresh_names env ks" and cfg: "cfg_ok cfg"
    and more: "node_count (externalkubeclient ks) < NodeNumber cfg"
    and wf: "tracker_wf (externalkubeclient ks)" and fuel: "2 \<le> fuel"
  obtains access cfg' ks' where "AddNodes fuel env (cfg, ks) = (Ok (access, ListNodes env ks'), (cfg', ks'))"
    and "cfg_ok cfg'" and "fresh_names env ks'" and "tracker_wf (externalkubeclient ks')"
    and "node_count (externalkubeclient ks') = NodeNumber cfg"
    and "\<exists>d. ks' = ks\<lparr>draws := d, externalkubeclient := externalkubeclient ks'\<rparr>"
    and "\<forall>g. g \<noteq> Nodes \<longrightarrow> objs (externalkubeclient ks') g = objs (externalkubeclient ks) g"
proof -
  let ?n = "NodeNumber cfg - node_count (externalkubeclient ks)"
  have c: "cfg_ok (cfg\<lparr>NodeNumber := ?n\<rparr>)" "0 \<le> NodeNumber (cfg\<lparr>NodeNumber := ?n\<rparr>)"
    using cfg more by (simp_all add: cfg_ok_def)
  obtain f where f: "fuel = Suc (Suc f)" using fuel by (metis add_2_eq_Suc le_Suc_ex)
  obtain access cfg' ks' where a: "addNodes env (cfg\<lparr>NodeNumber := ?n\<rparr>, ks) = (Ok access, (cfg', ks'))" "cfg_ok cfg'"
    "fresh_names env ks'" "tracker_wf (externalkubeclient ks')"
    "node_count (externalkubeclient ks') = node_count (externalkubeclient ks) + NodeNumber (cfg\<lparr>NodeNumber := ?n\<rparr>)"
    "\<exists>d. ks' = ks\<lparr>draws := d, externalkubeclient := externalkubeclient ks'\<rparr>"
    "\<forall>g. g \<noteq> Nodes \<longrightarrow> objs (externalkubeclient ks') g = objs (externalkubeclient ks) g"
    by (rule fresh_addNodes [OF inj fresh c wf])
  have n: "node_count (externalkubeclient ks') = NodeNumber cfg" using a(5) by simp
  have "AddNodes fuel env (cfg, ks) = (Ok (access, ListNodes env ks'), (cfg', ks'))"
    using more a(1) n by (simp add: AddNodes_def f add_loop.simps Let_def)
  then show thesis using that a(2-4,6,7) n by blast
qed

section \<open>Two requests against each other\<close>

definition contending :: "env \<Rightarrow> int \<Rightarrow> int \<Rightarrow> node_race \<Rightarrow> bool" where
  "contending env n m = (\<lambda>(runs, ks).
     r_pc (runs 0) = AtHead \<and> r_want (runs 0) = n \<and> r_pc (runs 1) = AtHead \<and> r_want (runs 1) = m \<and>
     cfg_ok (r_conf (runs 1)) \<and> tracker_wf (externalkubeclient ks) \<and> fresh_names env ks \<and>
     node_count (externalkubeclient ks) = n)"

definition still_running :: "node_race \<Rightarrow> bool" where
  "still_running = (\<lambda>(runs, ks). \<forall>i < 2. \<forall>r. r_pc (runs i) \<noteq> Returned r)"

definition by_turns :: "nat \<Rightarrow> nat" where
  "by_turns k = (if k mod 4 < 2 then 1 else 0)"

lemma less_two: "(\<forall>i < (2 :: nat). P i) \<longleftrightarrow> P 0 \<and> P 1"
  by (auto simp: less_2_cases_iff)

lemma contending_round:
  assumes n: "0 \<le> n" "n < m" and inj: "inj (e_uuid env)" and c: "contending env n m s"
    and s1: "s1 = race_step env 1 s" and s2: "s2 = race_step env 1 s1" and s3: "s3 = race_step env 0 s2"
    and s4: "s4 = race_step env 0 s3"
  shows "contending env n m s4" and "still_running s1" and "still_running s2" and "still_running s3"
    and "node_count (externalkubeclient (snd s2)) = m"
proof -
  obtain runs ks where s: "s = (runs, ks)" by fastforce
  have h: "r_pc (runs 0) = AtHead" "r_want (runs 0) = n" "r_pc (runs 1) = AtHead" "r_want (runs 1) = m"
    "cfg_ok (r_conf (runs 1))" "tracker_wf (externalkubeclient ks)" "fresh_names env ks"
    "node_count (externalkubeclient ks) = n"
    using c by (simp_all add: contending_def s)
  have e1: "s1 = (runs(1 := (runs 1)\<lparr>r_pc := Listed (ListNodes env ks)\<rparr>), ks)"
    using h(3) by (simp add: s1 s race_step_def add_nodes_step_def)
  have cfg: "cfg_ok ((r_conf (runs 1))\<lparr>NodeNumber := m - n\<rparr>)" "0 \<le> NodeNumber ((r_conf (runs 1))\<lparr>NodeNumber := m - n\<rparr>)"
    using h(5) n by (simp_all add: cfg_ok_def)
  obtain access cfg' ks2 where a: "addNodes env ((r_conf (runs 1))\<lparr>NodeNumber := m - n\<rparr>, ks) = (Ok access, (cfg', ks2))"
    "cfg_ok cfg'" "fresh_names env ks2" "tracker_wf (externalkubeclient ks2)" "node_count (externalkubeclient ks2) = m"
    by (rule fresh_addNodes [OF inj h(7) cfg h(6)]) (simp add: h(8))
  let ?r1 = "(runs 1)\<lparr>r_conf := cfg', r_access := access, r_pc := AtHead\<rparr>"
  have e2: "s2 = (runs(1 := ?r1), ks2)"
    using h(4,8) n(2) a(1) by (simp add: s2 e1 race_step_def add_nodes_step_def)
  have e3: "s3 = (runs(1 := ?r1, 0 := (runs 0)\<lparr>r_pc := Listed (ListNodes env ks2)\<rparr>), ks2)"
    using h(1) by (simp add: s3 e2 race_step_def add_nodes_step_def)
  define k where "k = nat (m - n)"
  let ?items = "list_nodes Everything (externalkubeclient ks2)"
  have more: "n < node_count (externalkubeclient ks2)" and k: "k = nat (node_count (externalkubeclient ks2) - n)"
    using n a(5) by (simp_all add: k_def)
  obtain t where t: "delete_logged (delete_key Nodes)
      (map node_key (take k ?items) @ replicate (k - length ?items) ([], [])) (externalkubeclient ks2) = t"
    "k \<le> length ?items" "node_count t = n" "tracker_wf t"
    "objs t = (objs (externalkubeclient ks2))
      (Nodes := objs (externalkubeclient ks2) Nodes |` (- node_key ` set (take k ?items)))"
    by (rule delete_surplus [OF a(4) more n(1) refl k])
  have e4: "s4 = (runs(1 := ?r1, 0 := (runs 0)\<lparr>r_pc := AtHead\<rparr>), ks2\<lparr>externalkubeclient := t\<rparr>)"
    using h(2) n(2) t(1,2) a(5) by (simp add: s4 e3 race_step_def add_nodes_step_def k_def Let_def)
  have "fresh_names env (ks2\<lparr>externalkubeclient := t\<rparr>)"
    using a(3) t(5) by (simp add: fresh_names_def restrict_map_def)
  then show "contending env n m s4" using h a(2) t(3,4) by (simp add: contending_def e4)
  show "still_running s1" "still_running s2" "still_running s3"
    using h(1,3) unfolding still_running_def less_two by (simp_all add: e1 e2 e3)
  show "node_count (externalkubeclient (snd s2)) = m" using a(5) by (simp add: e2)
qed

lemma contending_runs: "contending env n m s \<Longrightarrow> still_running s"
  by (auto simp: contending_def still_running_def less_two)

lemma contending_for_ever:
  assumes "0 \<le> n" "n < m" and "inj (e_uuid env)" and "contending env n m s"
  shows "contending env n m (race_run env by_turns (4 * k) s)"
proof (induction k)
  case (Suc k)
  have e: "4 * Suc k = Suc (Suc (Suc (Suc (4 * k))))" by simp
  have t: "by_turns (4 * k) = 1" "by_turns (Suc (4 * k)) = 1" "by_turns (Suc (Suc (4 * k))) = 0"
    "by_turns (Suc (Suc (Suc (4 * k)))) = 0"
    by (simp_all add: by_turns_def mod_Suc)
  show ?case unfolding e race_run.simps t
    by (rule contending_round(1) [OF assms(1-3) Suc.IH refl refl refl refl])
qed (use assms(4) in simp)

lemma contending_between:
  assumes "0 \<le> n" "n < m" and "inj (e_uuid env)" and "contending env n m s"
  shows "still_running (race_run env by_turns j s)"
    and "node_count (externalkubeclient (snd (race_run env by_turns (4 * k + 2) s))) = m"
proof -
  note c = contending_for_ever [OF assms]
  have t: "by_turns (4 * k) = 1" "by_turns (Suc (4 * k)) = 1" "by_turns (Suc (Suc (4 * k))) = 0" for k
    by (simp_all add: by_turns_def mod_Suc)
  note r = contending_round(2-5) [OF assms(1-3) c refl refl refl refl]
  show "node_count (externalkubeclient (snd (race_run env by_turns (4 * k + 2) s))) = m"
    using r(4) [of k] by (simp add: t numeral_2_eq_2)
  have "\<exists>q. j = 4 * q \<or> j = Suc (4 * q) \<or> j = Suc (Suc (4 * q)) \<or> j = Suc (Suc (Suc (4 * q)))"
    by presburger
  then obtain q where "j = 4 * q \<or> j = Suc (4 * q) \<or> j = Suc (Suc (4 * q)) \<or> j = Suc (Suc (Suc (4 * q)))"
    by blast
  then show "still_running (race_run env by_turns j s)"
    using contending_runs [OF c [of q]] r(1-3) [of q] by (elim disjE) (simp_all add: t)
qed

section \<open>Properties\<close>

text \<open>
  C17. Two requests for different numbers of nodes, handled at the same time, can undo each other's
  work for ever: when the cluster has as many nodes as the first one asks for and the two do one round
  of their loops each in turn, the second one adds the nodes it misses, the first one deletes them,
  and neither ever returns, though each of them alone ends after two rounds.
\<close>

theorem opposed_requests_never_return:
  assumes "0 \<le> NodeNumber c0" and "NodeNumber c0 < NodeNumber c1" and "cfg_ok c1" and "inj (e_uuid env)"
    and "tracker_wf (externalkubeclient ks)" and "node_count (externalkubeclient ks) = NodeNumber c0"
    and "fresh_names env ks" and "runs 0 = start_run c0" and "runs 1 = start_run c1"
  shows "still_running (race_run env by_turns j (runs, ks)) \<and>
    node_count (externalkubeclient (snd (race_run env by_turns (4 * k) (runs, ks)))) = NodeNumber c0 \<and>
    node_count (externalkubeclient (snd (race_run env by_turns (4 * k + 2) (runs, ks)))) = NodeNumber c1"
proof -
  have "contending env (NodeNumber c0) (NodeNumber c1) (runs, ks)"
    using assms(3,5-9) by (simp add: contending_def start_run_def)
  with contending_between [OF assms(1,2,4) this] contending_for_ever [OF assms(1,2,4) this, of k]
  show ?thesis by (simp add: contending_def case_prod_unfold)
qed

definition one_node :: tracker where
  "one_node = (\<lambda>g. if g = Nodes
     then [(([], ''n1''), NodeObj \<lparr>node_Name = ''n1'', node_Labels = None, node_Capacity = [], node_Allocatable = [],
        node_Info = None, node_Conditions = [], node_Addresses = []\<rparr>)] else [])"

lemma node_count_length: "tracker_wf t \<Longrightarrow> node_count t = int (length (t Nodes))"
proof -
  assume wf: "tracker_wf t"
  then have "distinct (map fst (t Nodes))" by (simp add: tracker_wf_def)
  then have "card (fst ` set (t Nodes)) = length (t Nodes)" using distinct_card by fastforce
  then show ?thesis using node_count_card [OF wf] by (simp add: objs_def dom_map_of_conv_image_fst)
qed

theorem opposed_requests_never_return_witness:
  "still_running (race_run first_fit_env by_turns 1000
     ((\<lambda>i. start_run (example_config\<lparr>NodeNumber := (if i = 0 then 1 else 3)\<rparr>)), New ''addNode'' one_node))"
proof -
  have wf: "tracker_wf one_node" by (simp add: tracker_wf_def one_node_def node_key_def)
  then have "node_count one_node = 1" by (simp add: node_count_length one_node_def)
  moreover have "fresh_names first_fit_env (New ''addNode'' one_node)"
    by (simp add: fresh_names_def objs_def one_node_def)
  moreover have "cfg_ok (example_config\<lparr>NodeNumber := 3\<rparr>)" using example_config_ok by (simp add: cfg_ok_def)
  ultimately show ?thesis
    using opposed_requests_never_return [of "example_config\<lparr>NodeNumber := 1\<rparr>" "example_config\<lparr>NodeNumber := 3\<rparr>"
        first_fit_env "New ''addNode'' one_node"
        "\<lambda>i. start_run (example_config\<lparr>NodeNumber := (if i = 0 then 1 else 3)\<rparr>)" 1000 0]
      first_fit_inj wf by simp
qed

end
