(* ===== verification/Prediction_Race.thy ===== *)
theory Prediction_Race
  imports Node_Race
begin

text \<open>
  A prediction of \<open>simulator.go\<close> that is disturbed by a request to add nodes.

  \<open>PredictionEmulator\<close> replaces the nodes and then schedules the applications, without a lock on the
  nodes. \<open>prediction_among\<close> is its loop with the place between the two named: \<open>others i\<close> is what other
  goroutines do to the simulator there in the \<open>i\<close>-th probe, which \<open>runPredictionCount\<close> counts. When they
  do nothing it is the loop of the theory \<open>Prediction\<close>.
\<close>

fun prediction_among ::
  "(nat \<Rightarrow> kubesim \<Rightarrow> kubesim) \<Rightarrow> nat \<Rightarrow> nat \<Rightarrow> nat \<Rightarrow> env \<Rightarrow> app_group \<Rightarrow> string \<Rightarrow> search \<Rightarrow> review list option \<Rightarrow>
   access_map \<Rightarrow> node_config \<times> kubesim \<Rightarrow> (kubesim, review list option) outcome"
where
  "prediction_among others i 0 fuel env g key s backupEmulator backupPrediction (cfg, ks) = (Hang, ks)"
| "prediction_among others i (Suc n) fuel env g key s backupEmulator backupPrediction (cfg, ks) =
     (case CreateFakeNode fuel env (predictionNodeCount s) (cfg, ks) of
        (Err e, (cfg1, ks1)) \<Rightarrow> (Err (Msg ''failed to create nodes''), ks1)
      | (Panic p, (cfg1, ks1)) \<Rightarrow> (Panic p, ks1)
      | (Hang, (cfg1, ks1)) \<Rightarrow> (Hang, ks1)
      | (Ok access, (cfg1, ks1)) \<Rightarrow>
          seq (or_nil (CreateApps fuel env (ag_Apps g) (others i ks1)))
            (\<lambda>sp ks2.
               let go = PredictionGo sp;
                   be = (if go then ReportList sp else backupEmulator);
                   bp = (if go then access else backupPrediction)
               in case search_next (search_update go s) of
                    Found s' \<Rightarrow>
                      (let ks3 = DeleteNodes ks2 in
                       if go
                       then (Ok (ReportList sp), SavePrediction env access key (minNode s') (maxNode s')
                               (predictionNodeCount s') (ReportList sp) ks3)
                       else (Ok be, SavePrediction env bp key (minNode s') (maxNode s')
                               (predictionNodeCount s') be ks3))
                  | AtZero s' \<Rightarrow> last_try fuel env g key be bp ks2
                  | Again s' \<Rightarrow> prediction_among others (Suc i) n fuel env g key s' be bp (cfg1, ks2)) id)"

definition DisturbedPrediction ::
  "(nat \<Rightarrow> kubesim \<Rightarrow> kubesim) \<Rightarrow> nat \<Rightarrow> nat \<Rightarrow> env \<Rightarrow> app_group \<Rightarrow> string \<Rightarrow> kubesim \<Rightarrow>
   (kubesim, review list option) outcome" where
  "DisturbedPrediction others n fuel env appgroup key ks =
     (let nodeConfig = last_config (ag_Nodes appgroup) in
      prediction_among others 1 n fuel env appgroup key (search_start (NodeNumber nodeConfig)) None [] (nodeConfig, ks))"

lemma undisturbed:
  "(\<And>j x. i \<le> j \<Longrightarrow> others j x = x) \<Longrightarrow>
   prediction_among others i n fuel env g key s be bp (cfg, ks) = prediction_loop n fuel env g key s be bp (cfg, ks)"
proof (induction n arbitrary: i s be bp cfg ks)
  case (Suc n)
  obtain r cfg1 ks1 where c: "CreateFakeNode fuel env (predictionNodeCount s) (cfg, ks) = (r, (cfg1, ks1))"
    by (metis prod.exhaust)
  have more: "prediction_among others (Suc i) n fuel env g key s' be' bp' (cfg', ks2) = prediction_loop n fuel env g key s' be' bp' (cfg', ks2)"
    for s' be' bp' cfg' ks2
    using Suc.prems by (intro Suc.IH) simp
  have o: "others i x = x" for x using Suc.prems by simp
  show ?case unfolding prediction_among.simps prediction_loop.simps c o more ..
qed simp

lemma undisturbed_prediction: "DisturbedPrediction (\<lambda>i x. x) n fuel env g key ks = PredictionEmulator n fuel env g key ks"
  by (simp add: DisturbedPrediction_def PredictionEmulator_def Let_def undisturbed)

text \<open>
  A search whose upper bound was believed although it does not suffice ends with that bound: every
  later probe is below it and fails.
\<close>

lemma search_believes:
  assumes "maxNode s < T" and "maxNode s \<noteq> FmaxNode s" and "FminNode s \<le> minNode s" and "minNode s + 2 \<le> maxNode s"
    and "0 \<le> minNode s" and "predictionNodeCount s = (minNode s + maxNode s) div 2"
  shows "\<exists>fuel. search_run fuel (\<lambda>n. T \<le> n) s = Some (maxNode s)"
  using assms
proof (induction "nat (maxNode s - minNode s)" arbitrary: s rule: less_induct)
  case less
  define p where "p = predictionNodeCount s"
  have p: "minNode s < p" "p < maxNode s" "0 \<le> p" using less.prems(4-6) by (simp_all add: p_def)
  then have nofit: "\<not> T \<le> p" using less.prems(1) by simp
  let ?s = "s\<lparr>minNode := p, predictionNodeCount := (p + maxNode s) div 2\<rparr>"
  have u: "search_update (T \<le> p) s = ?s"
    using nofit p by (simp add: search_update_def p_def [symmetric] quot_nonneg)
  show ?case
  proof (cases "maxNode s - p = 1")
    case True
    then have "search_next ?s = Found (?s\<lparr>predictionNodeCount := maxNode s\<rparr>)"
      using less.prems(2,3) p by (simp add: search_next_def)
    then have "search_run 1 (\<lambda>n. T \<le> n) s = Some (maxNode s)" using u by (simp add: p_def)
    then show ?thesis ..
  next
    case False
    then have a: "search_next ?s = Again ?s" by (simp add: search_next_def)
    have "\<exists>fuel. search_run fuel (\<lambda>n. T \<le> n) ?s = Some (maxNode ?s)"
      using less.prems(1-3) p False by (intro less.hyps) simp_all
    then obtain fuel where "search_run fuel (\<lambda>n. T \<le> n) ?s = Some (maxNode s)" by auto
    then have "search_run (Suc fuel) (\<lambda>n. T \<le> n) s = Some (maxNode s)" using u a by (simp add: p_def)
    then show ?thesis ..
  qed
qed

text \<open>A probe on too few nodes, to which a request for enough nodes adds the rest.\<close>

definition add_request_effect :: "nat \<Rightarrow> env \<Rightarrow> node_config \<Rightarrow> nat \<Rightarrow> kubesim \<Rightarrow> kubesim" where
  "add_request_effect fuel env c i ks = (if i = 1 then snd (snd (AddNodes fuel env (c, ks))) else ks)"

lemma disturbed_probe:
  assumes ok: "prediction_ok fuel env apps base" and th: "fits_from fuel env apps base cfg T"
    and rd: "ready base ks" and cur: "derived_config cfg cur" and p: "0 < p" "p < NodeNumber c"
    and c: "derived_config cfg c" "T \<le> NodeNumber c"
  obtains access cfg1 ks1 sp ks2 where "CreateFakeNode fuel env p (cur, ks) = (Ok access, (cfg1, ks1))"
    and "derived_config cfg cfg1" and "CreateApps fuel env apps (add_request_effect fuel env c 1 ks1) = (Ok sp, ks2)"
    and "ready base ks2" and "PredictionGo sp"
proof -
  have inj: "inj (e_uuid env)" and fuel: "2 \<le> fuel" and wf: "tracker_wf (externalkubeclient ks)"
    and oks: "cfg_ok cur" "cfg_ok c"
    using ok rd cur c(1) by (simp_all add: prediction_ok_def always_unique_def ready_def derived_config_def)
  obtain t where t: "DeleteNodes ks = ks\<lparr>externalkubeclient := t\<rparr>" "tracker_wf t"
    "objs t = (objs (externalkubeclient ks))
      (Pods := drop_matching kubesim_selector (objs (externalkubeclient ks) Pods), Nodes := Map.empty)"
    by (rule DeleteNodes_result [OF wf])
  let ?k0 = "ks\<lparr>externalkubeclient := t\<rparr>" and ?cp = "cur\<lparr>NodeNumber := p\<rparr>"
  have k0: "fresh_names env ?k0" "node_count (externalkubeclient ?k0) < NodeNumber ?cp" "cfg_ok ?cp"
    "tracker_wf (externalkubeclient ?k0)"
    using t node_count_card [OF t(2)] p(1) oks(1) by (simp_all add: fresh_names_def cfg_ok_def)
  obtain access cfg1 ks1 where a1: "AddNodes fuel env (?cp, ?k0) = (Ok (access, ListNodes env ks1), (cfg1, ks1))"
    "cfg_ok cfg1" "fresh_names env ks1" "tracker_wf (externalkubeclient ks1)"
    "node_count (externalkubeclient ks1) = NodeNumber ?cp"
    "\<exists>d. ks1 = ?k0\<lparr>draws := d, externalkubeclient := externalkubeclient ks1\<rparr>"
    "\<forall>g. g \<noteq> Nodes \<longrightarrow> objs (externalkubeclient ks1) g = objs (externalkubeclient ?k0) g"
    by (rule fresh_AddNodes [OF inj k0(1,3,2,4) fuel])
  have like1: "derived_config cfg cfg1 \<and> nodes_like cfg (externalkubeclient ks1)"
    using AddNodes_like [OF a1(1), of cfg] cur t(3) by (simp add: nodes_like_def)
  have less: "node_count (externalkubeclient ks1) < NodeNumber c" using a1(5) p(2) by simp
  obtain access' cfg2 ks2 where a2: "AddNodes fuel env (c, ks1) = (Ok (access', ListNodes env ks2), (cfg2, ks2))"
    "cfg_ok cfg2" "fresh_names env ks2" "tracker_wf (externalkubeclient ks2)"
    "node_count (externalkubeclient ks2) = NodeNumber c"
    "\<exists>d. ks2 = ks1\<lparr>draws := d, externalkubeclient := externalkubeclient ks2\<rparr>"
    "\<forall>g. g \<noteq> Nodes \<longrightarrow> objs (externalkubeclient ks2) g = objs (externalkubeclient ks1) g"
    by (rule fresh_AddNodes [OF inj a1(3) oks(2) less a1(4) fuel])
  have like2: "nodes_like cfg (externalkubeclient ks2)" using AddNodes_like [OF a2(1) c(1)] like1 by blast
  obtain d1 d2 where e: "ks1 = ?k0\<lparr>draws := d1, externalkubeclient := externalkubeclient ks1\<rparr>"
    "ks2 = ks1\<lparr>draws := d2, externalkubeclient := externalkubeclient ks2\<rparr>"
    using a1(6) a2(6) by (elim exE)
  have "status ks2 = status ks1" by (subst e(2)) simp
  also have "\<dots> = status ks" by (subst e(1)) simp
  finally have st: "st_Pods (status ks2) = []" using rd by (simp add: ready_def)
  have rest: "objs (externalkubeclient ks2) g = base g" if "g \<noteq> Nodes" for g
    using that a1(7) a2(7) t(3) rd by (cases "g = Pods") (simp_all add: ready_def)
  have pc: "probe_cluster base cfg (NodeNumber c) ks2"
    using a2(4,5) st rest like2 node_count_card [OF a2(4)] by (simp add: probe_cluster_def)
  obtain sp ks3 where r: "CreateApps fuel env apps ks2 = (Ok sp, ks3)" "ready base ks3"
    by (rule probe_CreateApps [OF ok pc ready_base_clean [OF rd]])
  have go: "PredictionGo sp" using fits_fromD [OF th pc r(1)] c(2) by simp
  have "CreateFakeNode fuel env p (cur, ks) = (Ok access, (cfg1, ks1))"
    using a1(1) t(1) by (simp add: CreateFakeNode_def)
  moreover have "add_request_effect fuel env c 1 ks1 = ks2" using a2(1) by (simp add: add_request_effect_def)
  ultimately show thesis using that [OF _ conjunct1 [OF like1]] r go by simp
qed

lemma disturbed_run:
  assumes ok: "prediction_ok fuel env (ag_Apps g) base" and th: "fits_from fuel env (ag_Apps g) base cfg T"
    and rd: "ready base ks" and cur: "derived_config cfg cur" and c: "derived_config cfg c" "T \<le> NodeNumber c"
    and s: "s = search_start n" and n: "0 \<le> n" "n \<le> 2 ^ 53" "\<not> in_gap n"
    and p: "p = predictionNodeCount s" "n + 2 \<le> p" "p < T"
  shows "\<exists>n0. \<forall>k \<ge> n0. \<exists>r ks'. prediction_among (add_request_effect fuel env c) 1 k fuel env g key s be bp (cur, ks) = (Ok r, ks') \<and>
    prediction_end base key p ks'"
proof -
  obtain access cfg1 ks1 sp ks2 where c1: "CreateFakeNode fuel env p (cur, ks) = (Ok access, (cfg1, ks1))"
    "derived_config cfg cfg1" "CreateApps fuel env (ag_Apps g) (add_request_effect fuel env c 1 ks1) = (Ok sp, ks2)"
    "ready base ks2" "PredictionGo sp"
    by (rule disturbed_probe [OF ok th rd cur _ _ c, of p]) (use n p c in simp_all)
  have g: "n + 2 \<le> generateMaxNode n" using generateMaxNode_above n(2,3) by blast
  have pn: "p = (n + generateMaxNode n) div 2" using p(1) n(1) g by (simp add: s search_start_def quot_nonneg)
  let ?s = "\<lparr>minNode = n, maxNode = p, FminNode = n, FmaxNode = generateMaxNode n, predictionNodeCount = (n + p) div 2\<rparr>"
  have u: "search_update True s = ?s"
    using p(1) n(1) p(2) by (simp add: s search_start_def search_update_def quot_nonneg)
  have a: "search_next ?s = Again ?s" using p(2) by (simp add: search_next_def)
  have nn: "search_nonneg ?s" using n(1) p(2) g by (simp add: search_nonneg_def)
  have "p \<noteq> generateMaxNode n" using pn g by linarith
  then obtain f where f: "search_run f (\<lambda>m. T \<le> m) ?s = Some p"
    using search_believes [of ?s T] p(2,3) n(1) by auto
  have c1': "or_nil (CreateApps fuel env (ag_Apps g) (add_request_effect fuel env c 1 ks1)) = (Ok sp, ks2)"
    using c1(3) by simp
  have run: "\<exists>r ks'. prediction_among (add_request_effect fuel env c) 1 (Suc k) fuel env g key s be bp (cur, ks) = (Ok r, ks') \<and>
      prediction_end base key p ks'" if "f \<le> k" for k
  proof -
    have "prediction_among (add_request_effect fuel env c) 1 (Suc k) fuel env g key s be bp (cur, ks) =
        prediction_among (add_request_effect fuel env c) 2 k fuel env g key ?s (ReportList sp) access (cfg1, ks2)"
      unfolding prediction_among.simps p(1) [symmetric] c1(1) prod.case res.case seq_Ok_I [OF c1']
      using c1(5) u a by (simp add: numeral_2_eq_2)
    also have "\<dots> = prediction_loop k fuel env g key ?s (ReportList sp) access (cfg1, ks2)"
      by (rule undisturbed) (simp add: add_request_effect_def)
    finally show ?thesis
      using prediction_loop_search [OF ok th search_run_more [OF f that] nn c1(4,2)] by simp
  qed
  show ?thesis
  proof (intro exI [of _ "Suc f"] allI impI)
    fix k assume "Suc f \<le> k"
    then obtain k' where "k = Suc k'" "f \<le> k'" by (cases k) auto
    with run [of k'] show "\<exists>r ks'. prediction_among (add_request_effect fuel env c) 1 k fuel env g key s be bp (cur, ks) = (Ok r, ks') \<and>
        prediction_end base key p ks'" by simp
  qed
qed

text \<open>
  C16. A request to add nodes can falsify a prediction. When it is handled between the moment the first
  probe has made its nodes and the moment it schedules on them, and asks for enough nodes of the same
  configuration, the probe succeeds on nodes that are not its own: the job reports its first guess, whatever
  larger number \<open>T\<close> the applications really need, and which it would have found undisturbed.
\<close>

theorem disturbed_prediction_reports_guess:
  assumes "prediction_ok fuel env (ag_Apps g) base" and "ready base ks"
    and "last_config (ag_Nodes g) = cfg" and "cfg_ok cfg" and "0 \<le> NodeNumber cfg" and "NodeNumber cfg \<le> 2 ^ 53"
    and "\<not> in_gap (NodeNumber cfg)" and "fits_from fuel env (ag_Apps g) base cfg T"
    and "guess = predictionNodeCount (search_start (NodeNumber cfg))" and "NodeNumber cfg + 2 \<le> guess" and "guess < T"
    and "derived_config cfg c" and "T \<le> NodeNumber c"
  shows "\<exists>n0. \<forall>n \<ge> n0.
    (\<exists>r ks'. DisturbedPrediction (add_request_effect fuel env c) n fuel env g key ks = (Ok r, ks') \<and> prediction_end base key guess ks') \<and>
    (\<exists>r ks'. DisturbedPrediction (\<lambda>i x. x) n fuel env g key ks = (Ok r, ks') \<and> prediction_end base key T ks')"
proof -
  have "0 \<le> T" using assms(5,10,11) by simp
  then obtain n0 where n0: "\<forall>n \<ge> n0. \<exists>r ks'. DisturbedPrediction (\<lambda>i x. x) n fuel env g key ks = (Ok r, ks') \<and> prediction_end base key T ks'"
    using prediction_finds [OF assms(1-8), of key] unfolding undisturbed_prediction by blast
  obtain n1 where n1: "\<forall>n \<ge> n1. \<exists>r ks'. DisturbedPrediction (add_request_effect fuel env c) n fuel env g key ks = (Ok r, ks') \<and>
      prediction_end base key guess ks'"
    using disturbed_run [OF assms(1,8,2) derived_refl [OF assms(4)] assms(12,13) refl assms(5-7,9-11), of key None "[]"] assms(3)
    unfolding DisturbedPrediction_def Let_def by blast
  show ?thesis by (rule exI [of _ "max n0 n1"]) (use n0 n1 in simp)
qed

text \<open>Seven pods of three cores need seven nodes of four cores.\<close>

lemma seven_pods_hyps:
  "prediction_ok 7 first_fit_env (ag_Apps (cpu_group 3000 7)) (\<lambda>_. Map.empty)"
  "ready (\<lambda>_. Map.empty) (New ''addNode'' (\<lambda>_. []))"
  "last_config (ag_Nodes (cpu_group 3000 7)) = example_config\<lparr>NodeNumber := 1\<rparr>"
  "cfg_ok (example_config\<lparr>NodeNumber := 1\<rparr>)" "0 \<le> NodeNumber (example_config\<lparr>NodeNumber := 1\<rparr>)"
  "NodeNumber (example_config\<lparr>NodeNumber := 1\<rparr>) \<le> 2 ^ 53" "\<not> in_gap (NodeNumber (example_config\<lparr>NodeNumber := 1\<rparr>))"
  "fits_from 7 first_fit_env (ag_Apps (cpu_group 3000 7)) (\<lambda>_. Map.empty) (example_config\<lparr>NodeNumber := 1\<rparr>) 7"
  using example_start cpu_group_ok [of 7 7 3000] three_cores_fit [of 7 7 1] by (simp_all add: in_gap_def)

theorem disturbed_prediction_reports_guess_witness:
  "\<exists>n r ks' r' ks''.
     DisturbedPrediction (add_request_effect 7 first_fit_env (example_config\<lparr>NodeNumber := 20\<rparr>)) n 7 first_fit_env
       (cpu_group 3000 7) ''job'' (New ''addNode'' (\<lambda>_. [])) = (Ok r, ks') \<and> prediction_end (\<lambda>_. Map.empty) ''job'' 5 ks' \<and>
     DisturbedPrediction (\<lambda>i x. x) n 7 first_fit_env (cpu_group 3000 7) ''job'' (New ''addNode'' (\<lambda>_. [])) = (Ok r', ks'') \<and>
     prediction_end (\<lambda>_. Map.empty) ''job'' 7 ks''"
proof -
  let ?c = "example_config\<lparr>NodeNumber := 20\<rparr>" and ?cfg = "example_config\<lparr>NodeNumber := 1\<rparr>"
  have guess: "5 = predictionNodeCount (search_start (NodeNumber ?cfg))"
    by (simp add: search_start_def generateMaxNode_def quot_def)
  have "derived_config ?cfg ?c" by (simp add: derived_refl [OF example_config_ok])
  then obtain n0 where "\<forall>n \<ge> n0.
    (\<exists>r ks'. DisturbedPrediction (add_request_effect 7 first_fit_env ?c) n 7 first_fit_env (cpu_group 3000 7) ''job''
        (New ''addNode'' (\<lambda>_. [])) = (Ok r, ks') \<and> prediction_end (\<lambda>_. Map.empty) ''job'' 5 ks') \<and>
    (\<exists>r ks'. DisturbedPrediction (\<lambda>i x. x) n 7 first_fit_env (cpu_group 3000 7) ''job'' (New ''addNode'' (\<lambda>_. [])) = (Ok r, ks') \<and>
        prediction_end (\<lambda>_. Map.empty) ''job'' 7 ks')"
    using disturbed_prediction_reports_guess [OF seven_pods_hyps guess, of ?c "''job''"] by auto
  then show ?thesis by blast
qed

end
