(* ===== verification/Paths.thy ===== *)
theory Paths
  imports Router
begin

text \<open>
  The paths of \<open>pkg/routes/routes.go\<close> and \<open>pkg/routes/pprof.go\<close> as the strings the code has.

  The theories \<open>Routes\<close> and \<open>Router\<close> match a request segment by segment. Here the constants of the
  code are strings, \<open>parse_pattern\<close> reads a pattern the way \<open>httprouter\<close> does (a segment that starts with
  a colon is a parameter), and \<open>url_segments\<close> splits the path of a request. The tables of those
  theories are what the strings parse to, and a client that puts a value into the pattern of a route
  reaches the handler of that route with that value.
\<close>

section \<open>The constants\<close>

definition versionPath :: string where "versionPath = ''/version''"
definition apiPrefixPath :: string where "apiPrefixPath = ''/v1/scheduler''"

definition appsEmulatorPrefix :: string where
  "appsEmulatorPrefix = apiPrefixPath @ ''/emulator/:kind/apps''"
definition horizontalEmulatorPrefix :: string where
  "horizontalEmulatorPrefix = apiPrefixPath @ ''/emulator/:kind/horizontal/apps''"
definition verticalEmulatorPrefix :: string where
  "verticalEmulatorPrefix = apiPrefixPath @ ''/emulator/:kind/vertical/apps''"
definition predictionPrefix :: string where
  "predictionPrefix = apiPrefixPath @ ''/prediction/:kind/nodes''"
definition reportPrefix :: string where
  "reportPrefix = apiPrefixPath @ ''/report/:id''"
definition addNodesPrefix :: string where
  "addNodesPrefix = apiPrefixPath @ ''/simulator/node''"
definition deleteALLNodePrefix :: string where
  "deleteALLNodePrefix = apiPrefixPath @ ''/simulator/node''"
definition listAllNodePrefix :: string where
  "listAllNodePrefix = apiPrefixPath @ ''/simulator/node''"
definition listNodeInfoPrefix :: string where
  "listNodeInfoPrefix = apiPrefixPath @ ''/simulator/nodeinfo''"
definition deprecatedPredictionPrefix :: string where
  "deprecatedPredictionPrefix = apiPrefixPath @ ''/deprecated/prediction/:kind/nodes''"
definition deprecatedAppsEmulatorPrefix :: string where
  "deprecatedAppsEmulatorPrefix = apiPrefixPath @ ''/deprecated/emulator/:kind/apps''"

text \<open>The routes in the order \<open>Run\<close> of \<open>server.go\<close> registers them, and those of \<open>AddPProf\<close>.\<close>

definition route_strings :: "(string \<times> string \<times> route) list" where
  "route_strings =
     [(''GET'', versionPath, ToVersion),
      (''POST'', appsEmulatorPrefix, ToApps),
      (''POST'', horizontalEmulatorPrefix, ToHorizontal),
      (''POST'', verticalEmulatorPrefix, ToVertical),
      (''POST'', predictionPrefix, ToPrediction),
      (''GET'', reportPrefix, ToReport),
      (''POST'', addNodesPrefix, ToAddNodes),
      (''GET'', listAllNodePrefix, ToListNodes),
      (''GET'', listNodeInfoPrefix, ToListNodeInfo),
      (''DELETE'', deleteALLNodePrefix, ToDeleteNodes),
      (''POST'', deprecatedPredictionPrefix, ToDeprecatedPrediction),
      (''POST'', deprecatedAppsEmulatorPrefix, ToDeprecatedApps)]"

definition pprof_strings :: "(string \<times> string \<times> pprof_page) list" where
  "pprof_strings =
     [(''GET'', ''/debug/pprof/'', pprof_index), (''GET'', ''/debug/pprof/cmdline/'', pprof_cmdline),
      (''GET'', ''/debug/pprof/profile/'', pprof_profile), (''GET'', ''/debug/pprof/allocs/'', pprof_allocs),
      (''GET'', ''/debug/pprof/symbol/'', pprof_symbol), (''GET'', ''/debug/pprof/trace/'', pprof_trace),
      (''GET'', ''/debug/pprof/heap/'', pprof_heap), (''GET'', ''/debug/pprof/goroutine/'', pprof_goroutine),
      (''GET'', ''/debug/pprof/block/'', pprof_block), (''GET'', ''/debug/pprof/threadcreate/'', pprof_threadcreate),
      (''GET'', ''/debug/pprof/mutex/'', pprof_mutex)]"

section \<open>Reading paths\<close>

fun split_slash :: "string \<Rightarrow> string list" where
  "split_slash [] = [[]]"
| "split_slash (c # s) =
     (if c = CHR ''/'' then [] # split_slash s
      else (case split_slash s of [] \<Rightarrow> [[c]] | x # xs \<Rightarrow> (c # x) # xs))"

definition url_segments :: "string \<Rightarrow> string list" where
  "url_segments path = split_slash (tl path)"

definition segment_of :: "string \<Rightarrow> segment" where
  "segment_of s = (case s of c # name \<Rightarrow> if c = CHR '':'' then Param name else Static s | [] \<Rightarrow> Static s)"

definition parse_pattern :: "string \<Rightarrow> segment list" where
  "parse_pattern path = map segment_of (url_segments path)"

definition join_slash :: "string list \<Rightarrow> string" where
  "join_slash segs = concat (map (\<lambda>s. CHR ''/'' # s) segs)"

definition parsed_routes :: router where
  "parsed_routes =
     map (\<lambda>(verb, path, page). (verb, parse_pattern path, Page page)) pprof_strings @
     map (\<lambda>(verb, path, h). (verb, parse_pattern path, Api h)) route_strings"

text \<open>The path a client builds: the parameter of a pattern replaced by a value.\<close>

fun fill :: "string \<Rightarrow> segment \<Rightarrow> string" where
  "fill v (Static s) = s"
| "fill v (Param n) = v"

definition url_for :: "string \<Rightarrow> string \<Rightarrow> string" where
  "url_for path v = join_slash (map (fill v) (parse_pattern path))"

fun takes_value :: "segment list \<Rightarrow> bool" where
  "takes_value [] \<longleftrightarrow> False"
| "takes_value (Param n # ps) \<longleftrightarrow> True"
| "takes_value (Static s # ps) \<longleftrightarrow> takes_value ps"

section \<open>Lemmas\<close>

lemma split_slash_plain: "CHR ''/'' \<notin> set s \<Longrightarrow> split_slash s = [s]"
  by (induction s) auto

lemma split_slash_append: "CHR ''/'' \<notin> set s \<Longrightarrow> split_slash (s @ CHR ''/'' # r) = s # split_slash r"
  by (induction s) auto

lemma url_segments_join:
  assumes "segs \<noteq> []" and "\<forall>s \<in> set segs. CHR ''/'' \<notin> set s"
  shows "url_segments (join_slash segs) = segs"
  using assms
proof (induction segs)
  case (Cons s segs)
  show ?case
  proof (cases segs)
    case Nil
    then show ?thesis using Cons.prems by (simp add: url_segments_def join_slash_def split_slash_plain)
  next
    case (Cons s' segs')
    then have "url_segments (join_slash segs) = segs" using Cons.IH Cons.prems(2) by simp
    then show ?thesis using Cons Cons.prems(2) by (simp add: url_segments_def join_slash_def split_slash_append)
  qed
qed simp

lemma split_slash_segments: "s \<in> set (split_slash path) \<Longrightarrow> CHR ''/'' \<notin> set s"
proof -
  have "split_slash path \<noteq> [] \<and> (\<forall>s \<in> set (split_slash path). CHR ''/'' \<notin> set s)"
    by (induction path) (auto split: list.splits)
  then show "s \<in> set (split_slash path) \<Longrightarrow> CHR ''/'' \<notin> set s" by blast
qed

lemma split_slash_ne: "split_slash path \<noteq> []"
  by (induction path) (auto split: list.splits)

lemma fill_no_slash:
  assumes "CHR ''/'' \<notin> set v"
  shows "\<forall>s \<in> set (map (fill v) (parse_pattern path)). CHR ''/'' \<notin> set s"
proof -
  have "CHR ''/'' \<notin> set (fill v (segment_of s))" if "s \<in> set (url_segments path)" for s
  proof -
    have "CHR ''/'' \<notin> set s" using that split_slash_segments unfolding url_segments_def by blast
    then show ?thesis using assms by (cases s) (auto simp: segment_of_def)
  qed
  then show ?thesis by (auto simp: parse_pattern_def)
qed

lemma url_for_segments:
  "CHR ''/'' \<notin> set v \<Longrightarrow> url_segments (url_for path v) = map (fill v) (parse_pattern path)"
  unfolding url_for_def using split_slash_ne [of "tl path"]
  by (intro url_segments_join fill_no_slash) (simp_all add: parse_pattern_def url_segments_def)

text \<open>A pattern whose only parameter is followed by static segments matches its own instances.\<close>

fun one_value :: "segment list \<Rightarrow> bool" where
  "one_value [] \<longleftrightarrow> True"
| "one_value (Param n # ps) \<longleftrightarrow> \<not> takes_value ps"
| "one_value (Static s # ps) \<longleftrightarrow> one_value ps"

lemma match_no_value: "\<not> takes_value ps \<Longrightarrow> match ps (map (fill v) ps) w = Some w"
  by (induction ps rule: takes_value.induct) auto

lemma match_fill:
  "one_value ps \<Longrightarrow> v \<noteq> [] \<Longrightarrow> match ps (map (fill v) ps) None = Some (if takes_value ps then Some v else None)"
  by (induction ps rule: one_value.induct) (auto simp: match_no_value)

lemma route_strings_parse: "map (\<lambda>(verb, path, h). (verb, parse_pattern path, h)) route_strings = route_table"
  by code_simp

lemma pprof_strings_parse: "map (\<lambda>(verb, path, page). (verb, parse_pattern path, Page page)) pprof_strings = AddPProf"
  by code_simp

lemma route_table_one_value: "\<forall>(verb, ps, h) \<in> set route_table. one_value ps"
  by code_simp

lemma parsed_routes_are: "parsed_routes = add_routes"
  unfolding parsed_routes_def add_routes_def pprof_strings_parse route_strings_parse [symmetric]
  by (simp add: case_prod_unfold comp_def)

section \<open>Properties\<close>

text \<open>
  C28. The router \<open>Run\<close> builds is the one its strings describe, and none of the registrations panics. A
  request whose path is the pattern of a route with a value in the place of its parameter, not empty
  and without a slash, goes to the handler of that route, to no other, and with that value.
\<close>

theorem urls_reach_handlers:
  assumes "(verb, path, h) \<in> set route_strings" and "v \<noteq> []" and "CHR ''/'' \<notin> set v"
  shows "new_router = Ok parsed_routes \<and>
    targets parsed_routes \<lparr>r_Method = verb, r_Path = url_segments (url_for path v), r_Body = body\<rparr> =
      [(Api h, if takes_value (parse_pattern path) then v else [])]"
proof -
  let ?r = "\<lparr>r_Method = verb, r_Path = url_segments (url_for path v), r_Body = body\<rparr>"
  have mem: "(verb, parse_pattern path, h) \<in> set route_table"
    using assms(1) unfolding route_strings_parse [symmetric] by force
  have "one_value (parse_pattern path)" using mem route_table_one_value by blast
  from match_fill [OF this assms(2)] url_for_segments [OF assms(3), of path]
  have "match (parse_pattern path) (r_Path ?r) None = Some (if takes_value (parse_pattern path) then Some v else None)"
    by simp
  then have "(h, if takes_value (parse_pattern path) then v else []) \<in> set (find_routes ?r)"
    using mem unfolding find_routes_def map_filter_def by force
  then have "(Api h, if takes_value (parse_pattern path) then v else []) \<in> set (targets add_routes ?r)"
    by (rule targets_find)
  then show ?thesis using targets_unique [of ?r] router_registers by (simp add: single parsed_routes_are)
qed

theorem urls_reach_handlers_witness:
  "targets parsed_routes \<lparr>r_Method = ''GET'', r_Path = url_segments (url_for reportPrefix ''a1''), r_Body = None\<rparr> =
     [(Api ToReport, ''a1'')] \<and> url_for reportPrefix ''a1'' = ''/v1/scheduler/report/a1''"
proof -
  have "(''GET'', reportPrefix, ToReport) \<in> set route_strings" by (simp add: route_strings_def)
  moreover have "takes_value (parse_pattern reportPrefix)" "url_for reportPrefix ''a1'' = ''/v1/scheduler/report/a1''"
    by code_simp+
  ultimately show ?thesis using urls_reach_handlers [of "''GET''" reportPrefix ToReport "''a1''" None] by simp
qed

end
