(* ===== verification/Spec2Isabelle.thy ===== *)
theory Spec2Isabelle
  imports Server Lone_Rounds Report_Print Search_Int64 Prediction_Race Paths
begin

text \<open>
  kubesim answers how many replicas of an application fit into a Kubernetes cluster, and how many nodes
  an application needs. It runs an unmodified kube-scheduler against a simulated cluster (the fake
  clientset of client-go), replaces the scheduler's bind plugin by its own, and serves its jobs over
  HTTP. This development models the repository's own Go code, about 4600 lines; the definitions
  of its functions are executable.

  \<^bold>\<open>How the program works, and where each part is\<close>

  A job enters through an HTTP route (\<open>pkg/routes/routes.go\<close>, theory \<open>Routes\<close>), is parsed into pods
  (\<open>pkg/utils/utils.go\<close>, \<open>Parse_Utils\<close>) and pushed on a queue (\<open>pkg/queue\<close>, \<open>Fifo_Queue\<close>) by one of the
  submitting emulators (\<open>pkg/scheduler/scheduler_emulator.go\<close>, \<open>emulator.go\<close>, \<open>Jobs\<close>). One worker
  goroutine, started by \<open>Run\<close> in \<open>pkg/scheduler/simulator.go\<close>, pops the jobs and runs them
  (\<open>Emulators\<close>, \<open>Prediction\<close>). Running an application means rounds of scheduling (\<open>Scheduling\<close>):
  \<open>SchedulerPod\<close> creates a pod and waits on the channel \<open>stop\<close>; the scheduler binds it through \<open>Bind\<close>,
  which creates the next pod or ends the round, or marks it unschedulable, which ends the round
  through the informer's handler \<open>Update\<close> (\<open>Kubesim_State\<close>). A report is made from the bound pods
  (\<open>pkg/scheduler/report.go\<close>, \<open>Report\<close>) and saved under the job's id, where the report route finds it.
  The cluster has nodes built on request (\<open>pkg/node/config.go\<close>, \<open>Node_Config\<close>, and \<open>Nodes\<close>) and, unless
  it is told not to, a copy of a real cluster that watchers keep up to date (\<open>Sync\<close>). The command
  line and the start-up are in \<open>cmd/kubesim/app\<close> and \<open>main.go\<close> (\<open>Server\<close>); they set up the embedded
  scheduler with its health and metrics servers (\<open>Sim_Setup\<close>) and the router (\<open>Router\<close>).

  \<^item> \<open>KS_Prelude\<close>: Go's errors, panics, nil maps, channels and integer division; \<open>res\<close> is how a call
    ends: value, error, panic or no return.
  \<^item> \<open>K8s_Objects\<close>, \<open>Tracker\<close>: pods, nodes and other API objects; the store of the fake clientset, with the
    locale \<open>object_store\<close> for its laws (interpretation \<open>ts\<close>).
  \<^item> \<open>Fifo_Queue\<close>: the job queue, with the locale \<open>pod_queue\<close> (interpretation \<open>fq\<close>); it refines a list.
  \<^item> \<open>Strategy\<close>: what \<open>Bind\<close> does to the store, locale \<open>placing_strategy\<close> (interpretation \<open>ps\<close>).
  \<^item> \<open>Report\<close>, \<open>Node_Config\<close>, \<open>Parse_Utils\<close>: pure functions; counts, units and defaults.
  \<^item> \<open>Kubesim_State\<close>: the record \<open>kubesim\<close>, the struct of the same name, and its small operations.
  \<^item> \<open>Sim_Setup\<close>: the rest of \<open>New\<close>, \<open>createScheduler\<close> and the bind plugin; which plugins the scheduler
    gets, what the insecure ports serve, and what runs beside the requests.
  \<^item> \<open>Scheduling\<close>: a request for \<open>n > 0\<close> replicas ends, with the bound pods stored and reported.
  \<^item> \<open>Goroutines\<close>, \<open>Lone_Rounds\<close>: rounds called from several goroutines as a step relation on one simulator.
    For one goroutine every round ends with the result of \<open>Scheduling\<close>, however the scheduler decides; for two
    a request can wait for ever or end the process.
  \<^item> \<open>Report_Print\<close>: the printers of \<open>report.go\<close> and \<open>PrintPod\<close>; a printed reason can be read back.
  \<^item> \<open>Nodes\<close>: \<open>ListNodes\<close>, \<open>AddNodes\<close>, \<open>DeleteNodes\<close>, \<open>CreateFakeNode\<close>: the counters agree with the
    cluster, and the number of nodes asked for is reached.
  \<^item> \<open>Emulators\<close>: the jobs on pods: what they report and that they leave the cluster as it was.
  \<^item> \<open>Probe_Clusters\<close>: the clusters the probes of a prediction run on, nodes with the resources and labels
    the job asked for and nothing else.
  \<^item> \<open>Node_Search\<close>, \<open>Prediction\<close>: the search for a number of nodes, first against an oracle, then
    composed with the emulation; where it finds the least number, as trying every number does, and
    where it never ends. That applications fit from a number of nodes on (\<open>fits_from\<close>), or on none (\<open>never_fits\<close>),
    is a hypothesis on the scheduler about nodes of the job's configuration only; \<open>Capacity\<close> proves it for a
    scheduler that puts each pod on the first node with enough CPU left, which the witnesses use.
  \<^item> \<open>Search_Int64\<close>: the same search on 64-bit words. It refines the unbounded one in the range where nothing
    wraps around, which every sensible request is in; outside it the first probe can be negative. What the
    conversion of a float out of range gives, which Go leaves to the processor, is a parameter.
  \<^item> \<open>Node_Race\<close>, \<open>Prediction_Race\<close>: requests that change the nodes at the same time, as machines under a
    schedule: two requests to add nodes against each other, and one in the middle of a prediction.
  \<^item> \<open>Frames\<close>, \<open>Jobs\<close>: what a job does not touch; the server as a step relation, with the order of jobs
    and the life cycle of an id as invariants of all runs, and the types of the stored objects.
  \<^item> \<open>Sync\<close>: \<open>SyncWithClient\<close> and the eight watchers, with the locale \<open>watcher\<close> and its interpretations
    \<open>nodes\<close>, \<open>pods\<close> and \<open>storage\<close>; the simulated cluster mirrors the real one where the informers see all
    that happens, and where they do not it keeps objects that are gone.
  \<^item> \<open>Routes\<close>, \<open>Router\<close>: HTTP handlers and dispatch, every request a run of the job machine; all routes
    together, with those of \<open>pprof.go\<close>.
  \<^item> \<open>Paths\<close>: the paths as the strings of the code, parsed into the patterns the router matches.
  \<^item> \<open>Server\<close>: the options, \<open>Run\<close> and \<open>main\<close>; where a server that comes up starts from.

  Below, a request to emulate applications and one to predict a number of nodes are followed through
  routes, queue, worker, scheduling, search and report.

  \<^bold>\<open>Parameters\<close>

  Code that is not in the repository is an argument. \<open>env\<close> has fresh UUIDs, the scheduler's decision for
  a pending pod, the dump of the scheduler's cache, the growth of Go slices and the iteration order
  of Go maps; \<open>external\<close> and \<open>cluster_client\<close> are lookups in the real cluster, \<open>codec\<close> is JSON decoding,
  \<open>platform\<close> the operating system and the Kubernetes libraries at start-up, \<open>libraries\<close> building the scheduler
  and opening ports, \<open>rendering\<close> how the API machinery prints objects. Theorems assume of them
  only what they name, such as that UUIDs do not repeat.

  \<^bold>\<open>Time, concurrency and fuel\<close>

  A round of scheduling is a sequence of decisions of the scheduler, each with its handlers in one atomic
  step, and in \<open>server_step\<close> a job, an HTTP request and an event of a watcher are atomic steps too. This is
  what happens while one goroutine at a time runs rounds, which \<open>Goroutines\<close> shows; the deprecated routes
  run rounds in goroutines of their own, and there the steps between the blocking points are the atoms.
  A handler that sends to the channel \<open>stop\<close> more than once, as \<open>Update\<close> does for a pod with several
  unschedulable conditions, is taken to send once; no theorem is about such pods (\<open>unmarked\<close>).
  Requests that change the nodes do not wait for each other or for a job: in \<open>Node_Race\<close> a listing and what is
  done about it are separate steps, in \<open>Prediction_Race\<close> the two halves of a probe.
  \<open>await\<close>, \<open>add_loop\<close> and \<open>prediction_loop\<close> may run for ever and have fuel; running out of it is the result \<open>Hang\<close>. A request
  for \<open>n\<close> replicas needs at most \<open>n\<close> decisions, adding nodes two rounds, and the search ends when the
  applications fit from some number of nodes on; the theorems give fuel that suffices, or show for
  loops that do not end that every fuel gives \<open>Hang\<close>. Replica counts are 32 bit words; numbers of nodes are
  unbounded integers, which \<open>Search_Int64\<close> justifies for Go's 64 bits: up to \<open>2 ^ 53\<close> nodes asked for and \<open>2 ^ 54\<close>
  probes, each of which moves the bounds by at most 100, stay below \<open>2 ^ 63\<close>.

  \<^bold>\<open>Not modelled\<close>

  Preemption and other writes of the scheduler besides the condition of a failed pod; data races on the
  fields of \<open>Kubesim\<close> and on the map of the queue, and interleavings inside a handler of the scheduler or
  between the single nodes a request adds; timestamps; formatting of numbers as percentages; the text of JSON and YAML; event
  recorders and informers, of which \<open>Sim_Setup\<close> only says that \<open>Run\<close> of \<open>simulator.go\<close> starts them; the timing of leader election; the
  answers of the router for unknown paths and methods; the pages of \<open>net/http/pprof\<close> and of the
  libraries' health checks and metrics, which are only named.
\<close>

section \<open>From a request to its report\<close>

definition apps_request :: "string \<Rightarrow> string \<Rightarrow> request" where
  "apps_request kind b = \<lparr>r_Method = ''POST'', r_Path = [''v1'', ''scheduler'', ''emulator'', kind, ''apps''], r_Body = Some b\<rparr>"

definition report_request :: "string \<Rightarrow> request" where
  "report_request jid = \<lparr>r_Method = ''GET'', r_Path = [''v1'', ''scheduler'', ''report'', jid], r_Body = Some []\<rparr>"

lemma requests_routed:
  "kind \<noteq> [] \<Longrightarrow> find_routes (apps_request kind b) = [(ToApps, kind)]"
  "jid \<noteq> [] \<Longrightarrow> find_routes (report_request jid) = [(ToReport, jid)]"
  by (simp_all add: find_routes_def apps_request_def report_request_def route_table_def apiPrefix_def map_filter_simps)

lemma parsed_apps:
  assumes "AppsParseToPod uuid i kind decoded = Ok (nodes, apps)" and "apps \<noteq> []"
  shows "kind \<noteq> []" and "workloads kind decoded = length apps"
proof -
  show "kind \<noteq> []" using assms by (auto simp: AppsParseToPod_def Let_def ToLower_def)
  have d: "length ws = length rs" if "parse_each ParseDeployToPod uuid i rc ws = Ok rs" for rc ws rs
    using parse_each_runnable [OF that] ParseDeployToPod_pos by metis
  have st: "length ws = length rs" if "parse_each ParseStatefulSetToPod uuid i rc ws = Ok rs" for rc ws rs
    using parse_each_runnable [OF that] ParseStatefulSetToPod_pos by metis
  show "workloads kind decoded = length apps"
    using assms by (auto simp: AppsParseToPod_def workloads_def Let_def map_res_Ok dest: d st split: sum.splits if_splits)
qed

lemma report_served:
  assumes "jid \<noteq> []" and "EmulatorReport jid ks = Ok jr"
  shows "serve fuel env ext codec (report_request jid) ks = Some (Ok (reply new_writer (ReportJson jr)), ks)"
  using assms
  by (simp add: serve_def requests_routed EmulatorReportRoute_def EmulatorReportHandler_def checkBody_def)
     (simp add: report_request_def)

lemma apps_request_accepted:
  assumes "AppsParseToPod (e_uuid env) (draws ks) kind (decode_apps codec b) = Ok (nodes, apps)" and "apps \<noteq> []"
    and "submit_job env (empty_group\<lparr>EmulatorType := ''AppsEmulator'', ag_Apps := apps\<rparr>) (ks\<lparr>draws := draws ks + length apps\<rparr>) = (jid, ks1)"
  shows "serve fuel env ext codec (apps_request kind b) ks = Some (Ok (reply new_writer (JobJson jid)), ks1)"
  using assms parsed_apps [OF assms(1,2)]
  by (simp add: serve_def requests_routed AppsEmulatorRoute_def parse_apps_def checkBody_def AppsHandler_def NewAppsEmulator_def)
     (simp add: apps_request_def)

text \<open>A job on applications ends with its report.\<close>

lemma apps_job_reported:
  assumes "EmulatorType g = ''AppsEmulator''" and ok: "requests_ok fuel env (ag_Apps g) ks" and "ag_Apps g \<noteq> []"
  obtains ks' jr where "run_job n fuel env g jid ks = (Ok (), ks')" and "EmulatorReport jid ks' = Ok jr" and "JobID jr = jid"
    and "list_all2 (report_of env) (ag_Apps g) (job_Report jr)"
    and "job_Status jr = (if all_scheduled (ag_Apps g) (job_Report jr) then JobSucceed else JobFailed)"
    and "cleaned (externalkubeclient ks) (externalkubeclient ks')" and "fifoQueue ks' = fifoQueue ks"
proof -
  have em: "appsEmulator fuel env g jid = (\<lambda>ks. seq (run_apps fuel env (ag_Apps g) [] ks)
      (\<lambda>reportlist ks1. (Ok reportlist, save_result jid (Some reportlist) (clean_up ks1))) id)"
    by (rule ext) (simp add: appsEmulator_def)
  obtain rvs ks' where e: "appsEmulator fuel env g jid ks = (Ok rvs, ks')"
    "list_all2 (report_of env) (ag_Apps g) rvs" "emulatorResult ks' = (emulatorResult ks)(jid \<mapsto> Some rvs)"
    "fifoQueue ks' = fifoQueue ks" "cleaned (externalkubeclient ks) (externalkubeclient ks')"
    by (rule emulator_job [OF ok em])
  have "run_job n fuel env g jid ks = (Ok (), ks')" using e(1) assms(1) by (simp add: run_job_def)
  moreover have "\<forall>app \<in> set (ag_Apps g). valid_request fuel app" using ok by (simp add: requests_ok_def)
  then have "verdict rvs = Ok (if all_scheduled (ag_Apps g) rvs then JobSucceed else JobFailed)"
    by (rule verdict_reports [OF e(2) _ assms(3)])
  then have "EmulatorReport jid ks' = Ok \<lparr>JobID = jid,
      job_Status = (if all_scheduled (ag_Apps g) rvs then JobSucceed else JobFailed),
      job_Report = rvs, PredictionNodeR = predictionNode ks' jid\<rparr>"
    using e(3) by (simp add: EmulatorReport_def Let_def)
  ultimately show thesis by (rule that) (use e(2,4,5) in simp_all)
qed

lemma job_done_reachable:
  assumes "server_reachable env s" and "running_job s = None" and "fifo_Pop (fifoQueue (sim s)) = (Inr g, jid, q)"
    and "run_job n fuel env g jid ((sim s)\<lparr>fifoQueue := q\<rparr>) = (Ok (), ks)"
  shows "server_reachable env (s\<lparr>sim := ks, started := started s @ [jid]\<rparr>)"
proof -
  let ?s = "s\<lparr>sim := (sim s)\<lparr>fifoQueue := q\<rparr>, running_job := Some (jid, g), started := started s @ [jid]\<rparr>"
  have "server_step env s ?s" using assms(2,3) by (rule server_step.take_job)
  moreover have "server_step env ?s (?s\<lparr>sim := ks, running_job := None\<rparr>)"
    using assms(4) by (intro server_step.finish) simp_all
  ultimately have "server_reachable env (?s\<lparr>sim := ks, running_job := None\<rparr>)"
    using assms(1) by (blast intro: server_reachable.step)
  then show ?thesis using assms(2) by (cases s) simp
qed

text \<open>
  A job submitted to an idle server: it is reported as queued, and the worker's next iteration runs it.
  When it ends, the report route serves its report and the server is idle again.
\<close>

definition queued_report :: "string \<Rightarrow> job_report" where
  "queued_report jid = \<lparr>JobID = jid, job_Status = JobQueuing, job_Report = [], PredictionNodeR = None\<rparr>"

lemma job_queued:
  assumes inj: "inj (e_uuid env)" and "\<forall>i. e_uuid env i \<noteq> []" and reach: "server_reachable env s"
    and idle: "running_job s = None" "waiting (sim s) = []"
    and sub: "submit_job env g ((sim s)\<lparr>draws := draws (sim s) + m\<rparr>) = (jid, ks)"
  obtains q where "jid \<noteq> []" and "ks = (sim s)\<lparr>draws := Suc (draws (sim s) + m), fifoQueue := fifo_Push jid g (fifoQueue (sim s))\<rparr>"
    and "EmulatorReport jid ks = Ok (queued_report jid)" and "fifo_Pop (fifoQueue ks) = (Inr g, jid, q)" and "fifo_abs q = []"
    and "\<forall>n fuel. worker_iteration n fuel env ks = run_job n fuel env g jid (ks\<lparr>fifoQueue := q\<rparr>)"
    and "server_reachable env (s\<lparr>sim := ks, submitted := submitted s @ [jid]\<rparr>)"
proof -
  let ?s = "s\<lparr>sim := (sim s)\<lparr>draws := draws (sim s) + m\<rparr>\<rparr>"
  have sub': "submit_job env g (sim ?s) = (jid, ks)" using sub by simp
  have ks: "ks = (sim s)\<lparr>draws := Suc (draws (sim s) + m), fifoQueue := fifo_Push jid g (fifoQueue (sim s))\<rparr>"
    and jid: "jid \<noteq> []" using sub assms(2) by (auto simp: submit_job_def Let_def)
  have inv: "job_inv env ?s" by (rule job_inv_reachable [OF inj draws_reachable [OF reach]])
  note u = submit_inv [OF inv inj sub']
  let ?s1 = "s\<lparr>sim := ks, submitted := submitted s @ [jid]\<rparr>"
  have "jid \<notin> set (started s)" using u(2) job_invD(2) [OF inv] by simp
  then have "emulatorResult (sim s) jid = None" using job_invD(6) [OF inv] by auto
  then have "job_phase ?s1 jid = Waiting" using u(3,4) idle(1) by (simp add: job_phase_def)
  then have queued: "EmulatorReport jid ks = Ok (queued_report jid)"
    using report_phase [of env ?s1 jid] u(1) by (simp add: phase_status_def queued_report_def)
  have "fifo_abs (fifoQueue (sim s)) = []" using idle(2) by (simp add: waiting_def)
  then have "fifo_abs (fifoQueue ks) = [(jid, g)]"
    using fq.push_abs [of "fifoQueue (sim s)" jid g] job_invD(1) [OF inv] by (simp add: ks)
  then obtain q where q: "fifo_Pop (fifoQueue ks) = (Inr g, jid, q)" "fifo_abs q = []" using fq.pop_some [OF u(6)] by blast
  have "\<forall>n fuel. worker_iteration n fuel env ks = run_job n fuel env g jid (ks\<lparr>fifoQueue := q\<rparr>)"
    using q(1) by (simp add: worker_iteration_def)
  from that [OF jid ks queued q this submit_reachable [OF reach sub]] show thesis .
qed

lemma job_ends_idle:
  assumes "server_reachable env (s\<lparr>sim := ks, submitted := submitted s @ [jid]\<rparr>)" and "running_job s = None"
    and "fifo_Pop (fifoQueue ks) = (Inr g, jid, q)" and "fifo_abs q = []"
    and "run_job n fuel env g jid (ks\<lparr>fifoQueue := q\<rparr>) = (Ok (), ks')"
  shows "waiting ks' = [] \<and>
    server_reachable env (s\<lparr>sim := ks', submitted := submitted s @ [jid], started := started s @ [jid]\<rparr>)"
proof
  let ?s = "s\<lparr>sim := ks, submitted := submitted s @ [jid]\<rparr>"
  have "job_effect jid (ks\<lparr>fifoQueue := q\<rparr>) ks'" using run_job_effect [of jid "ks\<lparr>fifoQueue := q\<rparr>" n fuel env g] assms(5) by simp
  then show "waiting ks' = []" using assms(4) by (simp add: job_effect_def keeps_but_def waiting_def)
  have "server_reachable env (?s\<lparr>sim := ks', started := started ?s @ [jid]\<rparr>)"
    using assms(2,3,5) by (intro job_done_reachable [OF assms(1)]) simp_all
  then show "server_reachable env (s\<lparr>sim := ks', submitted := submitted s @ [jid], started := started s @ [jid]\<rparr>)"
    by (cases s) simp
qed

text \<open>
  C1. A request to emulate applications, followed through all components. A server that is idle gets
  a request whose body is parsed into applications. It answers with an id; the report route says
  that this job is queued; the worker takes it and finishes it; from then on the report route answers
  with one report per application and the status Succeed when all of them were scheduled in full and
  Failed otherwise. The cluster is as before but for pods of kubesim that are gone, and the server is
  idle again, in a state the job machine reaches.
\<close>

theorem apps_request_to_report:
  assumes "inj (e_uuid env)" and "\<forall>i. e_uuid env i \<noteq> []"
    and "server_reachable env s" and "running_job s = None" and "waiting (sim s) = []"
    and "AppsParseToPod (e_uuid env) (draws (sim s)) kind (decode_apps codec b) = Ok (nodes, apps)" and "apps \<noteq> []"
    and "requests_ok fuel env apps ((sim s)\<lparr>draws := Suc (draws (sim s) + length apps)\<rparr>)"
  shows "\<exists>jid ks1 ks2 jr.
    serve f env ext codec (apps_request kind b) (sim s) = Some (Ok (reply new_writer (JobJson jid)), ks1) \<and>
    serve f env ext codec (report_request jid) ks1 = Some (Ok (reply new_writer (ReportJson (queued_report jid))), ks1) \<and>
    worker_iteration n fuel env ks1 = (Ok (), ks2) \<and>
    serve f env ext codec (report_request jid) ks2 = Some (Ok (reply new_writer (ReportJson jr)), ks2) \<and>
    JobID jr = jid \<and> list_all2 (report_of env) apps (job_Report jr) \<and>
    job_Status jr = (if all_scheduled apps (job_Report jr) then JobSucceed else JobFailed) \<and>
    cleaned (externalkubeclient (sim s)) (externalkubeclient ks2) \<and> waiting ks2 = [] \<and>
    server_reachable env (s\<lparr>sim := ks2, submitted := submitted s @ [jid], started := started s @ [jid]\<rparr>)"
proof -
  let ?g = "empty_group\<lparr>EmulatorType := ''AppsEmulator'', ag_Apps := apps\<rparr>"
  obtain jid ks1 where sub: "submit_job env ?g ((sim s)\<lparr>draws := draws (sim s) + length apps\<rparr>) = (jid, ks1)" by fastforce
  obtain q where q: "jid \<noteq> []"
    "ks1 = (sim s)\<lparr>draws := Suc (draws (sim s) + length apps), fifoQueue := fifo_Push jid ?g (fifoQueue (sim s))\<rparr>"
    "EmulatorReport jid ks1 = Ok (queued_report jid)" "fifo_Pop (fifoQueue ks1) = (Inr ?g, jid, q)" "fifo_abs q = []"
    "\<forall>n fuel. worker_iteration n fuel env ks1 = run_job n fuel env ?g jid (ks1\<lparr>fifoQueue := q\<rparr>)"
    "server_reachable env (s\<lparr>sim := ks1, submitted := submitted s @ [jid]\<rparr>)"
    by (rule job_queued [OF assms(1-5) sub])
  have g: "EmulatorType ?g = ''AppsEmulator''" "requests_ok fuel env (ag_Apps ?g) (ks1\<lparr>fifoQueue := q\<rparr>)" "ag_Apps ?g \<noteq> []"
    using assms(7,8) by (simp_all add: requests_ok_def q(2))
  obtain ks2 jr where e: "run_job n fuel env ?g jid (ks1\<lparr>fifoQueue := q\<rparr>) = (Ok (), ks2)" "EmulatorReport jid ks2 = Ok jr"
    "JobID jr = jid" "list_all2 (report_of env) (ag_Apps ?g) (job_Report jr)"
    "job_Status jr = (if all_scheduled (ag_Apps ?g) (job_Report jr) then JobSucceed else JobFailed)"
    "cleaned (externalkubeclient (ks1\<lparr>fifoQueue := q\<rparr>)) (externalkubeclient ks2)"
    by (rule apps_job_reported [OF g])
  have "cleaned (externalkubeclient (sim s)) (externalkubeclient ks2)" using e(6) by (simp add: q(2))
  then show ?thesis
    using apps_request_accepted [OF assms(6,7) sub] report_served [OF q(1,3)] report_served [OF q(1) e(2)] q(6) e(1,3-5)
      job_ends_idle [OF q(7) assms(4) q(4,5) e(1)]
    by - (rule exI [of _ jid], rule exI [of _ ks1], rule exI [of _ ks2], rule exI [of _ jr], simp)
qed





section \<open>Examples\<close>

text \<open>
  One deployment of two replicas of three cores. The first scheduler always finds a node, the second
  counts resources, so that two nodes of four cores are needed.
\<close>

definition one_node_env :: env where
  "one_node_env = first_fit_env\<lparr>e_schedule := (\<lambda>i d t p. BindTo ''n1'')\<rparr>"

definition web_deployment :: workload where
  "web_deployment = zero_workload\<lparr>w_Kind := ''Deployment'', w_Name := ''web'', w_Namespace := ''ns'', w_Replicas := Some 2,
     w_TemplateSpec := empty_spec\<lparr>Containers := [\<lparr>c_Name = ''web'', c_Requests = [(''cpu'', 3000 * 10 ^ 6)]\<rparr>]\<rparr>\<rparr>"

definition web_codec :: codec where
  "web_codec = example_codec\<lparr>decode_apps := (\<lambda>b. Inr \<lparr>a_Nodes = [example_config\<lparr>NodeNumber := 1\<rparr>],
     a_DeployApps = [Some web_deployment], a_StatefulsetApps = []\<rparr>)\<rparr>"

definition web_apps :: "pod_request list" where
  "web_apps = [\<lparr>pr_Pod = Some (workload_pod (e_uuid first_fit_env 0) web_deployment), pr_Replicas = 2, pr_Kind = ''deployment''\<rparr>]"

lemma one_node_uuids [simp]: "e_uuid one_node_env = e_uuid first_fit_env"
  by (simp add: one_node_env_def)

lemma web_parsed: "AppsParseToPod (e_uuid first_fit_env) 0 ''deployment'' (decode_apps web_codec b) =
    Ok ([example_config\<lparr>NodeNumber := 1\<rparr>], web_apps)"
proof -
  have "ToLower ''deployment'' = ''deployment''" "ToLower ''Deployment'' = ''deployment''" by code_simp+
  then show ?thesis
    by (simp add: AppsParseToPod_def web_codec_def web_apps_def web_deployment_def ParseDeployToPod_def replicas_or_one_def)
qed

lemma web_facts:
  "2 * total_replicas web_apps = 4"
  "request_pods web_apps = [workload_pod (e_uuid first_fit_env 0) web_deployment]"
  "cpu_request (workload_pod (e_uuid first_fit_env 0) web_deployment) = 3000 * 10 ^ 6"
  by (simp_all add: total_replicas_def replicas_of_def web_apps_def request_pods_def map_filter_simps cpu_request_def
      workload_pod_def web_deployment_def default_scheduler_def cpu_of_def)

lemma web_unique: "e_uuid env = e_uuid first_fit_env \<Longrightarrow> unique_draws env (request_pods web_apps) d 4 Map.empty"
  unfolding web_facts by (rule first_fit_unique) simp_all

lemma web_valid: "app \<in> set web_apps \<Longrightarrow> valid_request 2 app"
  by (simp add: web_apps_def valid_request_def replicas_of_def unmarked_def workload_pod_def empty_status_def)

lemma web_requests_ok: "requests_ok 2 one_node_env web_apps ((sim first_server)\<lparr>draws := 2\<rparr>)"
  using web_unique [of one_node_env 2] web_valid unfolding requests_ok_def web_facts(1)
  by (simp add: answers_def one_node_env_def first_server_def server_start_def tracker_wf_def objs_def)



lemma first_idle: "running_job first_server = None" "draws (sim first_server) = 0" "ready (\<lambda>_. Map.empty) (sim first_server)"
  using example_start(1) by (simp_all add: first_server_def server_start_def)

theorem apps_request_to_report_witness:
  "\<exists>jid ks1 ks2 jr.
    serve 0 one_node_env example_external web_codec (apps_request ''deployment'' ''{}'') (sim first_server) =
      Some (Ok (reply new_writer (JobJson jid)), ks1) \<and>
    worker_iteration 0 2 one_node_env ks1 = (Ok (), ks2) \<and>
    serve 0 one_node_env example_external web_codec (report_request jid) ks2 =
      Some (Ok (reply new_writer (ReportJson jr)), ks2) \<and> length (job_Report jr) = 1"
proof -
  have u: "inj (e_uuid one_node_env)" "\<forall>i. e_uuid one_node_env i \<noteq> []" using first_fit_inj first_fit_env_facts(3) by simp_all
  have p: "AppsParseToPod (e_uuid one_node_env) (draws (sim first_server)) ''deployment'' (decode_apps web_codec ''{}'') =
      Ok ([example_config\<lparr>NodeNumber := 1\<rparr>], web_apps)"
    unfolding first_idle(2) one_node_uuids by (rule web_parsed)
  have ne: "web_apps \<noteq> []" and l: "length web_apps = 1" by (simp_all add: web_apps_def)
  have ok: "requests_ok 2 one_node_env web_apps
      ((sim first_server)\<lparr>draws := Suc (draws (sim first_server) + length web_apps)\<rparr>)"
    using web_requests_ok by (simp add: first_idle(2) l numeral_2_eq_2)
  from apps_request_to_report [OF u first_reachable first_idle(1) first_waiting p ne ok, of 0 example_external 0]
  obtain jid ks1 ks2 jr where r:
    "serve 0 one_node_env example_external web_codec (apps_request ''deployment'' ''{}'') (sim first_server) =
      Some (Ok (reply new_writer (JobJson jid)), ks1)" "worker_iteration 0 2 one_node_env ks1 = (Ok (), ks2)"
    "serve 0 one_node_env example_external web_codec (report_request jid) ks2 =
      Some (Ok (reply new_writer (ReportJson jr)), ks2)" "list_all2 (report_of one_node_env) web_apps (job_Report jr)"
    by (elim exE conjE) (rule that)
  have "length (job_Report jr) = 1" using list_all2_lengthD [OF r(4)] l by simp
  with r(1-3) show ?thesis
    by - (rule exI [of _ jid], rule exI [of _ ks1], rule exI [of _ ks2], rule exI [of _ jr], simp)
qed


end
